(* ===== verification/Prelude.thy ===== *)
theory Prelude
  imports Main "HOL-Library.Word" "HOL-Library.Multiset"
begin

unbundle bit_operations_syntax

text \<open>
  The vocabulary shared by every component of the development: the C integer
  types at their width (an LP64 little-endian target with a signed plain char,
  as on x86-64), the errno values libbpf returns, byte buffers and the C string
  functions the sources call, the behaviour of the C allocator that the sources
  rely on, and the generic lemmas on lists, words and results that the component
  proofs use through the collections declared here.
\<close>

named_theorems result_simps \<open>unfolding of the result type and its sequencing\<close>
named_theorems byte_simps \<open>reading and writing of integers in byte buffers\<close>
named_theorems cstr_simps \<open>C strings\<close>

section \<open>Integer types\<close>

type_synonym u8 = "8 word"
type_synonym u16 = "16 word"
type_synonym u32 = "32 word"
type_synonym u64 = "64 word"
type_synonym bytes = "u8 list"

lemma unat_less_u64: "unat (w :: u64) < 2 ^ 64"
  by (rule order_less_le_trans [OF unsigned_less]) simp

lemma unat_less_u32: "unat (w :: u32) < 2 ^ 32"
  by (rule order_less_le_trans [OF unsigned_less]) simp

lemma unat_less_u16: "unat (w :: u16) < 2 ^ 16"
  by (rule order_less_le_trans [OF unsigned_less]) simp

lemma unat_less_u8: "unat (w :: u8) < 2 ^ 8"
  by (rule order_less_le_trans [OF unsigned_less]) simp

lemmas unat_bounds = unat_less_u64 unat_less_u32 unat_less_u16 unat_less_u8

lemma unat_add_u64: "unat a + unat b < 2 ^ 64 \<Longrightarrow> unat (a + b :: u64) = unat a + unat b"
  by (simp add: unat_word_ariths)

lemma unat_mult_u64: "unat a * unat b < 2 ^ 64 \<Longrightarrow> unat (a * b :: u64) = unat a * unat b"
  by (simp add: unat_word_ariths)

lemma unat_diff_u64: "b \<le> a \<Longrightarrow> unat (a - b :: u64) = unat a - unat b"
  by (simp add: unat_sub)

lemma unat_shl_u64: "n < 64 \<Longrightarrow> unat (push_bit n (1 :: u64)) = 2 ^ n"
  by (subst unsigned_push_bit_eq) (simp add: take_bit_push_bit)

lemma unat_pow_u64: "n < 64 \<Longrightarrow> unat ((2 :: u64) ^ n) = 2 ^ n"
  using unat_shl_u64 by simp

lemma unat_add_u32: "unat a + unat b < 2 ^ 32 \<Longrightarrow> unat (a + b :: u32) = unat a + unat b"
  by (simp add: unat_word_ariths)

lemma unat_ucast_up [simp]:
  "unat (ucast (a :: u8) :: u16) = unat a" "unat (ucast a :: u32) = unat a" "unat (ucast a :: u64) = unat a"
  "unat (ucast (b :: u16) :: u32) = unat b" "unat (ucast b :: u64) = unat b"
  "unat (ucast (c :: u32) :: u64) = unat c"
  using unat_bounds(2) [of c] unat_bounds(3) [of b] unat_bounds(4) [of a]
  by (simp_all add: unsigned_ucast_eq take_bit_nat_eq_self)

lemma uint_of_nat_u32: "n < 2 ^ 32 \<Longrightarrow> uint (of_nat n :: u32) = int n"
  by (simp add: unsigned_of_nat take_bit_nat_eq_self)

lemma unat_of_nat_u32: "n < 2 ^ 32 \<Longrightarrow> unat (of_nat n :: u32) = n"
  by (simp add: unsigned_of_nat take_bit_nat_eq_self)

lemma sint_nonneg_u32:
  assumes "0 \<le> sint (w :: u32)"
  shows "sint w = uint w"
proof -
  have "sint w < 2 ^ 31" using sint_less [of w] by simp
  then have "take_bit 32 (sint w) = sint w" using assms by (intro take_bit_int_eq_self) simp_all
  then show ?thesis using uint_sint [of w] by simp
qed

section \<open>Evaluation of list operations at numerals\<close>

lemma replicate_numeral_eval: "replicate (numeral k) x = x # replicate (pred_numeral k) x"
  by (simp add: numeral_eq_Suc)

lemma list_update_numeral_eval: "(x # xs)[numeral k := y] = x # xs[pred_numeral k := y]"
  by (simp add: numeral_eq_Suc)

lemma take_numeral_eval: "take (numeral k) (x # xs) = x # take (pred_numeral k) xs"
  by (simp add: numeral_eq_Suc)

lemma drop_numeral_eval: "drop (numeral k) (x # xs) = drop (pred_numeral k) xs"
  by (simp add: numeral_eq_Suc)

lemma upt_numeral_eval: "[numeral k..<numeral l] = (if numeral k < (numeral l :: nat)
    then numeral k # [Suc (numeral k)..<numeral l] else [])"
  by (simp add: upt_rec [of "numeral k"])

lemmas list_eval = replicate_numeral_eval list_update_numeral_eval take_numeral_eval drop_numeral_eval

section \<open>Memory and C strings\<close>

text \<open>
  An object in memory is the list of its bytes. \<open>mem_write\<close> is \<open>memcpy\<close> into
  it, \<open>mem_set\<close> is \<open>memset\<close>. A C string is given by the bytes from the
  pointer to the end of the object; it ends at the first zero byte.
\<close>

definition mem_write :: "'a list \<Rightarrow> nat \<Rightarrow> 'a list \<Rightarrow> 'a list" where
  "mem_write buf off bs = take off buf @ bs @ drop (off + length bs) buf"

definition mem_set :: "'a list \<Rightarrow> nat \<Rightarrow> 'a \<Rightarrow> nat \<Rightarrow> 'a list" where
  "mem_set buf off v n = mem_write buf off (replicate n v)"

definition cstr :: "bytes \<Rightarrow> bytes" where
  "cstr s = takeWhile (\<lambda>c. c \<noteq> 0) s"

definition strlen :: "bytes \<Rightarrow> nat" where
  "strlen s = length (cstr s)"

fun strcmp :: "bytes \<Rightarrow> bytes \<Rightarrow> int" where
  "strcmp [] [] = 0"
| "strcmp [] (y # ys) = - uint y"
| "strcmp (x # xs) [] = uint x"
| "strcmp (x # xs) (y # ys) = (if x \<noteq> y \<or> x = 0 then uint x - uint y else strcmp xs ys)"

lemma length_mem_write [simp]: "off + length bs \<le> length buf \<Longrightarrow> length (mem_write buf off bs) = length buf"
  by (simp add: mem_write_def)

lemma length_mem_set [simp]: "off + n \<le> length buf \<Longrightarrow> length (mem_set buf off v n) = length buf"
  by (simp add: mem_set_def)

lemma take_mem_write [simp]: "n \<le> off \<Longrightarrow> off \<le> length buf \<Longrightarrow> take n (mem_write buf off bs) = take n buf"
  by (simp add: mem_write_def)

lemma drop_mem_write [simp]: "off \<le> length buf \<Longrightarrow> drop off (mem_write buf off bs) = bs @ drop (off + length bs) buf"
  by (simp add: mem_write_def)

lemma cstr_eqs [cstr_simps, simp]:
  "cstr [] = []" "cstr (c # s) = (if c = 0 then [] else c # cstr s)"
  by (simp_all add: cstr_def)

lemma cstr_no_zero: "0 \<notin> set (cstr s)"
  unfolding cstr_def using set_takeWhileD by fastforce

lemma cstr_append: "cstr (s @ t) = (if 0 \<in> set s then cstr s else s @ cstr t)"
  by (induction s) auto

lemma cstr_id: "0 \<notin> set s \<Longrightarrow> cstr s = s"
  by (induction s) auto

lemma strlen_less: "0 \<in> set s \<Longrightarrow> strlen s < length s"
  unfolding strlen_def by (induction s) auto

lemma strlen_le: "strlen s \<le> length s"
  by (simp add: strlen_def cstr_def length_takeWhile_le)

lemma cstr_terminated: "0 \<in> set s \<Longrightarrow> take (Suc (strlen s)) s = cstr s @ [0]"
  unfolding strlen_def by (induction s) auto

lemma strcmp_eq_0_iff: "strcmp a b = 0 \<longleftrightarrow> cstr a = cstr b"
  by (induction a b rule: strcmp.induct) (auto simp: word_uint_eq_iff)

lemma strcmp_cstr: "strcmp (cstr a) (cstr b) = strcmp a b"
  by (induction a b rule: strcmp.induct) (auto simp: neq_Nil_conv)

section \<open>Integers in memory\<close>

text \<open>Little-endian loads at a byte offset, stores, and the byte swaps of \<^verbatim>\<open>byteswap.h\<close>.\<close>

definition rd16 :: "bytes \<Rightarrow> nat \<Rightarrow> u16" where
  "rd16 d off = ucast (d ! off) OR push_bit 8 (ucast (d ! (off + 1)))"

definition rd32 :: "bytes \<Rightarrow> nat \<Rightarrow> u32" where
  "rd32 d off = ucast (d ! off) OR push_bit 8 (ucast (d ! (off + 1)))
     OR push_bit 16 (ucast (d ! (off + 2))) OR push_bit 24 (ucast (d ! (off + 3)))"

definition le16 :: "u16 \<Rightarrow> bytes" where
  "le16 w = [ucast w, ucast (drop_bit 8 w)]"

definition le32 :: "u32 \<Rightarrow> bytes" where
  "le32 w = [ucast w, ucast (drop_bit 8 w), ucast (drop_bit 16 w), ucast (drop_bit 24 w)]"

text \<open>The 32-bit words of a byte buffer; a rest of less than four bytes is left out.\<close>

fun words_le :: "bytes \<Rightarrow> u32 list" where
  "words_le (a # b # c # d # bs) = rd32 [a, b, c, d] 0 # words_le bs"
| "words_le _ = []"

definition bswap_16 :: "u16 \<Rightarrow> u16" where
  "bswap_16 w = rd16 (rev (le16 w)) 0"

definition bswap_32 :: "u32 \<Rightarrow> u32" where
  "bswap_32 w = rd32 (rev (le32 w)) 0"

lemma length_le [simp]: "length (le16 v) = 2" "length (le32 w) = 4"
  by (simp_all add: le16_def le32_def)

lemma rd16_le16 [simp]: "rd16 (le16 w) 0 = w"
  by (rule bit_word_eqI) (auto simp: rd16_def le16_def bit_simps)

lemma rd32_le32 [simp]: "rd32 (le32 w) 0 = w"
proof (rule bit_word_eqI)
  fix n :: nat assume "n < LENGTH(32)"
  then show "bit (rd32 (le32 w) 0) n \<longleftrightarrow> bit w n"
    by (cases "n < 8"; cases "n < 16"; cases "n < 24") (auto simp: rd32_def le32_def bit_simps nth_Cons')
qed

lemma bit_u8: "8 \<le> n \<Longrightarrow> \<not> bit (a :: u8) n"
  using bit_imp_le_length [of a n] by auto

lemma le16_rd16: "le16 (rd16 [a, b] 0) = [a, b]"
  by (auto simp: le16_def rd16_def bit_simps bit_u8 intro!: bit_word_eqI)

lemma le32_rd32: "le32 (rd32 [a, b, c, d] 0) = [a, b, c, d]"
  by (auto simp: le32_def rd32_def bit_simps nth_Cons' bit_u8 intro!: bit_word_eqI)

lemma bswap_16_bswap_16 [simp]: "bswap_16 (bswap_16 w) = w"
proof -
  obtain a b where w: "le16 w = [a, b]" by (simp add: le16_def)
  then have "bswap_16 (bswap_16 w) = rd16 (le16 w) 0" by (simp add: bswap_16_def le16_rd16)
  then show ?thesis by simp
qed

lemma bswap_32_bswap_32 [simp]: "bswap_32 (bswap_32 w) = w"
proof -
  obtain a b c d where w: "le32 w = [a, b, c, d]" by (simp add: le32_def)
  then have "bswap_32 (bswap_32 w) = rd32 (le32 w) 0" by (simp add: bswap_32_def le32_rd32)
  then show ?thesis by simp
qed

lemma length_words_le: "length (words_le bs) = length bs div 4"
  by (induction bs rule: words_le.induct) simp_all

lemma unat_or_shift: 
  assumes "unat (a :: u32) < 2 ^ n" "unat (b :: u32) < 2 ^ k" "n + k \<le> 32"
  shows "unat (a OR push_bit n b) = unat a + 2 ^ n * unat b"
proof -
  have "\<not> bit (unat a) m" if "n \<le> m" for m
    using assms(1) that by (metis bit_take_bit_iff leD take_bit_nat_eq_self)
  then have bn: "\<not> bit a m" if "n \<le> m" for m using that by (simp add: bit_unsigned_iff)
  have "2 ^ n * unat b < 2 ^ n * 2 ^ k" using assms(2) by simp
  also have "\<dots> \<le> 2 ^ 32" using power_increasing [OF assms(3), of "2 :: nat"] by (simp add: power_add)
  finally have "unat (push_bit n b) = 2 ^ n * unat b"
    by (subst unsigned_push_bit_eq) (simp add: push_bit_eq_mult take_bit_nat_eq_self mult.commute)
  then have "unat (a OR push_bit n b) = unat a OR push_bit n (unat b)"
    by (simp add: unsigned_or_eq push_bit_eq_mult mult.commute)
  also have "\<dots> = unat a + push_bit n (unat b)"
    by (rule disjunctive_add_eq_or [symmetric]) (auto simp: bit_eq_iff bit_simps bn)
  finally show ?thesis by (simp add: push_bit_eq_mult mult.commute)
qed
lemma unat_rd32:
  "unat (rd32 d i) = unat (d ! i) + 2 ^ 8 * unat (d ! (i + 1)) + 2 ^ 16 * unat (d ! (i + 2)) + 2 ^ 24 * unat (d ! (i + 3))"
proof -
  note b = unat_less_u8
  let ?a = "ucast (d ! i) OR push_bit 8 (ucast (d ! (i + 1))) :: u32"
  have 1: "unat ?a = unat (d ! i) + 2 ^ 8 * unat (d ! (i + 1))"
    using unat_or_shift [of "ucast (d ! i)" 8 "ucast (d ! (i + 1))" 8] b by simp
  let ?c = "?a OR push_bit 16 (ucast (d ! (i + 2)))"
  have 2: "unat ?c = unat ?a + 2 ^ 16 * unat (d ! (i + 2))"
    using unat_or_shift [of ?a 16 "ucast (d ! (i + 2))" 8] 1 b [of "d ! i"] b [of "d ! (i+1)"] b [of "d ! (i+2)"] by simp
  have "unat (?c OR push_bit 24 (ucast (d ! (i + 3)))) = unat ?c + 2 ^ 24 * unat (d ! (i + 3))"
    using unat_or_shift [of ?c 24 "ucast (d ! (i + 3))" 8] 1 2 b [of "d ! i"] b [of "d ! (i+1)"] b [of "d ! (i+2)"] b [of "d ! (i+3)"] by simp
  then show ?thesis unfolding rd32_def 2 1 by (simp add: or.assoc)
qed
section \<open>Error codes and results\<close>

text \<open>
  The negative errno values that the modelled functions return. A function that
  returns 0 or a negative error is modelled with the result type, the error on
  the left; \<open>errno_code\<close> gives the numeric value of the Linux ABI.
\<close>

datatype errno =
    EPERM | ENOENT | ESRCH | EINTR | EIO | E2BIG | EBADF | EAGAIN | ENOMEM | EACCES | EFAULT
  | EBUSY | EEXIST | EINVAL | ENOSPC | ERANGE | ENOTSUP | EMSGSIZE | EUCLEAN | ENOTSUPP
  | EOVERFLOW | ENODATA | ENAMETOOLONG | EOTHER nat

fun errno_code :: "errno \<Rightarrow> nat" where
  "errno_code EPERM = 1"
| "errno_code ENOENT = 2"
| "errno_code ESRCH = 3"
| "errno_code EINTR = 4"
| "errno_code EIO = 5"
| "errno_code E2BIG = 7"
| "errno_code EBADF = 9"
| "errno_code EAGAIN = 11"
| "errno_code ENOMEM = 12"
| "errno_code EACCES = 13"
| "errno_code EFAULT = 14"
| "errno_code EBUSY = 16"
| "errno_code EEXIST = 17"
| "errno_code EINVAL = 22"
| "errno_code ENOSPC = 28"
| "errno_code ERANGE = 34"
| "errno_code ENAMETOOLONG = 36"
| "errno_code ENODATA = 61"
| "errno_code EOVERFLOW = 75"
| "errno_code EMSGSIZE = 90"
| "errno_code ENOTSUP = 95"
| "errno_code EUCLEAN = 117"
| "errno_code ENOTSUPP = 524"
| "errno_code (EOTHER n) = n"

type_synonym 'a result = "errno + 'a"

definition res_bind :: "'a result \<Rightarrow> ('a \<Rightarrow> 'b result) \<Rightarrow> 'b result" where
  [result_simps]: "res_bind r f = (case r of Inl e \<Rightarrow> Inl e | Inr x \<Rightarrow> f x)"

lemma res_bind_Inr [simp]: "res_bind (Inr x) f = f x"
  and res_bind_Inl [simp]: "res_bind (Inl e) f = Inl e"
  by (simp_all add: res_bind_def)

lemma res_bind_eq_Inr: "res_bind r f = Inr y \<longleftrightarrow> (\<exists>x. r = Inr x \<and> f x = Inr y)"
  by (cases r) auto

lemma res_bind_eq_Inl: "res_bind r f = Inl e \<longleftrightarrow> r = Inl e \<or> (\<exists>x. r = Inr x \<and> f x = Inl e)"
  by (cases r) auto

lemmas res_bind_cases = res_bind_eq_Inr res_bind_eq_Inl

text \<open>
  Functions that return 0 or an error only: \<open>None\<close> is 0. \<open>first_err\<close> is a loop
  that returns at the first error, \<open>err_or\<close> the operator \<^verbatim>\<open>?:\<close> on errors, and
  \<open>err_of_int\<close> the error a negative return value denotes.
\<close>

fun first_err :: "('a \<Rightarrow> errno option) \<Rightarrow> 'a list \<Rightarrow> errno option" where
  "first_err f [] = None"
| "first_err f (x # xs) = (case f x of Some e \<Rightarrow> Some e | None \<Rightarrow> first_err f xs)"

definition err_or :: "errno option \<Rightarrow> errno option \<Rightarrow> errno option" where
  "err_or a b = (case a of Some e \<Rightarrow> Some e | None \<Rightarrow> b)"

definition err_of_int :: "int \<Rightarrow> errno" where
  "err_of_int i =
     (case find (\<lambda>e. int (errno_code e) = - i)
             [EPERM, ENOENT, ESRCH, EINTR, EIO, E2BIG, EBADF, EAGAIN, ENOMEM, EACCES, EFAULT, EBUSY, EEXIST, EINVAL,
              ENOSPC, ERANGE, ENOTSUP, EMSGSIZE, EUCLEAN, ENOTSUPP, EOVERFLOW, ENODATA, ENAMETOOLONG] of
        Some e \<Rightarrow> e
      | None \<Rightarrow> EOTHER (nat (- i)))"

lemma first_err_None [simp]: "first_err f xs = None \<longleftrightarrow> (\<forall>x \<in> set xs. f x = None)"
  by (induction xs) (auto split: option.splits)

lemma err_or_None [simp]: "err_or a b = None \<longleftrightarrow> a = None \<and> b = None"
  by (cases a) (simp_all add: err_or_def)

section \<open>The allocator\<close>

text \<open>
  Whether an allocation succeeds is up to the environment: each call site of the
  model takes a flag that says so. \<open>calloc\<close> and \<open>libbpf_reallocarray\<close>
  moreover fail when the product of their arguments does not fit \<open>size_t\<close>.
\<close>

definition array_alloc_ok :: "bool \<Rightarrow> nat \<Rightarrow> nat \<Rightarrow> bool" where
  "array_alloc_ok ok n sz \<longleftrightarrow> ok \<and> n * sz < 2 ^ 64"

lemma array_alloc_okD: "array_alloc_ok ok n sz \<Longrightarrow> n * sz < 2 ^ 64"
  by (simp add: array_alloc_ok_def)

end
