(* ===== verification/Hashmap.thy ===== *)
theory Hashmap
  imports Prelude
begin

text \<open>
  The chained hash table of \<^verbatim>\<open>src/src/hashmap.c\<close> and \<^verbatim>\<open>src/src/hashmap.h\<close>.
  The model keeps the struct's fields at their width; a bucket chain is the list
  of its entries from the head on, and a pointer to a link of a chain is the pair
  of the bucket and the position. The hash and equality functions are fields of
  the map as in the code; they read client memory through \<open>ctx\<close>, whose
  current content is an explicit argument of every operation.
  The locale \<open>hash_contract\<close> states what the map relies on from its client;
  inside it the map is shown to keep its invariant and to behave as a finite map
  (strategies ADD, SET and UPDATE) or as a multimap (APPEND).
\<close>

section \<open>The data and the operations\<close>

record hashmap_entry =
  ent_key :: u64
  ent_value :: u64

datatype hashmap_insert_strategy =
  HASHMAP_ADD | HASHMAP_SET | HASHMAP_UPDATE | HASHMAP_APPEND

record 'c hashmap =
  hash_fn :: "u64 \<Rightarrow> 'c \<Rightarrow> u64"
  equal_fn :: "u64 \<Rightarrow> u64 \<Rightarrow> 'c \<Rightarrow> bool"
  buckets :: "hashmap_entry list list option"
  cap :: u64
  cap_bits :: u64
  sz :: u64

definition HASHMAP_MIN_CAP_BITS :: u64 where
  "HASHMAP_MIN_CAP_BITS = 2"

definition hash_bits :: "u64 \<Rightarrow> u64 \<Rightarrow> u64" where
  "hash_bits h bits =
     (if bits = 0 then 0 else drop_bit (64 - unat bits) (h * 11400714819323198485))"

text \<open>The plain char of the target is signed: the character is sign-extended.\<close>

fun str_hash_from :: "u64 \<Rightarrow> bytes \<Rightarrow> u64" where
  "str_hash_from h [] = h"
| "str_hash_from h (c # s) = (if c = 0 then h else str_hash_from (h * 31 + scast c) s)"

definition str_hash :: "bytes \<Rightarrow> u64" where
  "str_hash s = str_hash_from 0 s"

definition hashmap_add_entry ::
  "nat \<Rightarrow> hashmap_entry \<Rightarrow> hashmap_entry list list \<Rightarrow> hashmap_entry list list" where
  "hashmap_add_entry h e bs = bs[h := e # bs ! h]"

definition hashmap_del_entry ::
  "nat \<times> nat \<Rightarrow> hashmap_entry list list \<Rightarrow> hashmap_entry list list" where
  "hashmap_del_entry pprev bs =
     (let (h, i) = pprev in bs[h := take i (bs ! h) @ drop (Suc i) (bs ! h)])"

definition hashmap__init ::
  "(u64 \<Rightarrow> 'c \<Rightarrow> u64) \<Rightarrow> (u64 \<Rightarrow> u64 \<Rightarrow> 'c \<Rightarrow> bool) \<Rightarrow> 'c hashmap" where
  "hashmap__init hf ef =
     \<lparr>hash_fn = hf, equal_fn = ef, buckets = None, cap = 0, cap_bits = 0, sz = 0\<rparr>"

definition hashmap__new ::
  "bool \<Rightarrow> (u64 \<Rightarrow> 'c \<Rightarrow> u64) \<Rightarrow> (u64 \<Rightarrow> u64 \<Rightarrow> 'c \<Rightarrow> bool) \<Rightarrow> 'c hashmap result" where
  "hashmap__new malloc_ok hf ef = (if \<not> malloc_ok then Inl ENOMEM else Inr (hashmap__init hf ef))"

definition hashmap__clear :: "'c hashmap \<Rightarrow> 'c hashmap" where
  "hashmap__clear m = m\<lparr>buckets := None, cap := 0, cap_bits := 0, sz := 0\<rparr>"

definition hashmap__size :: "'c hashmap \<Rightarrow> u64" where
  "hashmap__size m = sz m"

definition hashmap__capacity :: "'c hashmap \<Rightarrow> u64" where
  "hashmap__capacity m = cap m"

text \<open>The entries in the order of the iteration macro \<^verbatim>\<open>hashmap__for_each_entry\<close>.\<close>

definition hashmap__for_each_entry :: "'c hashmap \<Rightarrow> hashmap_entry list" where
  "hashmap__for_each_entry m =
     (case buckets m of None \<Rightarrow> [] | Some bs \<Rightarrow> concat (take (unat (cap m)) bs))"

text \<open>The entries of one key, in the order of \<^verbatim>\<open>hashmap__for_each_key_entry\<close>.\<close>

definition hashmap__for_each_key_entry :: "'c hashmap \<Rightarrow> 'c \<Rightarrow> u64 \<Rightarrow> hashmap_entry list" where
  "hashmap__for_each_key_entry m ctx k =
     (case buckets m of None \<Rightarrow> []
      | Some bs \<Rightarrow> filter (\<lambda>e. equal_fn m (ent_key e) k ctx)
                    (bs ! unat (hash_bits (hash_fn m k ctx) (cap_bits m))))"

definition hashmap_needs_to_grow :: "'c hashmap \<Rightarrow> bool" where
  "hashmap_needs_to_grow m \<longleftrightarrow> cap m = 0 \<or> (sz m + 1) * 4 div 3 > cap m"

definition hashmap_grow :: "bool \<Rightarrow> 'c hashmap \<Rightarrow> 'c \<Rightarrow> 'c hashmap result" where
  "hashmap_grow calloc_ok m ctx =
     (let new_cap_bits = cap_bits m + 1;
          new_cap_bits = (if new_cap_bits < HASHMAP_MIN_CAP_BITS then HASHMAP_MIN_CAP_BITS
                          else new_cap_bits);
          new_cap = push_bit (unat new_cap_bits) (1 :: u64)
      in if \<not> array_alloc_ok calloc_ok (unat new_cap) 8 then Inl ENOMEM
         else let new_buckets =
                foldl (\<lambda>bs e. hashmap_add_entry
                          (unat (hash_bits (hash_fn m (ent_key e) ctx) new_cap_bits)) e bs)
                  (replicate (unat new_cap) []) (hashmap__for_each_entry m)
              in Inr (m\<lparr>cap := new_cap, cap_bits := new_cap_bits, buckets := Some new_buckets\<rparr>))"

fun find_in_chain :: "(hashmap_entry \<Rightarrow> bool) \<Rightarrow> nat \<Rightarrow> hashmap_entry list \<Rightarrow> (nat \<times> hashmap_entry) option" where
  "find_in_chain p i [] = None"
| "find_in_chain p i (e # es) = (if p e then Some (i, e) else find_in_chain p (Suc i) es)"

text \<open>The link that points to the entry and the entry itself, if there is one.\<close>

definition hashmap_find_entry ::
  "'c hashmap \<Rightarrow> 'c \<Rightarrow> u64 \<Rightarrow> u64 \<Rightarrow> ((nat \<times> nat) \<times> hashmap_entry) option" where
  "hashmap_find_entry m ctx k h =
     (case buckets m of None \<Rightarrow> None
      | Some bs \<Rightarrow> map_option (\<lambda>(i, e). ((unat h, i), e))
                    (find_in_chain (\<lambda>e. equal_fn m (ent_key e) k ctx) 0 (bs ! unat h)))"

definition hashmap_set_entry ::
  "nat \<times> nat \<Rightarrow> u64 \<Rightarrow> u64 \<Rightarrow> hashmap_entry list list \<Rightarrow> hashmap_entry list list" where
  "hashmap_set_entry pprev k v bs =
     (let (h, i) = pprev in bs[h := (bs ! h)[i := \<lparr>ent_key = k, ent_value = v\<rparr>]])"

text \<open>
  \<open>hashmap_insert\<close> returns the error (None for 0), the map and the words stored
  through \<open>old_key\<close> and \<open>old_value\<close>. The map is returned on errors too:
  when the entry cannot be allocated after the table grew, the caller sees the
  grown table.
\<close>

definition hashmap_insert ::
  "bool \<Rightarrow> bool \<Rightarrow> 'c hashmap \<Rightarrow> 'c \<Rightarrow> u64 \<Rightarrow> u64 \<Rightarrow> hashmap_insert_strategy
    \<Rightarrow> errno option \<times> 'c hashmap \<times> u64 \<times> u64" where
  "hashmap_insert calloc_ok malloc_ok m ctx k v strategy =
     (let h = hash_bits (hash_fn m k ctx) (cap_bits m);
          found = (if strategy \<noteq> HASHMAP_APPEND then hashmap_find_entry m ctx k h else None)
      in case found of
           Some (pprev, e) \<Rightarrow>
             if strategy = HASHMAP_SET \<or> strategy = HASHMAP_UPDATE
             then (None, m\<lparr>buckets := map_option (hashmap_set_entry pprev k v) (buckets m)\<rparr>,
                   ent_key e, ent_value e)
             else (Some EEXIST, m, ent_key e, ent_value e)
         | None \<Rightarrow>
             if strategy = HASHMAP_UPDATE then (Some ENOENT, m, 0, 0)
             else case (if hashmap_needs_to_grow m then hashmap_grow calloc_ok m ctx else Inr m) of
                    Inl e \<Rightarrow> (Some e, m, 0, 0)
                  | Inr m' \<Rightarrow>
                      let h' = (if hashmap_needs_to_grow m
                                then hash_bits (hash_fn m' k ctx) (cap_bits m') else h)
                      in if \<not> malloc_ok then (Some ENOMEM, m', 0, 0)
                         else (None,
                               m'\<lparr>buckets := map_option (hashmap_add_entry (unat h')
                                    \<lparr>ent_key = k, ent_value = v\<rparr>) (buckets m'),
                                  sz := sz m' + 1\<rparr>, 0, 0))"

definition hashmap_find :: "'c hashmap \<Rightarrow> 'c \<Rightarrow> u64 \<Rightarrow> u64 option" where
  "hashmap_find m ctx k =
     (let h = hash_bits (hash_fn m k ctx) (cap_bits m)
      in map_option (\<lambda>(pprev, e). ent_value e) (hashmap_find_entry m ctx k h))"

text \<open>\<open>hashmap_delete\<close> returns the deleted key and value, or None for false.\<close>

definition hashmap_delete :: "'c hashmap \<Rightarrow> 'c \<Rightarrow> u64 \<Rightarrow> 'c hashmap \<times> (u64 \<times> u64) option" where
  "hashmap_delete m ctx k =
     (let h = hash_bits (hash_fn m k ctx) (cap_bits m)
      in case hashmap_find_entry m ctx k h of
           None \<Rightarrow> (m, None)
         | Some (pprev, e) \<Rightarrow>
             (m\<lparr>buckets := map_option (hashmap_del_entry pprev) (buckets m), sz := sz m - 1\<rparr>,
              Some (ent_key e, ent_value e)))"

section \<open>Invariant and abstract view\<close>

text \<open>
  The representation invariant: no buckets and all counters zero, or a power of
  two of buckets (at most \<open>2 ^ 60\<close>, since a larger array of pointers cannot be
  allocated), each entry in the bucket its key hashes to, the entry count in
  \<open>sz\<close>, and a table that is at most three quarters full.
\<close>

definition bucket_index :: "'c hashmap \<Rightarrow> 'c \<Rightarrow> u64 \<Rightarrow> nat" where
  "bucket_index m ctx k = unat (hash_bits (hash_fn m k ctx) (cap_bits m))"

definition hashmap_inv :: "'c hashmap \<Rightarrow> 'c \<Rightarrow> bool" where
  "hashmap_inv m ctx \<longleftrightarrow>
     (case buckets m of
        None \<Rightarrow> cap m = 0 \<and> cap_bits m = 0 \<and> sz m = 0
      | Some bs \<Rightarrow>
          2 \<le> unat (cap_bits m) \<and> unat (cap_bits m) \<le> 60 \<and>
          unat (cap m) = 2 ^ unat (cap_bits m) \<and> length bs = unat (cap m) \<and>
          (\<forall>i < length bs. \<forall>e \<in> set (bs ! i). bucket_index m ctx (ent_key e) = i) \<and>
          unat (sz m) = length (concat bs) \<and>
          unat (sz m) * 4 div 3 \<le> unat (cap m))"

text \<open>
  The abstract view: the entries of a key in iteration order, by a scan of the
  whole table, and the entry a lookup of the key should deliver.
\<close>

definition hm_all :: "'c hashmap \<Rightarrow> 'c \<Rightarrow> u64 \<Rightarrow> hashmap_entry list" where
  "hm_all m ctx k = filter (\<lambda>e. equal_fn m (ent_key e) k ctx) (hashmap__for_each_entry m)"

definition hm_abs :: "'c hashmap \<Rightarrow> 'c \<Rightarrow> u64 \<Rightarrow> hashmap_entry option" where
  "hm_abs m ctx k = (case hm_all m ctx k of [] \<Rightarrow> None | e # _ \<Rightarrow> Some e)"

text \<open>No key has two entries: the map has not been used with APPEND.\<close>

definition hashmap_unique :: "'c hashmap \<Rightarrow> 'c \<Rightarrow> bool" where
  "hashmap_unique m ctx \<longleftrightarrow> (\<forall>k. length (hm_all m ctx k) \<le> 1)"

section \<open>Lemmas on chains and buckets\<close>

lemma unat_hash_bits_less:
  assumes "0 < unat b" "unat b \<le> 64"
  shows "unat (hash_bits h b) < 2 ^ unat b"
proof -
  let ?x = "h * 11400714819323198485"
  have "unat ?x < 2 ^ 64" by (rule unat_less_u64)
  also have "(2 :: nat) ^ 64 = 2 ^ unat b * 2 ^ (64 - unat b)"
    using assms(2) by (simp flip: power_add)
  finally have "unat ?x div 2 ^ (64 - unat b) < 2 ^ unat b"
    by (rule less_mult_imp_div_less)
  moreover have "b \<noteq> 0" using assms(1) by auto
  ultimately show ?thesis
    by (simp add: hash_bits_def unat_drop_bit_eq flip: drop_bit_eq_div)
qed

lemma foldl_add_entry:
  assumes "\<forall>e \<in> set es. f e < n"
  shows "foldl (\<lambda>bs e. hashmap_add_entry (f e) e bs) (replicate n []) es
       = map (\<lambda>i. rev (filter (\<lambda>e. f e = i) es)) [0..<n]"
  using assms
proof (induction es rule: rev_induct)
  case Nil
  then show ?case by (simp add: map_replicate_const)
next
  case (snoc e es)
  then show ?case
    by (auto simp: hashmap_add_entry_def intro!: nth_equalityI simp: nth_list_update)
qed

lemma bucket_split: "h < length bs \<Longrightarrow> concat bs = concat (take h bs) @ bs ! h @ concat (drop (Suc h) bs)"
  by (metis concat.simps(2) concat_append id_take_nth_drop)

lemma bucket_update_split:
  "h < length bs \<Longrightarrow> concat (bs[h := c]) = concat (take h bs) @ c @ concat (drop (Suc h) bs)"
  by (simp add: upd_conv_take_nth_drop)

lemma filter_outside_bucket:
  assumes "\<forall>i < length bs. \<forall>e \<in> set (bs ! i). P e \<longrightarrow> i = h"
  shows "filter P (concat (take h bs)) = []" and "filter P (concat (drop (Suc h) bs)) = []"
proof -
  have "\<not> P e" if "c \<in> set (take h bs)" "e \<in> set c" for c e
    using that assms by (force simp: in_set_conv_nth)
  then show "filter P (concat (take h bs)) = []" by (auto simp: filter_empty_conv)
  have "\<not> P e" if "c \<in> set (drop (Suc h) bs)" "e \<in> set c" for c e
  proof -
    from that(1) obtain j where "j < length bs - Suc h" "c = bs ! (Suc h + j)"
      by (auto simp: in_set_conv_nth)
    then have "Suc h + j < length bs" by simp
    with assms that(2) \<open>c = bs ! (Suc h + j)\<close> have "P e \<longrightarrow> Suc h + j = h" by blast
    then show ?thesis by simp
  qed
  then show "filter P (concat (drop (Suc h) bs)) = []" by (auto simp: filter_empty_conv)
qed

lemma filter_concat_bucket:
  assumes "h < length bs" "\<forall>i < length bs. \<forall>e \<in> set (bs ! i). P e \<longrightarrow> i = h"
  shows "filter P (concat bs) = filter P (bs ! h)"
  using bucket_split [OF assms(1)] filter_outside_bucket [OF assms(2)] by simp

lemma filter_concat_bucket_update:
  assumes "h < length bs" "\<forall>i < length bs. \<forall>e \<in> set (bs ! i). P e \<longrightarrow> i = h"
  shows "filter P (concat (bs[h := c])) = filter P c"
  using bucket_update_split [OF assms(1)] filter_outside_bucket [OF assms(2)] by simp

lemma find_in_chain_None: "find_in_chain p i es = None \<longleftrightarrow> filter p es = []"
  by (induction es arbitrary: i) auto

lemma find_in_chain_Some:
  assumes "find_in_chain p i es = Some (j, e)"
  obtains ys zs where "es = ys @ e # zs" "j = i + length ys" "\<forall>y \<in> set ys. \<not> p y" "p e"
  using assms
proof (induction es arbitrary: i thesis)
  case Nil
  then show ?case by simp
next
  case (Cons x es)
  show ?case
  proof (cases "p x")
    case True
    with Cons.prems show ?thesis by (auto intro: Cons.prems(1) [of "[]"])
  next
    case False
    with Cons.prems(2) have "find_in_chain p (Suc i) es = Some (j, e)" by simp
    then obtain ys zs where "es = ys @ e # zs" "j = Suc i + length ys" "\<forall>y \<in> set ys. \<not> p y" "p e"
      by (rule Cons.IH [rotated])
    with False show ?thesis by (intro Cons.prems(1) [of "x # ys" zs]) auto
  qed
qed

lemma find_in_chain_filter:
  "map_option snd (find_in_chain p i es) = (case filter p es of [] \<Rightarrow> None | e # _ \<Rightarrow> Some e)"
  by (induction es arbitrary: i) auto

lemma length_concat_buckets:
  assumes "\<forall>e \<in> set es. f e < n"
  shows "length (concat (map (\<lambda>i. rev (filter (\<lambda>e. f e = i) es)) [0..<n])) = length es"
  using assms
proof (induction es)
  case Nil
  then show ?case by (simp add: map_replicate_const)
next
  case (Cons e es)
  have eq: "length (filter (\<lambda>x. f x = i) (e # es)) = length (filter (\<lambda>x. f x = i) es) + (if i = f e then 1 else 0)" for i
    by simp
  have "(\<Sum>i\<leftarrow>[0..<n]. (if i = f e then 1 else 0)) = (1 :: nat)"
    using Cons.prems by (simp add: sum_list_distinct_conv_sum_set sum.delta)
  then show ?case
    using Cons by (simp add: length_concat comp_def sum_list_addf eq del: filter.simps)
qed

lemma load_step: "s * 4 div 3 \<le> c \<Longrightarrow> 4 \<le> c \<Longrightarrow> (s + 1) * 4 div 3 \<le> 2 * c" for s c :: nat
  by simp

section \<open>The contract with the client, and the map operations under it\<close>

text \<open>
  What \<^verbatim>\<open>hashmap.c\<close> requires of the functions it is initialised with:
  equality is an equivalence on the keys and equal keys have equal hashes.
\<close>

locale hash_contract =
  fixes hf :: "u64 \<Rightarrow> 'c \<Rightarrow> u64"
    and ef :: "u64 \<Rightarrow> u64 \<Rightarrow> 'c \<Rightarrow> bool"
    and ctx :: 'c
  assumes ef_refl: "ef k k ctx"
    and ef_sym: "ef a b ctx \<Longrightarrow> ef b a ctx"
    and ef_trans: "ef a b ctx \<Longrightarrow> ef b c ctx \<Longrightarrow> ef a c ctx"
    and ef_hash: "ef a b ctx \<Longrightarrow> hf a ctx = hf b ctx"
begin

lemma ef_left: "ef a b ctx \<Longrightarrow> ef a c ctx \<longleftrightarrow> ef b c ctx"
  using ef_sym ef_trans by blast

lemma bucket_index_cong:
  "hash_fn m = hf \<Longrightarrow> ef a b ctx \<Longrightarrow> bucket_index m ctx a = bucket_index m ctx b"
  by (simp add: bucket_index_def ef_hash)

lemma inv_Some:
  assumes "hashmap_inv m ctx" "buckets m = Some bs"
  shows "bucket_index m ctx k < length bs"
    and "hashmap__for_each_entry m = concat bs"
    and "i < length bs \<Longrightarrow> e \<in> set (bs ! i) \<Longrightarrow> bucket_index m ctx (ent_key e) = i"
    and "cap m \<noteq> 0"
proof -
  have c: "2 \<le> unat (cap_bits m)" "unat (cap_bits m) \<le> 60"
    "unat (cap m) = 2 ^ unat (cap_bits m)" "length bs = unat (cap m)"
    using assms by (auto simp: hashmap_inv_def)
  then show "bucket_index m ctx k < length bs"
    by (simp add: bucket_index_def unat_hash_bits_less)
  show "hashmap__for_each_entry m = concat bs"
    using c assms(2) by (simp add: hashmap__for_each_entry_def)
  show "i < length bs \<Longrightarrow> e \<in> set (bs ! i) \<Longrightarrow> bucket_index m ctx (ent_key e) = i"
    using assms by (auto simp: hashmap_inv_def)
  show "cap m \<noteq> 0" using c(3) by auto
qed

lemma equal_only_in_bucket:
  assumes "hashmap_inv m ctx" "buckets m = Some bs" "hash_fn m = hf"
  shows "\<forall>i < length bs. \<forall>e \<in> set (bs ! i). ef (ent_key e) k ctx \<longrightarrow> i = bucket_index m ctx k"
  using inv_Some(3) [OF assms(1,2)] bucket_index_cong [OF assms(3)] by metis

lemma hm_all_bucket:
  assumes "hashmap_inv m ctx" "buckets m = Some bs" "hash_fn m = hf" "equal_fn m = ef"
  shows "hm_all m ctx k = filter (\<lambda>e. ef (ent_key e) k ctx) (bs ! bucket_index m ctx k)"
  using filter_concat_bucket [OF inv_Some(1) [OF assms(1,2)] equal_only_in_bucket [OF assms(1-3)]]
  by (simp add: hm_all_def inv_Some(2) [OF assms(1,2)] assms(4))

lemma for_each_key_entry:
  assumes "hashmap_inv m ctx" "hash_fn m = hf" "equal_fn m = ef"
  shows "hashmap__for_each_key_entry m ctx k = hm_all m ctx k"
proof (cases "buckets m")
  case None
  then show ?thesis
    by (simp add: hashmap__for_each_key_entry_def hm_all_def hashmap__for_each_entry_def)
next
  case (Some bs)
  then show ?thesis
    using hm_all_bucket [OF assms(1) Some assms(2,3)] assms
    by (simp add: hashmap__for_each_key_entry_def bucket_index_def)
qed

lemma find_entry_None:
  assumes "hashmap_inv m ctx" "hash_fn m = hf" "equal_fn m = ef"
  shows "hashmap_find_entry m ctx k (hash_bits (hash_fn m k ctx) (cap_bits m)) = None
     \<longleftrightarrow> hm_all m ctx k = []"
proof (cases "buckets m")
  case None
  then show ?thesis
    by (simp add: hashmap_find_entry_def hm_all_def hashmap__for_each_entry_def)
next
  case (Some bs)
  then show ?thesis
    using hm_all_bucket [OF assms(1) Some assms(2,3), of k] assms
    by (simp add: hashmap_find_entry_def bucket_index_def find_in_chain_None)
qed

lemma find_entry_Some:
  assumes "hashmap_find_entry m ctx k (hash_bits (hash_fn m k ctx) (cap_bits m)) = Some (pprev, e)"
    and "hashmap_inv m ctx" "hash_fn m = hf" "equal_fn m = ef"
  obtains bs ys zs where "buckets m = Some bs" "pprev = (bucket_index m ctx k, length ys)"
    and "bs ! bucket_index m ctx k = ys @ e # zs"
    and "\<forall>y \<in> set ys. \<not> ef (ent_key y) k ctx" "ef (ent_key e) k ctx"
proof -
  obtain bs i where bs: "buckets m = Some bs" and pp: "pprev = (bucket_index m ctx k, i)"
    and f: "find_in_chain (\<lambda>e. ef (ent_key e) k ctx) 0 (bs ! bucket_index m ctx k) = Some (i, e)"
    using assms(1,3,4)
    by (auto simp: hashmap_find_entry_def bucket_index_def split: option.splits)
  from find_in_chain_Some [OF f] obtain ys zs
    where "bs ! bucket_index m ctx k = ys @ e # zs" "i = 0 + length ys"
      "\<forall>y \<in> set ys. \<not> ef (ent_key y) k ctx" "ef (ent_key e) k ctx"
    by metis
  with bs pp show ?thesis using that by simp
qed

theorem find_abs:
  assumes "hashmap_inv m ctx" "hash_fn m = hf" "equal_fn m = ef"
  shows "hashmap_find m ctx k = map_option ent_value (hm_abs m ctx k)"
proof (cases "buckets m")
  case None
  then show ?thesis
    by (simp add: hashmap_find_def hashmap_find_entry_def hm_abs_def hm_all_def
        hashmap__for_each_entry_def)
next
  case (Some bs)
  let ?p = "\<lambda>e. ef (ent_key e) k ctx"
  have "hashmap_find m ctx k
      = map_option (ent_value \<circ> snd) (find_in_chain ?p 0 (bs ! bucket_index m ctx k))"
    using Some assms(2,3)
    by (simp add: hashmap_find_def hashmap_find_entry_def bucket_index_def option.map_comp
        comp_def case_prod_unfold)
  also have "\<dots> = map_option ent_value
      (map_option snd (find_in_chain ?p 0 (bs ! bucket_index m ctx k)))"
    by (simp add: option.map_comp)
  finally show ?thesis
    by (simp add: find_in_chain_filter hm_abs_def hm_all_bucket [OF assms(1) Some assms(2,3)])
qed

text \<open>Every operation but growing replaces one chain and adjusts the count.\<close>

lemma inv_update:
  assumes inv: "hashmap_inv m ctx" and bs: "buckets m = Some bs" and h: "h < length bs"
    and c: "\<forall>e \<in> set c. bucket_index m ctx (ent_key e) = h"
    and s: "unat s + length (bs ! h) = unat (sz m) + length c"
    and ld: "unat s * 4 div 3 \<le> unat (cap m)"
  shows "hashmap_inv (m\<lparr>buckets := Some (bs[h := c]), sz := s\<rparr>) ctx"
proof -
  have bi: "bucket_index (m\<lparr>buckets := b, sz := s\<rparr>) ctx k = bucket_index m ctx k" for b k
    by (simp add: bucket_index_def)
  have "length (concat (bs[h := c])) + length (bs ! h) = length (concat bs) + length c"
    using bucket_split [OF h] bucket_update_split [OF h, of c] by simp
  moreover have "\<forall>e \<in> set (bs[h := c] ! i). bucket_index m ctx (ent_key e) = i" if "i < length bs" for i
    using that c inv_Some(3) [OF inv bs] by (cases "i = h") auto
  ultimately show ?thesis
    using inv bs s ld by (auto simp: hashmap_inv_def bi)
qed

lemma hm_all_update:
  assumes "hashmap_inv m ctx" "buckets m = Some bs" "hash_fn m = hf" "equal_fn m = ef"
    and "h < length bs" "hashmap_inv (m\<lparr>buckets := Some (bs[h := c]), sz := s\<rparr>) ctx"
  shows "hm_all (m\<lparr>buckets := Some (bs[h := c]), sz := s\<rparr>) ctx k =
     (if bucket_index m ctx k = h then filter (\<lambda>e. ef (ent_key e) k ctx) c else hm_all m ctx k)"
  using hm_all_bucket [OF assms(1-4)] hm_all_bucket [OF assms(6)] assms(3-5)
  by (simp add: bucket_index_def)

lemma inv_load:
  assumes "hashmap_inv m ctx"
  shows "unat (sz m) < 2 ^ 61" and "unat (cap m) \<le> 2 ^ 60" and "unat (sz m) * 4 div 3 \<le> unat (cap m)"
proof -
  have "unat (cap m) \<le> 2 ^ 60 \<and> unat (sz m) * 4 div 3 \<le> unat (cap m)"
    using assms power_increasing [of "unat (cap_bits m)" 60 "2 :: nat"]
    by (auto simp: hashmap_inv_def split: option.splits)
  then show "unat (cap m) \<le> 2 ^ 60" and "unat (sz m) * 4 div 3 \<le> unat (cap m)" by auto
  then have "unat (sz m) * 4 div 3 \<le> 2 ^ 60" by linarith
  then show "unat (sz m) < 2 ^ 61" by simp
qed

lemma needs_to_grow:
  assumes "hashmap_inv m ctx"
  shows "hashmap_needs_to_grow m \<longleftrightarrow> cap m = 0 \<or> (unat (sz m) + 1) * 4 div 3 > unat (cap m)"
proof -
  have s: "unat (sz m) < 2 ^ 61" by (rule inv_load [OF assms])
  then have "unat (sz m + 1) = unat (sz m) + 1" using unat_add_u64 [of "sz m" 1] by simp
  moreover from this s have "unat ((sz m + 1) * 4) = (unat (sz m) + 1) * 4"
    using unat_mult_u64 [of "sz m + 1" 4] by simp
  ultimately show ?thesis
    by (simp add: hashmap_needs_to_grow_def word_less_nat_alt unat_div)
qed

lemma inv_sz:
  assumes "hashmap_inv m ctx" "buckets m = Some bs"
  shows "unat (sz m) = length (concat bs)"
  using assms by (simp add: hashmap_inv_def)

lemma add_entry_ok:
  assumes inv: "hashmap_inv m ctx" and fns: "hash_fn m = hf" "equal_fn m = ef"
    and bs: "buckets m = Some bs" and ng: "\<not> hashmap_needs_to_grow m" and k: "ent_key e = k"
    and m': "m' = m\<lparr>buckets := Some (hashmap_add_entry (bucket_index m ctx k) e bs), sz := sz m + 1\<rparr>"
  shows "hashmap_inv m' ctx"
    and "hm_all m' ctx k' = (if ef k k' ctx then [e] else []) @ hm_all m ctx k'"
proof -
  let ?h = "bucket_index m ctx k"
  have h: "?h < length bs" by (rule inv_Some(1) [OF inv bs])
  have s: "unat (sz m + 1) = unat (sz m) + 1"
    using inv_load(1) [OF inv] unat_add_u64 [of "sz m" 1] by simp
  have ld: "unat (sz m + 1) * 4 div 3 \<le> unat (cap m)"
    using ng needs_to_grow [OF inv] s by simp
  have c: "\<forall>x \<in> set (e # bs ! ?h). bucket_index m ctx (ent_key x) = ?h"
    using inv_Some(3) [OF inv bs h] k by auto
  have m'_eq: "m' = m\<lparr>buckets := Some (bs[?h := e # bs ! ?h]), sz := sz m + 1\<rparr>"
    using m' by (simp add: hashmap_add_entry_def)
  show inv': "hashmap_inv m' ctx"
    unfolding m'_eq by (rule inv_update [OF inv bs h c _ ld]) (simp add: s)
  show "hm_all m' ctx k' = (if ef k k' ctx then [e] else []) @ hm_all m ctx k'"
    using hm_all_update [OF inv bs fns h, where c = "e # bs ! ?h" and s = "sz m + 1"] inv' m'_eq k
      hm_all_bucket [OF inv bs fns, of k'] bucket_index_cong [OF fns(1), of k k']
    by auto
qed

lemma grow_cases:
  assumes inv: "hashmap_inv m ctx"
  defines "nb \<equiv> (if cap_bits m = 0 then 2 else unat (cap_bits m) + 1)"
  shows "hashmap_grow ok m ctx =
    (if \<not> ok \<or> nb > 60 then Inl ENOMEM
     else Inr (m\<lparr>cap := 2 ^ nb, cap_bits := of_nat nb,
        buckets := Some (map (\<lambda>i. rev (filter (\<lambda>e. unat (hash_bits (hash_fn m (ent_key e) ctx) (of_nat nb)) = i)
            (hashmap__for_each_entry m))) [0..<2 ^ nb])\<rparr>))"
proof -
  have cb: "unat (cap_bits m) \<le> 60" "cap_bits m \<noteq> 0 \<Longrightarrow> 2 \<le> unat (cap_bits m)"
    using inv by (auto simp: hashmap_inv_def split: option.splits)
  then have nb: "2 \<le> nb" "nb \<le> 61" by (auto simp: nb_def)
  have un: "unat (of_nat nb :: u64) = nb" using nb by (simp add: unat_of_nat)
  have new_bits: "(let b = cap_bits m + 1 in if b < HASHMAP_MIN_CAP_BITS then HASHMAP_MIN_CAP_BITS else b)
      = of_nat nb"
  proof (cases "cap_bits m = 0")
    case True
    then show ?thesis by (simp add: nb_def HASHMAP_MIN_CAP_BITS_def)
  next
    case False
    have "unat (cap_bits m + 1) = unat (cap_bits m) + 1"
      using cb(1) unat_add_u64 [of "cap_bits m" 1] by simp
    with False cb show ?thesis
      by (simp add: nb_def HASHMAP_MIN_CAP_BITS_def word_less_nat_alt Let_def add.commute)
  qed
  have cap: "unat ((2 :: u64) ^ nb) = 2 ^ nb" using nb by (intro unat_pow_u64) simp
  have alloc: "array_alloc_ok ok (2 ^ nb) 8 \<longleftrightarrow> ok \<and> nb \<le> 60"
  proof -
    have "(2 :: nat) ^ nb * 8 = 2 ^ (nb + 3)" by (simp add: power_add)
    then have "(2 :: nat) ^ nb * 8 < 2 ^ 64 \<longleftrightarrow> nb + 3 < 64"
      by (metis one_less_numeral_iff power_strict_increasing_iff semiring_norm(76))
    then show ?thesis by (auto simp: array_alloc_ok_def)
  qed
  have hb: "\<forall>e \<in> set (hashmap__for_each_entry m).
      unat (hash_bits (hash_fn m (ent_key e) ctx) (of_nat nb)) < 2 ^ nb"
    using unat_hash_bits_less [of "of_nat nb"] nb un by auto
  show ?thesis
    unfolding hashmap_grow_def using new_bits
    by (auto simp: Let_def un cap alloc foldl_add_entry [OF hb])
qed

lemma inv_for_each_length:
  assumes "hashmap_inv m ctx"
  shows "length (hashmap__for_each_entry m) = unat (sz m)"
  using assms by (auto simp: hashmap_inv_def hashmap__for_each_entry_def split: option.splits)

lemma grow_ok:
  assumes inv: "hashmap_inv m ctx" and fns: "hash_fn m = hf" "equal_fn m = ef"
    and g: "hashmap_grow ok m ctx = Inr m'"
  shows "hashmap_inv m' ctx" and "hash_fn m' = hf" and "equal_fn m' = ef"
    and "hm_all m' ctx k = rev (hm_all m ctx k)"
    and "\<not> hashmap_needs_to_grow m'" and "buckets m' \<noteq> None"
proof -
  define nb where "nb = (if cap_bits m = 0 then 2 else unat (cap_bits m) + 1)"
  define es where "es = hashmap__for_each_entry m"
  define f where "f = (\<lambda>e :: hashmap_entry. unat (hash_bits (hash_fn m (ent_key e) ctx) (of_nat nb)))"
  define bs where "bs = map (\<lambda>i. rev (filter (\<lambda>e. f e = i) es)) [0..<2 ^ nb]"
  have nb: "nb \<le> 60" and m': "m' = m\<lparr>cap := 2 ^ nb, cap_bits := of_nat nb, buckets := Some bs\<rparr>"
    using g grow_cases [OF inv, of ok] by (auto simp: nb_def bs_def f_def es_def split: if_splits)
  have nb2: "2 \<le> nb"
    using inv by (auto simp: nb_def hashmap_inv_def split: option.splits)
  have un: "unat (of_nat nb :: u64) = nb" using nb by (simp add: unat_of_nat)
  have cap: "unat ((2 :: u64) ^ nb) = 2 ^ nb" using nb by (intro unat_pow_u64) simp
  have f: "f e < 2 ^ nb" for e
    using unat_hash_bits_less [of "of_nat nb"] nb nb2 un by (simp add: f_def)
  have len: "length (concat bs) = unat (sz m)"
    using length_concat_buckets [of es f "2 ^ nb"] f inv_for_each_length [OF inv]
    by (simp add: bs_def es_def)
  have ld: "(unat (sz m) + 1) * 4 div 3 \<le> 2 ^ nb"
  proof (cases "buckets m")
    case None
    with inv show ?thesis by (simp add: hashmap_inv_def nb_def)
  next
    case (Some b)
    then have "2 \<le> unat (cap_bits m)" "unat (cap m) = 2 ^ unat (cap_bits m)"
      "unat (sz m) * 4 div 3 \<le> unat (cap m)"
      using inv by (auto simp: hashmap_inv_def)
    moreover from this(1) have "(4 :: nat) \<le> 2 ^ unat (cap_bits m)"
      using power_increasing [of 2 "unat (cap_bits m)" "2 :: nat"] by simp
    moreover have "(2 :: nat) ^ nb = 2 * 2 ^ unat (cap_bits m)"
      using \<open>2 \<le> unat (cap_bits m)\<close> by (auto simp: nb_def)
    ultimately show ?thesis using load_step [of "unat (sz m)" "unat (cap m)"] by simp
  qed
  have bi: "bucket_index m' ctx (ent_key e) = f e" for e
    by (simp add: bucket_index_def m' f_def)
  have proj: "buckets m' = Some bs" "cap m' = 2 ^ nb" "cap_bits m' = of_nat nb" "sz m' = sz m"
    by (simp_all add: m')
  have "length bs = 2 ^ nb" "\<forall>i < 2 ^ nb. \<forall>e \<in> set (bs ! i). f e = i"
    by (simp_all add: bs_def)
  moreover have "unat (sz m) * 4 div 3 \<le> 2 ^ nb"
    using ld by (meson div_le_mono le_add1 mult_le_mono1 order_trans)
  ultimately show inv': "hashmap_inv m' ctx"
    using nb nb2 len by (simp add: hashmap_inv_def bi proj un cap)
  show fns': "hash_fn m' = hf" "equal_fn m' = ef" by (simp_all add: m' fns)
  have bs': "buckets m' = Some bs" by (simp add: m')
  then show "buckets m' \<noteq> None" by simp
  show "\<not> hashmap_needs_to_grow m'"
    using needs_to_grow [OF inv'] ld cap inv_Some(4) [OF inv' bs'] by (simp add: m')
  let ?k = "\<lparr>ent_key = k, ent_value = 0\<rparr>"
  have "bucket_index m' ctx k = f ?k" using bi [of ?k] by simp
  then have "hm_all m' ctx k = filter (\<lambda>e. ef (ent_key e) k ctx) (rev (filter (\<lambda>e. f e = f ?k) es))"
    using hm_all_bucket [OF inv' bs' fns', of k] f by (simp add: bs_def)
  also have "\<dots> = rev (filter (\<lambda>e. ef (ent_key e) k ctx) es)"
    using ef_hash by (auto simp: rev_filter f_def fns intro!: filter_cong)
  finally show "hm_all m' ctx k = rev (hm_all m ctx k)" by (simp add: hm_all_def es_def fns)
qed

lemma grow_fail:
  assumes "hashmap_inv m ctx" "hashmap_grow ok m ctx = Inl e"
  shows "e = ENOMEM \<and> (\<not> ok \<or> cap_bits m = 60)"
proof -
  have "unat (cap_bits m) \<le> 60" using assms(1) by (auto simp: hashmap_inv_def split: option.splits)
  then have "unat (cap_bits m) + 1 > 60 \<Longrightarrow> cap_bits m = 60" by (simp add: word_unat_eq_iff)
  then show ?thesis using assms(2) grow_cases [OF assms(1), of ok] by (auto split: if_splits)
qed

lemma replace_entry_ok:
  assumes inv: "hashmap_inv m ctx" and fns: "hash_fn m = hf" "equal_fn m = ef"
    and f: "hashmap_find_entry m ctx k (hash_bits (hash_fn m k ctx) (cap_bits m)) = Some (pprev, e)"
    and new: "\<forall>x \<in> set new. ent_key x = k" "length new \<le> 1"
    and m': "m' = m\<lparr>buckets := map_option (\<lambda>bs. case pprev of (h, i) \<Rightarrow>
               bs[h := take i (bs ! h) @ new @ drop (Suc i) (bs ! h)]) (buckets m),
               sz := sz m - (1 - of_nat (length new))\<rparr>"
  shows "hashmap_inv m' ctx" and "hd (hm_all m ctx k) = e" and "hm_all m ctx k \<noteq> []"
    and "hm_all m' ctx k' = (if ef k k' ctx then new @ tl (hm_all m ctx k') else hm_all m ctx k')"
proof -
  let ?h = "bucket_index m ctx k"
  from find_entry_Some [OF f inv fns] obtain bs ys zs
    where bs: "buckets m = Some bs" and pp: "pprev = (?h, length ys)"
      and ch: "bs ! ?h = ys @ e # zs" and ys: "\<forall>y \<in> set ys. \<not> ef (ent_key y) k ctx"
      and e: "ef (ent_key e) k ctx"
    by metis
  have h: "?h < length bs" by (rule inv_Some(1) [OF inv bs])
  define s where "s = sz m - (1 - of_nat (length new))"
  have m'_eq: "m' = m\<lparr>buckets := Some (bs[?h := ys @ new @ zs]), sz := s\<rparr>"
    using m' bs pp ch by (simp add: s_def)
  have "unat (sz m) \<ge> 1"
    using inv_sz [OF inv bs] bucket_split [OF h] ch by simp
  then have s: "unat s + 1 = unat (sz m) + length new"
    using new(2) by (cases new) (auto simp: s_def unat_sub word_le_nat_alt)
  have c: "\<forall>x \<in> set (ys @ new @ zs). bucket_index m ctx (ent_key x) = ?h"
    using inv_Some(3) [OF inv bs h] ch new(1) by auto
  have "unat s \<le> unat (sz m)" using s new(2) by linarith
  then have "unat s * 4 div 3 \<le> unat (sz m) * 4 div 3" by (intro div_le_mono mult_le_mono1)
  also have "\<dots> \<le> unat (cap m)" by (rule inv_load(3) [OF inv])
  finally have "unat s * 4 div 3 \<le> unat (cap m)" .
  then show inv': "hashmap_inv m' ctx"
    unfolding m'_eq using s ch by (intro inv_update [OF inv bs h c]) auto
  have all: "hm_all m ctx k = e # filter (\<lambda>x. ef (ent_key x) k ctx) zs"
    using hm_all_bucket [OF inv bs fns, of k] ch ys e by (simp add: filter_empty_conv)
  then show "hd (hm_all m ctx k) = e" "hm_all m ctx k \<noteq> []" by simp_all
  have upd: "hm_all m' ctx k' = (if bucket_index m ctx k' = ?h
      then filter (\<lambda>x. ef (ent_key x) k' ctx) (ys @ new @ zs) else hm_all m ctx k')"
    using hm_all_update [OF inv bs fns h, where c = "ys @ new @ zs" and s = s] inv' m'_eq by simp
  show "hm_all m' ctx k' = (if ef k k' ctx then new @ tl (hm_all m ctx k') else hm_all m ctx k')"
  proof (cases "ef k k' ctx")
    case True
    then have "ef (ent_key x) k' ctx = ef (ent_key x) k ctx" for x
      using ef_sym ef_trans by blast
    moreover have "bucket_index m ctx k' = ?h" using bucket_index_cong [OF fns(1) True] by simp
    ultimately show ?thesis
      using True upd hm_all_bucket [OF inv bs fns, of k'] ch ys e new(1)
      by (auto simp: filter_empty_conv filter_id_conv ef_refl)
  next
    case False
    then have "\<not> ef (ent_key e) k' ctx" "\<forall>x \<in> set new. \<not> ef (ent_key x) k' ctx"
      using e new(1) ef_left by auto
    with False show ?thesis
      using upd hm_all_bucket [OF inv bs fns, of k'] ch by (auto simp: filter_empty_conv)
  qed
qed

text \<open>The behaviour of an insertion, by what the key maps to and the strategy.\<close>

lemma insert_found:
  assumes inv: "hashmap_inv m ctx" and fns: "hash_fn m = hf" "equal_fn m = ef"
    and ins: "hashmap_insert cok mok m ctx k v s = (r, m', okey, oval)"
    and s: "s \<noteq> HASHMAP_APPEND" and ne: "hm_all m ctx k = e # es"
  shows "okey = ent_key e" "oval = ent_value e" "hashmap_inv m' ctx"
    and "hash_fn m' = hf" "equal_fn m' = ef"
    and "s = HASHMAP_ADD \<Longrightarrow> r = Some EEXIST \<and> m' = m"
    and "s \<noteq> HASHMAP_ADD \<Longrightarrow> r = None"
    and "s \<noteq> HASHMAP_ADD \<Longrightarrow> hm_all m' ctx k' =
           (if ef k k' ctx then \<lparr>ent_key = k, ent_value = v\<rparr> # tl (hm_all m ctx k') else hm_all m ctx k')"
proof -
  let ?h = "hash_bits (hash_fn m k ctx) (cap_bits m)"
  let ?new = "\<lparr>ent_key = k, ent_value = v\<rparr>"
  obtain pprev e' where f: "hashmap_find_entry m ctx k ?h = Some (pprev, e')"
    using find_entry_None [OF inv fns, of k] ne
    by (metis list.distinct(1) not_None_eq surj_pair)
  have set: "map_option (hashmap_set_entry pprev k v) (buckets m) =
      map_option (\<lambda>bs. case pprev of (h, i) \<Rightarrow> bs[h := take i (bs ! h) @ [?new] @ drop (Suc i) (bs ! h)]) (buckets m)"
    if "buckets m = Some bs" "pprev = (h, i)" "i < length (bs ! h)" for bs h i
    using that by (simp add: hashmap_set_entry_def upd_conv_take_nth_drop)
  have set': "m\<lparr>buckets := map_option (hashmap_set_entry pprev k v) (buckets m)\<rparr> =
     m\<lparr>buckets := map_option (\<lambda>bs. case pprev of (h, i) \<Rightarrow> bs[h := take i (bs ! h) @ [?new] @ drop (Suc i) (bs ! h)]) (buckets m),
       sz := sz m - (1 - of_nat (length [?new]))\<rparr>"
    by (rule find_entry_Some [OF f inv fns]) (subst set, auto)
  note rep = replace_entry_ok [OF inv fns f _ _ set']
  have e: "e' = e" using rep(2) ne by simp
  have split: "(s = HASHMAP_ADD \<and> r = Some EEXIST \<and> m' = m \<or>
      s \<noteq> HASHMAP_ADD \<and> r = None \<and>
      m' = m\<lparr>buckets := map_option (hashmap_set_entry pprev k v) (buckets m)\<rparr>)
      \<and> okey = ent_key e \<and> oval = ent_value e"
    using ins f s e by (cases s) (auto simp: hashmap_insert_def Let_def)
  then show "okey = ent_key e" "oval = ent_value e" "hashmap_inv m' ctx"
    "hash_fn m' = hf" "equal_fn m' = ef" "s = HASHMAP_ADD \<Longrightarrow> r = Some EEXIST \<and> m' = m"
    "s \<noteq> HASHMAP_ADD \<Longrightarrow> r = None"
    using rep(1) inv fns by auto
  show "s \<noteq> HASHMAP_ADD \<Longrightarrow> hm_all m' ctx k' =
      (if ef k k' ctx then \<lparr>ent_key = k, ent_value = v\<rparr> # tl (hm_all m ctx k') else hm_all m ctx k')"
    using split rep(4) by auto
qed

lemma insert_absent_update:
  assumes "hashmap_inv m ctx" "hash_fn m = hf" "equal_fn m = ef" "hm_all m ctx k = []"
  shows "hashmap_insert cok mok m ctx k v HASHMAP_UPDATE = (Some ENOENT, m, 0, 0)"
  using find_entry_None [OF assms(1-3), of k] assms(4) by (simp add: hashmap_insert_def Let_def)

lemma insert_new:
  assumes inv: "hashmap_inv m ctx" and fns: "hash_fn m = hf" "equal_fn m = ef"
    and ins: "hashmap_insert cok mok m ctx k v s = (r, m', okey, oval)"
    and s: "s = HASHMAP_APPEND \<or> s \<noteq> HASHMAP_UPDATE \<and> hm_all m ctx k = []"
  shows "hashmap_inv m' ctx" "hash_fn m' = hf" "equal_fn m' = ef" "okey = 0" "oval = 0"
    and "r = None \<Longrightarrow> hm_all m' ctx k' = (if ef k k' ctx then [\<lparr>ent_key = k, ent_value = v\<rparr>] else [])
           @ (if hashmap_needs_to_grow m then rev (hm_all m ctx k') else hm_all m ctx k')"
    and "r \<noteq> None \<Longrightarrow> r = Some ENOMEM \<and> (\<not> cok \<or> \<not> mok \<or> cap_bits m = 60) \<and>
           (hm_all m' ctx k' = hm_all m ctx k' \<or> hm_all m' ctx k' = rev (hm_all m ctx k'))"
proof -
  let ?e = "\<lparr>ent_key = k, ent_value = v\<rparr>"
  let ?g = "if hashmap_needs_to_grow m then hashmap_grow cok m ctx else Inr m"
  have nf: "(if s \<noteq> HASHMAP_APPEND
       then hashmap_find_entry m ctx k (hash_bits (hash_fn m k ctx) (cap_bits m)) else None) = None"
    using s find_entry_None [OF inv fns, of k] by auto
  have res: "(r, m', okey, oval) = (case ?g of Inl e \<Rightarrow> (Some e, m, 0, 0)
      | Inr m1 \<Rightarrow> if \<not> mok then (Some ENOMEM, m1, 0, 0)
          else (None, m1\<lparr>buckets := map_option (hashmap_add_entry (bucket_index m1 ctx k) ?e) (buckets m1),
                         sz := sz m1 + 1\<rparr>, 0, 0))"
    using ins nf s
    by (auto simp: hashmap_insert_def Let_def bucket_index_def split: sum.splits)
  let ?A = "hashmap_inv m' ctx \<and> hash_fn m' = hf \<and> equal_fn m' = ef \<and> okey = 0 \<and> oval = 0"
  let ?B = "r = None \<longrightarrow> hm_all m' ctx k' = (if ef k k' ctx then [?e] else [])
           @ (if hashmap_needs_to_grow m then rev (hm_all m ctx k') else hm_all m ctx k')"
  let ?C = "r \<noteq> None \<longrightarrow> r = Some ENOMEM \<and> (\<not> cok \<or> \<not> mok \<or> cap_bits m = 60) \<and>
           (hm_all m' ctx k' = hm_all m ctx k' \<or> hm_all m' ctx k' = rev (hm_all m ctx k'))"
  have main: "?A \<and> ?B \<and> ?C"
  proof (cases ?g)
    case (Inl e)
    with res have "r = Some e" "m' = m" "okey = 0" "oval = 0" by auto
    moreover have "e = ENOMEM \<and> (\<not> cok \<or> cap_bits m = 60)"
      using Inl grow_fail [OF inv] by (auto split: if_splits)
    ultimately show ?thesis
      using inv fns by auto
  next
    case (Inr m1)
    have m1: "hashmap_inv m1 ctx" "hash_fn m1 = hf" "equal_fn m1 = ef" "\<not> hashmap_needs_to_grow m1"
      "hm_all m1 ctx k' = (if hashmap_needs_to_grow m then rev (hm_all m ctx k') else hm_all m ctx k')"
      using Inr grow_ok [OF inv fns] inv fns by (auto split: if_splits)
    have "cap m1 \<noteq> 0" using m1(4) by (simp add: hashmap_needs_to_grow_def)
    then obtain bs where bs: "buckets m1 = Some bs" using m1(1)
      by (auto simp: hashmap_inv_def split: option.splits)
    note add = add_entry_ok [OF m1(1-3) bs m1(4) _ refl, of ?e k]
    show ?thesis
    proof (cases mok)
      case True
      with res Inr bs have "r = None" "okey = 0" "oval = 0"
        and m': "m' = m1\<lparr>buckets := Some (hashmap_add_entry (bucket_index m1 ctx k) ?e bs), sz := sz m1 + 1\<rparr>"
        by simp_all
      with add m1 show ?thesis by simp
    next
      case False
      with res Inr have "r = Some ENOMEM" "okey = 0" "oval = 0" "m' = m1" by simp_all
      with False m1 show ?thesis by simp
    qed
  qed
  from main show "hashmap_inv m' ctx" "hash_fn m' = hf" "equal_fn m' = ef" "okey = 0" "oval = 0" by auto
  from main show "r = None \<Longrightarrow> hm_all m' ctx k' = (if ef k k' ctx then [?e] else [])
       @ (if hashmap_needs_to_grow m then rev (hm_all m ctx k') else hm_all m ctx k')"
    by blast
  from main show "r \<noteq> None \<Longrightarrow> r = Some ENOMEM \<and> (\<not> cok \<or> \<not> mok \<or> cap_bits m = 60) \<and>
       (hm_all m' ctx k' = hm_all m ctx k' \<or> hm_all m' ctx k' = rev (hm_all m ctx k'))"
    by blast
qed

lemma hm_all_cong:
  assumes "equal_fn m = ef" "ef k k' ctx"
  shows "hm_all m ctx k' = hm_all m ctx k"
proof -
  have "ef x k' ctx = ef x k ctx" for x using assms(2) ef_sym ef_trans by blast
  then show ?thesis by (simp add: hm_all_def assms(1))
qed

lemma delete_ok:
  assumes inv: "hashmap_inv m ctx" and fns: "hash_fn m = hf" "equal_fn m = ef"
    and del: "hashmap_delete m ctx k = (m', r)"
  shows "hashmap_inv m' ctx" "hash_fn m' = hf" "equal_fn m' = ef"
    and "r = map_option (\<lambda>e. (ent_key e, ent_value e)) (hm_abs m ctx k)"
    and "hm_all m' ctx k' = (if ef k k' ctx then tl (hm_all m ctx k') else hm_all m ctx k')"
proof -
  have "hashmap_inv m' ctx \<and> hash_fn m' = hf \<and> equal_fn m' = ef \<and>
      r = map_option (\<lambda>e. (ent_key e, ent_value e)) (hm_abs m ctx k) \<and>
      hm_all m' ctx k' = (if ef k k' ctx then tl (hm_all m ctx k') else hm_all m ctx k')"
  proof (cases "hm_all m ctx k")
    case Nil
    then have "m' = m" "r = None"
      using del find_entry_None [OF inv fns, of k] by (auto simp: hashmap_delete_def Let_def)
    moreover have "ef k k' ctx \<Longrightarrow> hm_all m ctx k' = []"
      using Nil hm_all_cong [OF fns(2)] by simp
    ultimately show ?thesis
      using Nil inv fns by (simp add: hm_abs_def)
  next
    case (Cons e es)
    then obtain pprev e' where f:
      "hashmap_find_entry m ctx k (hash_bits (hash_fn m k ctx) (cap_bits m)) = Some (pprev, e')"
      using find_entry_None [OF inv fns, of k] by (metis list.distinct(1) not_None_eq surj_pair)
    have m': "m' = m\<lparr>buckets := map_option (\<lambda>bs. case pprev of (h, i) \<Rightarrow>
          bs[h := take i (bs ! h) @ [] @ drop (Suc i) (bs ! h)]) (buckets m),
        sz := sz m - (1 - of_nat (length []))\<rparr>"
      and r: "r = Some (ent_key e', ent_value e')"
      using del f by (auto simp: hashmap_delete_def Let_def hashmap_del_entry_def [abs_def])
    note rep = replace_entry_ok [OF inv fns f _ _ m']
    show ?thesis
      using rep(1,2,4) r Cons m' fns by (auto simp: hm_abs_def)
  qed
  then show "hashmap_inv m' ctx" "hash_fn m' = hf" "equal_fn m' = ef"
    "r = map_option (\<lambda>e. (ent_key e, ent_value e)) (hm_abs m ctx k)"
    "hm_all m' ctx k' = (if ef k k' ctx then tl (hm_all m ctx k') else hm_all m ctx k')"
    by blast+
qed

end

section \<open>Clients of the map that hash the key itself\<close>

text \<open>
  The functions \<^verbatim>\<open>btf.c\<close> passes to its maps: type ids hashed by identity, or
  all into one bucket when collisions are forced, and compared by value.
\<close>

definition btf_dedup_identity_hash_fn :: "u64 \<Rightarrow> 'c \<Rightarrow> u64" where
  "btf_dedup_identity_hash_fn k ctx = k"

definition btf_dedup_collision_hash_fn :: "u64 \<Rightarrow> 'c \<Rightarrow> u64" where
  "btf_dedup_collision_hash_fn k ctx = 0"

definition btf_dedup_equal_fn :: "u64 \<Rightarrow> u64 \<Rightarrow> 'c \<Rightarrow> bool" where
  "btf_dedup_equal_fn k1 k2 ctx \<longleftrightarrow> k1 = k2"

interpretation dedup: hash_contract btf_dedup_identity_hash_fn btf_dedup_equal_fn ctx for ctx
  by unfold_locales (simp_all add: btf_dedup_equal_fn_def)

interpretation dedup_collide: hash_contract btf_dedup_collision_hash_fn btf_dedup_equal_fn ctx for ctx
  by unfold_locales (simp_all add: btf_dedup_equal_fn_def btf_dedup_collision_hash_fn_def)

section \<open>Reachable maps\<close>

text \<open>
  The maps a client can build with the public operations while the content of
  \<open>ctx\<close> does not change; \<open>multi\<close> says whether it ever uses APPEND.
\<close>

inductive hashmap_reach ::
  "(u64 \<Rightarrow> 'c \<Rightarrow> u64) \<Rightarrow> (u64 \<Rightarrow> u64 \<Rightarrow> 'c \<Rightarrow> bool) \<Rightarrow> 'c \<Rightarrow> bool \<Rightarrow> 'c hashmap \<Rightarrow> bool"
  for hf ef ctx multi where
  reach_init: "hashmap_reach hf ef ctx multi (hashmap__init hf ef)"
| reach_insert: "hashmap_reach hf ef ctx multi m \<Longrightarrow> multi \<or> s \<noteq> HASHMAP_APPEND \<Longrightarrow>
    hashmap_insert cok mok m ctx k v s = (r, m', okey, oval) \<Longrightarrow> hashmap_reach hf ef ctx multi m'"
| reach_delete: "hashmap_reach hf ef ctx multi m \<Longrightarrow>
    hashmap_delete m ctx k = (m', r) \<Longrightarrow> hashmap_reach hf ef ctx multi m'"
| reach_clear: "hashmap_reach hf ef ctx multi m \<Longrightarrow> hashmap_reach hf ef ctx multi (hashmap__clear m)"

context hash_contract
begin

lemma init_ok: "hashmap_inv (hashmap__init hf ef) ctx" "hm_all (hashmap__init hf ef) ctx k = []"
  by (simp_all add: hashmap__init_def hashmap_inv_def hm_all_def hashmap__for_each_entry_def)

lemma clear_ok: "hashmap_inv (hashmap__clear m) ctx" "hm_all (hashmap__clear m) ctx k = []"
  by (simp_all add: hashmap__clear_def hashmap_inv_def hm_all_def hashmap__for_each_entry_def)

lemma insert_inv:
  assumes "hashmap_inv m ctx" "hash_fn m = hf" "equal_fn m = ef"
    and "hashmap_insert cok mok m ctx k v s = (r, m', okey, oval)"
  shows "hashmap_inv m' ctx \<and> hash_fn m' = hf \<and> equal_fn m' = ef"
proof (cases "s = HASHMAP_APPEND \<or> s \<noteq> HASHMAP_UPDATE \<and> hm_all m ctx k = []")
  case True
  then show ?thesis using insert_new [OF assms] by simp
next
  case False
  then show ?thesis
    using insert_found [OF assms] insert_absent_update [OF assms(1-3)] assms
    by (cases "hm_all m ctx k") auto
qed

lemma insert_unique:
  assumes "hashmap_inv m ctx" "hash_fn m = hf" "equal_fn m = ef" "hashmap_unique m ctx"
    and ins: "hashmap_insert cok mok m ctx k v s = (r, m', okey, oval)" and s: "s \<noteq> HASHMAP_APPEND"
  shows "hashmap_unique m' ctx"
  unfolding hashmap_unique_def
proof
  fix k'
  have le: "length (hm_all m ctx k') \<le> 1" for k' using assms(4) by (simp add: hashmap_unique_def)
  show "length (hm_all m' ctx k') \<le> 1"
  proof (cases "hm_all m ctx k")
    case (Cons e es)
    show ?thesis
      using insert_found(6) [OF assms(1-3) ins s Cons] insert_found(8) [OF assms(1-3) ins s Cons, of k'] le [of k'] by (cases "s = HASHMAP_ADD") auto
  next
    case Nil
    show ?thesis
    proof (cases "s = HASHMAP_UPDATE")
      case True
      then show ?thesis using insert_absent_update [OF assms(1-3) Nil] ins le by simp
    next
      case False
      then show ?thesis
        using insert_new(6,7) [OF assms(1-3) ins, of k'] s Nil le [of k'] hm_all_cong [OF assms(3), of k k']
        by (cases "r = None") auto
    qed
  qed
qed

lemma reach_inv:
  assumes "hashmap_reach hf ef ctx multi m"
  shows "hashmap_inv m ctx \<and> hash_fn m = hf \<and> equal_fn m = ef \<and> (multi \<or> hashmap_unique m ctx)"
  using assms
proof (induction rule: hashmap_reach.induct)
  case reach_init
  show ?case using init_ok by (simp add: hashmap_unique_def) (simp add: hashmap__init_def)
next
  case (reach_insert m s cok mok k v r m' okey oval)
  then show ?case using insert_inv insert_unique by blast
next
  case (reach_delete m k m' r)
  then have m: "hashmap_inv m ctx" "hash_fn m = hf" "equal_fn m = ef" by auto
  have "length (hm_all m' ctx k') \<le> length (hm_all m ctx k')" for k'
    using delete_ok(5) [OF m reach_delete.hyps(2), of k'] by simp
  with reach_delete delete_ok [OF m reach_delete.hyps(2)] show ?case
    by (auto simp: hashmap_unique_def intro: order_trans)
next
  case (reach_clear m)
  then show ?case using clear_ok by (simp add: hashmap_unique_def) (simp add: hashmap__clear_def)
qed

end

text \<open>Repeated APPEND with allocations that succeed, for concrete runs of the map.\<close>

fun append_all :: "'c hashmap \<Rightarrow> 'c \<Rightarrow> (u64 \<times> u64) list \<Rightarrow> 'c hashmap" where
  "append_all m ctx [] = m"
| "append_all m ctx ((k, v) # kvs) =
     append_all (fst (snd (hashmap_insert True True m ctx k v HASHMAP_APPEND))) ctx kvs"

lemmas hm_eval = hashmap_insert_def hashmap_find_def hashmap_find_entry_def hashmap_grow_def
  hashmap_needs_to_grow_def hashmap_add_entry_def hashmap__for_each_entry_def hash_bits_def
  HASHMAP_MIN_CAP_BITS_def array_alloc_ok_def btf_dedup_identity_hash_fn_def
  btf_dedup_equal_fn_def hashmap__init_def hashmap__size_def Let_def list_eval

lemma append_all_reach:
  "hashmap_reach hf ef ctx True m \<Longrightarrow> hashmap_reach hf ef ctx True (append_all m ctx kvs)"
proof (induction m ctx kvs rule: append_all.induct)
  case (2 m ctx k v kvs)
  obtain r m' okey oval where "hashmap_insert True True m ctx k v HASHMAP_APPEND = (r, m', okey, oval)"
    by (metis prod.exhaust)
  with 2 show ?case by (auto intro: reach_insert)
qed simp

abbreviation (input) id_map :: "unit hashmap" where
  "id_map \<equiv> hashmap__init btf_dedup_identity_hash_fn btf_dedup_equal_fn"

section \<open>Properties\<close>

text \<open>
  C21. Every map built from \<^verbatim>\<open>hashmap__init\<close> by insertions, deletions and clears,
  with any pattern of allocation failures, satisfies the representation invariant
  (each entry is in the bucket its key hashes to, \<open>sz\<close> counts the entries, at
  most three quarters of the buckets' number are used, no counter wraps around),
  and holds each key at most once if APPEND is never used.
\<close>

theorem hashmap_reach_inv:
  assumes "hash_contract hf ef ctx" and "hashmap_reach hf ef ctx multi m"
  shows "hashmap_inv m ctx \<and> (multi \<or> hashmap_unique m ctx)"
  using hash_contract.reach_inv [OF assms] by blast

theorem hashmap_reach_inv_witness:
  "hashmap_inv (append_all id_map () [(1, 10), (1, 20), (2, 30), (3, 40)]) ()"
  by (rule conjunct1 [OF hashmap_reach_inv [OF dedup.hash_contract_axioms append_all_reach [OF reach_init]]])

text \<open>
  C20. Insertion with ADD, SET or UPDATE into a map that holds each key at most
  once refines the update of a finite map. A present key: ADD fails with EEXIST
  and changes nothing, SET and UPDATE replace the entry, and the old key and value
  are reported. An absent key: UPDATE fails with ENOENT and changes nothing; ADD
  and SET store the pair, or fail with ENOMEM leaving the contents as they were,
  which only happens when an allocation fails or the table has reached its largest size.
\<close>

theorem hashmap_insert_refines:
  assumes c: "hash_contract hf ef ctx" and m: "hashmap_reach hf ef ctx False m"
    and s: "s \<noteq> HASHMAP_APPEND"
    and ins: "hashmap_insert cok mok m ctx k v s = (r, m', okey, oval)"
  defines "upd \<equiv> \<lambda>k'. if ef k k' ctx then Some \<lparr>ent_key = k, ent_value = v\<rparr> else hm_abs m ctx k'"
  shows "case hm_abs m ctx k of
      Some e \<Rightarrow> okey = ent_key e \<and> oval = ent_value e \<and>
        (if s = HASHMAP_ADD then r = Some EEXIST \<and> m' = m else r = None \<and> hm_abs m' ctx = upd)
    | None \<Rightarrow> okey = 0 \<and> oval = 0 \<and>
        (if s = HASHMAP_UPDATE then r = Some ENOENT \<and> m' = m
         else r = None \<and> hm_abs m' ctx = upd \<or>
              r = Some ENOMEM \<and> hm_abs m' ctx = hm_abs m ctx \<and> (\<not> cok \<or> \<not> mok \<or> cap_bits m = 60))"
proof -
  note h = hash_contract.reach_inv [OF c m]
  then have i: "hashmap_inv m ctx" "hash_fn m = hf" "equal_fn m = ef"
    and u: "length (hm_all m ctx k') \<le> 1" for k'
    by (auto simp: hashmap_unique_def)
  show ?thesis
  proof (cases "hm_all m ctx k")
    case (Cons e es)
    note f = hash_contract.insert_found [OF c i ins s Cons]
    have "hm_abs m' ctx = upd" if "s \<noteq> HASHMAP_ADD"
      using f(8) [OF that] by (auto simp: hm_abs_def upd_def)
    with f(1,2,6,7) Cons show ?thesis by (auto simp: hm_abs_def)
  next
    case Nil
    note n = hash_contract.insert_new [OF c i ins]
    have rv: "rev (hm_all m ctx k') = hm_all m ctx k'" for k'
      using u [of k'] by (cases "hm_all m ctx k'") auto
    have "hm_abs m' ctx = upd" if "r = None" "s \<noteq> HASHMAP_UPDATE"
      using n(6) that s Nil rv by (auto simp: hm_abs_def upd_def)
    moreover have "hm_abs m' ctx = hm_abs m ctx" "r = Some ENOMEM" "\<not> cok \<or> \<not> mok \<or> cap_bits m = 60"
      if "r \<noteq> None" "s \<noteq> HASHMAP_UPDATE"
      using n(7) that s Nil rv by (auto simp: hm_abs_def)
    moreover have "hm_abs m ctx k = None" by (simp add: hm_abs_def Nil)
    moreover have "okey = 0 \<and> oval = 0 \<and> (s = HASHMAP_UPDATE \<longrightarrow> r = Some ENOENT \<and> m' = m)"
      using hash_contract.insert_absent_update [OF c i Nil] ins n(4,5) s Nil
      by (cases "s = HASHMAP_UPDATE") auto
    ultimately show ?thesis by (cases "r = None") simp_all
  qed
qed

theorem hashmap_insert_refines_witness:
  "hm_abs (fst (snd (hashmap_insert True True id_map () 1 10 HASHMAP_ADD))) () 1
     = Some \<lparr>ent_key = 1, ent_value = 10\<rparr>"
proof -
  obtain r m' okey oval where i: "hashmap_insert True True id_map () 1 10 HASHMAP_ADD = (r, m', okey, oval)"
    by (metis prod.exhaust)
  have "hm_abs id_map () 1 = None"
    by (simp add: hm_abs_def hm_all_def hm_eval)
  with hashmap_insert_refines [OF dedup.hash_contract_axioms reach_init _ i]
  show ?thesis by (auto simp: i btf_dedup_equal_fn_def) (simp add: hashmap__init_def)
qed

text \<open>
  C22. \<^verbatim>\<open>hashmap_find\<close> looks only into one bucket, yet it returns what a scan of
  the whole table finds; \<^verbatim>\<open>hashmap_delete\<close> reports and removes exactly that
  entry and leaves every other key as it was; the per-key iteration visits all
  entries of the key, so the map is also a correct multimap.
\<close>

theorem hashmap_find_delete_refine:
  assumes c: "hash_contract hf ef ctx" and m: "hashmap_reach hf ef ctx multi m"
    and del: "hashmap_delete m ctx k = (m', r)"
  shows "hashmap_find m ctx k = map_option ent_value (hm_abs m ctx k) \<and>
    hashmap__for_each_key_entry m ctx k = hm_all m ctx k \<and>
    r = map_option (\<lambda>e. (ent_key e, ent_value e)) (hm_abs m ctx k) \<and>
    hm_all m' ctx = (\<lambda>k'. if ef k k' ctx then tl (hm_all m ctx k') else hm_all m ctx k')"
proof -
  from hash_contract.reach_inv [OF c m]
  have i: "hashmap_inv m ctx" "hash_fn m = hf" "equal_fn m = ef" by auto
  show ?thesis
    using hash_contract.find_abs [OF c i] hash_contract.for_each_key_entry [OF c i]
      hash_contract.delete_ok(4) [OF c i del] ext [OF hash_contract.delete_ok(5) [OF c i del]]
    by simp
qed

theorem hashmap_find_delete_refine_witness:
  "hashmap__for_each_key_entry (append_all id_map () [(1, 10), (1, 20)]) () 1
     = hm_all (append_all id_map () [(1, 10), (1, 20)]) () 1"
proof -
  obtain m' r where "hashmap_delete (append_all id_map () [(1, 10), (1, 20)]) () 1 = (m', r)"
    by (metis prod.exhaust)
  from hashmap_find_delete_refine [OF dedup.hash_contract_axioms append_all_reach [OF reach_init] this]
  show ?thesis by blast
qed

text \<open>
  C23. APPEND turns the map into a multimap: on success the new pair comes first
  among the entries of its key and every other entry is kept, but a growth of the
  table, which any insertion may trigger, reverses the order of the entries of
  every key; on failure the entries are kept, up to the same reversal.
\<close>

theorem hashmap_append_multimap:
  assumes c: "hash_contract hf ef ctx" and m: "hashmap_reach hf ef ctx multi m"
    and ins: "hashmap_insert cok mok m ctx k v HASHMAP_APPEND = (r, m', okey, oval)"
  shows "if r = None
    then hm_all m' ctx = (\<lambda>k'. (if ef k k' ctx then [\<lparr>ent_key = k, ent_value = v\<rparr>] else [])
           @ (if hashmap_needs_to_grow m then rev (hm_all m ctx k') else hm_all m ctx k'))
    else r = Some ENOMEM \<and> (\<forall>k'. mset (hm_all m' ctx k') = mset (hm_all m ctx k'))"
proof -
  from hash_contract.reach_inv [OF c m]
  have i: "hashmap_inv m ctx" "hash_fn m = hf" "equal_fn m = ef" by auto
  note n = hash_contract.insert_new [OF c i ins]
  show ?thesis
  proof (cases "r = None")
    case True
    then show ?thesis using n(6) by auto
  next
    case False
    have "mset (hm_all m' ctx k') = mset (hm_all m ctx k')" for k'
      using n(7) [of k'] False by (metis mset_rev)
    then show ?thesis using n(7) False by simp
  qed
qed

theorem hashmap_append_multimap_witness:
  "hm_all (fst (snd (hashmap_insert True True (append_all id_map () [(1, 10), (1, 20), (2, 30)]) () 3 40
       HASHMAP_APPEND))) () 1
     = rev (hm_all (append_all id_map () [(1, 10), (1, 20), (2, 30)]) () 1)"
proof -
  let ?m = "append_all id_map () [(1, 10), (1, 20), (2, 30)]"
  obtain r m' okey oval where i: "hashmap_insert True True ?m () 3 40 HASHMAP_APPEND = (r, m', okey, oval)"
    by (metis prod.exhaust)
  have "fst (hashmap_insert True True ?m () 3 40 HASHMAP_APPEND) = None"
    by (simp add: hm_eval)
  then have "r = None" using i by simp
  moreover have "hashmap_needs_to_grow ?m" by (simp add: hm_eval)
  ultimately show ?thesis
    using hashmap_append_multimap [OF dedup.hash_contract_axioms append_all_reach [OF reach_init] i]
    by (simp add: i btf_dedup_equal_fn_def del: append_all.simps)
qed

end
