(* ===== verification/Strset.thy ===== *)
theory Strset
  imports Hashmap
begin

text \<open>
  The set of unique strings of \<^verbatim>\<open>src/src/strset.c\<close>, on top of the growing
  buffer of \<^verbatim>\<open>libbpf_add_mem\<close> (\<^verbatim>\<open>src/src/btf.c\<close>) and of the hash map.
  The buffer is the list of the allocated bytes; the hash map stores offsets into
  it and reads the strings through its context, so the context of every map
  operation is the current buffer. A string argument points either outside the
  buffer or into it, and a pointer into a buffer that \<^verbatim>\<open>realloc\<close> has moved is
  dangling: reading through it has no result. The set is shown to implement a
  list of strings kept back to back.
\<close>

section \<open>Growing buffers\<close>

text \<open>What one call of \<^verbatim>\<open>realloc\<close> does: succeed or not, move the block or
  not, and the indeterminate bytes of the grown part.\<close>

record realloc_env =
  realloc_ok :: bool
  realloc_moves :: bool
  realloc_junk :: u8

definition libbpf_reallocarray :: "realloc_env \<Rightarrow> bytes \<Rightarrow> u64 \<Rightarrow> u64 \<Rightarrow> bytes option" where
  "libbpf_reallocarray env ptr nmemb esize =
     (if \<not> array_alloc_ok (realloc_ok env) (unat nmemb) (unat esize) then None
      else let total = unat (nmemb * esize)
           in Some (take total ptr @ replicate (total - length ptr) (realloc_junk env)))"

text \<open>
  The result of \<^verbatim>\<open>libbpf_add_mem\<close>: the buffer, its capacity, the offset of the
  unused part the returned pointer points to, and whether the buffer has moved.
\<close>

definition libbpf_add_mem ::
  "realloc_env \<Rightarrow> bytes \<Rightarrow> u64 \<Rightarrow> u64 \<Rightarrow> u64 \<Rightarrow> u64 \<Rightarrow> u64 \<Rightarrow> (bytes \<times> u64 \<times> u64 \<times> bool) option" where
  "libbpf_add_mem env data cap_cnt elem_sz cur_cnt max_cnt add_cnt =
     (if cur_cnt + add_cnt \<le> cap_cnt then Some (data, cap_cnt, cur_cnt * elem_sz, False)
      else if cur_cnt + add_cnt > max_cnt then None
      else let new_cnt = cap_cnt + cap_cnt div 4;
               new_cnt = (if new_cnt < 16 then 16 else new_cnt);
               new_cnt = (if new_cnt > max_cnt then max_cnt else new_cnt);
               new_cnt = (if new_cnt < cur_cnt + add_cnt then cur_cnt + add_cnt else new_cnt)
           in case libbpf_reallocarray env data new_cnt elem_sz of
                None \<Rightarrow> None
              | Some new_data \<Rightarrow>
                  Some (mem_set new_data (unat (cap_cnt * elem_sz)) 0 (unat ((new_cnt - cap_cnt) * elem_sz)),
                        new_cnt, cur_cnt * elem_sz, realloc_moves env))"

definition libbpf_ensure_mem ::
  "realloc_env \<Rightarrow> bytes \<Rightarrow> u64 \<Rightarrow> u64 \<Rightarrow> u64 \<Rightarrow> (bytes \<times> u64) result" where
  "libbpf_ensure_mem env data cap_cnt elem_sz need_cnt =
     (if need_cnt \<le> cap_cnt then Inr (data, cap_cnt)
      else case libbpf_add_mem env data cap_cnt elem_sz cap_cnt (- 1) (need_cnt - cap_cnt) of
             None \<Rightarrow> Inl ENOMEM
           | Some (data', cap', p, moved) \<Rightarrow> Inr (data', cap'))"

section \<open>The string set\<close>

record strset =
  strs_data :: bytes
  strs_data_len :: u64
  strs_data_cap :: u64
  strs_data_max_len :: u64
  strs_hash :: "bytes hashmap"

definition strset_hash_fn :: "u64 \<Rightarrow> bytes \<Rightarrow> u64" where
  "strset_hash_fn key ctx = str_hash (drop (unat key) ctx)"

definition strset_equal_fn :: "u64 \<Rightarrow> u64 \<Rightarrow> bytes \<Rightarrow> bool" where
  "strset_equal_fn key1 key2 ctx \<longleftrightarrow>
     strcmp (drop (unat key1) ctx) (drop (unat key2) ctx) = 0"

text \<open>
  The loop of \<^verbatim>\<open>strset__new\<close> over the initial strings. The allocations of the
  \<open>i\<close>-th insertion (of the table and of the entry) succeed as \<open>alloc i\<close> says.
\<close>

function strset_index_loop :: "(nat \<Rightarrow> bool \<times> bool) \<Rightarrow> nat \<Rightarrow> strset \<Rightarrow> nat \<Rightarrow> strset result" where
  "strset_index_loop alloc i ss off =
     (if off < unat (strs_data_len ss)
      then case hashmap_insert (fst (alloc i)) (snd (alloc i)) (strs_hash ss) (strs_data ss)
                  (of_nat off) (of_nat off) HASHMAP_ADD of
             (err, hash, _, _) \<Rightarrow>
               if err = Some EEXIST \<or> err = None
               then strset_index_loop alloc (Suc i) (ss\<lparr>strs_hash := hash\<rparr>)
                      (off + strlen (drop off (strs_data ss)) + 1)
               else Inl (the err)
      else Inr ss)"
  by pat_completeness auto
termination
  by (relation "measure (\<lambda>(alloc, i, ss, off). unat (strs_data_len ss) - off)") auto

declare strset_index_loop.simps [simp del]

definition strset__new ::
  "bool \<Rightarrow> bool \<Rightarrow> bool \<Rightarrow> (nat \<Rightarrow> bool \<times> bool) \<Rightarrow> u64 \<Rightarrow> bytes option \<Rightarrow> strset result" where
  "strset__new calloc_ok malloc_ok data_ok alloc max_data_sz init_data =
     (if \<not> calloc_ok then Inl ENOMEM
      else case hashmap__new malloc_ok strset_hash_fn strset_equal_fn of
             Inl e \<Rightarrow> Inl ENOMEM
           | Inr hash \<Rightarrow>
               let ss = \<lparr>strs_data = [], strs_data_len = 0, strs_data_cap = 0,
                          strs_data_max_len = max_data_sz, strs_hash = hash\<rparr>
               in case init_data of
                    None \<Rightarrow> Inr ss
                  | Some d \<Rightarrow>
                      if \<not> data_ok then Inl ENOMEM
                      else strset_index_loop alloc 0
                             (ss\<lparr>strs_data := d, strs_data_len := of_nat (length d),
                                  strs_data_cap := of_nat (length d)\<rparr>) 0)"

definition strset__data_size :: "strset \<Rightarrow> u64" where
  "strset__data_size ss = strs_data_len ss"

definition strset__data :: "strset \<Rightarrow> bytes" where
  "strset__data ss = strs_data ss"

definition strset_add_str_mem :: "realloc_env \<Rightarrow> strset \<Rightarrow> u64 \<Rightarrow> (strset \<times> u64 \<times> bool) option" where
  "strset_add_str_mem env ss add_sz =
     (case libbpf_add_mem env (strs_data ss) (strs_data_cap ss) 1 (strs_data_len ss)
             (strs_data_max_len ss) add_sz of
        None \<Rightarrow> None
      | Some (data, cap', p, moved) \<Rightarrow> Some (ss\<lparr>strs_data := data, strs_data_cap := cap'\<rparr>, p, moved))"

text \<open>A string pointer: to the bytes of another object, or to an offset in the set's own buffer.\<close>

datatype str_ptr = Outside bytes | Inside nat

fun str_at :: "bytes \<Rightarrow> str_ptr \<Rightarrow> bytes" where
  "str_at data (Outside b) = b"
| "str_at data (Inside off) = drop off data"

text \<open>
  \<open>None\<close> is undefined behaviour: the copy reads through a dangling pointer.
\<close>

fun strset_fixup :: "bool \<Rightarrow> u64 \<Rightarrow> bytes \<Rightarrow> str_ptr \<Rightarrow> bytes option" where
  "strset_fixup moved old_data_len new_data (Outside b) = Some b"
| "strset_fixup moved old_data_len new_data (Inside off) =
     (if moved then if off < unat old_data_len then Some (drop off new_data) else None
      else Some (drop off new_data))"

definition strset_str_append :: "realloc_env \<Rightarrow> strset \<Rightarrow> str_ptr \<Rightarrow> (u64 result \<times> strset) option" where
  "strset_str_append env ss s =
     (let len = of_nat (strlen (str_at (strs_data ss) s)) + 1
      in case strset_add_str_mem env ss len of
           None \<Rightarrow> Some (Inl ENOMEM, ss)
         | Some (ss', p, moved) \<Rightarrow>
             map_option
               (\<lambda>src. (Inr len, ss'\<lparr>strs_data := mem_write (strs_data ss') (unat p) (take (unat len) src)\<rparr>))
               (strset_fixup moved (strs_data_len ss) (strs_data ss') s))"

text \<open>The offsets are returned as \<open>int\<close>, the low 32 bits of the \<open>long\<close>.\<close>

definition strset__find_str :: "realloc_env \<Rightarrow> strset \<Rightarrow> str_ptr \<Rightarrow> (u32 result \<times> strset) option" where
  "strset__find_str env ss s =
     (case strset_str_append env ss s of
        None \<Rightarrow> None
      | Some (Inl e, ss') \<Rightarrow> Some (Inl e, ss')
      | Some (Inr len, ss') \<Rightarrow>
          Some (case hashmap_find (strs_hash ss') (strs_data ss') (strs_data_len ss') of
                  Some old_off \<Rightarrow> (Inr (ucast old_off), ss')
                | None \<Rightarrow> (Inl ENOENT, ss')))"

definition strset__add_str ::
  "realloc_env \<Rightarrow> bool \<Rightarrow> bool \<Rightarrow> strset \<Rightarrow> str_ptr \<Rightarrow> (u32 result \<times> strset) option" where
  "strset__add_str env calloc_ok malloc_ok ss s =
     (case strset_str_append env ss s of
        None \<Rightarrow> None
      | Some (Inl e, ss') \<Rightarrow> Some (Inl e, ss')
      | Some (Inr len, ss') \<Rightarrow>
          let new_off = strs_data_len ss'
          in case hashmap_insert calloc_ok malloc_ok (strs_hash ss') (strs_data ss') new_off new_off HASHMAP_ADD of
               (err, hash, old_off, _) \<Rightarrow>
                 if err = Some EEXIST then Some (Inr (ucast old_off), ss'\<lparr>strs_hash := hash\<rparr>)
                 else case err of
                        Some e \<Rightarrow> Some (Inl e, ss'\<lparr>strs_hash := hash\<rparr>)
                      | None \<Rightarrow> Some (Inr (ucast new_off),
                                  ss'\<lparr>strs_hash := hash, strs_data_len := strs_data_len ss' + len\<rparr>))"

section \<open>Lemmas on growing buffers\<close>

lemma reallocarray_Some:
  assumes "libbpf_reallocarray env data n e = Some d"
  shows "unat n * unat e < 2 ^ 64"
    and "length d = unat n * unat e"
    and "length data \<le> unat n * unat e \<Longrightarrow> \<exists>j. d = data @ j"
proof -
  have a: "array_alloc_ok (realloc_ok env) (unat n) (unat e)"
    and d: "d = take (unat (n * e)) data @ replicate (unat (n * e) - length data) (realloc_junk env)"
    using assms by (auto simp: libbpf_reallocarray_def Let_def split: if_splits)
  from array_alloc_okD [OF a] show lt: "unat n * unat e < 2 ^ 64" .
  then have "unat (n * e) = unat n * unat e" by (rule unat_mult_u64)
  with d show "length d = unat n * unat e"
    and "length data \<le> unat n * unat e \<Longrightarrow> \<exists>j. d = data @ j" by auto
qed

text \<open>The capacity chosen for a buffer that has to grow.\<close>

definition grown_cnt :: "u64 \<Rightarrow> u64 \<Rightarrow> u64 \<Rightarrow> u64" where
  "grown_cnt cap_cnt max_cnt need =
     (let n = cap_cnt + cap_cnt div 4; n = (if n < 16 then 16 else n);
          n = (if n > max_cnt then max_cnt else n)
      in if n < need then need else n)"

lemma grown_cnt_bounds:
  "need \<le> grown_cnt cap_cnt max_cnt need"
  "need \<le> max_cnt \<Longrightarrow> grown_cnt cap_cnt max_cnt need \<le> max_cnt"
  by (auto simp: grown_cnt_def Let_def)

lemma add_mem_grow:
  assumes "\<not> cur + add \<le> c" "\<not> cur + add > mx"
  shows "libbpf_add_mem env data c e cur mx add =
     (case libbpf_reallocarray env data (grown_cnt c mx (cur + add)) e of None \<Rightarrow> None
      | Some d \<Rightarrow> Some (mem_set d (unat (c * e)) 0 (unat ((grown_cnt c mx (cur + add) - c) * e)),
                      grown_cnt c mx (cur + add), cur * e, realloc_moves env))"
  unfolding libbpf_add_mem_def grown_cnt_def Let_def by (simp only: assms if_False)

lemma add_mem_Some:
  assumes add: "libbpf_add_mem env data c e cur mx n = Some (d, c', p, moved)"
    and len: "length data = unat c * unat e" "unat c * unat e < 2 ^ 64"
    and cur: "unat cur \<le> unat c" "unat cur + unat n < 2 ^ 64"
  shows "unat cur + unat n \<le> unat c'" and "unat c \<le> unat c'" and "unat c' * unat e < 2 ^ 64"
    and "d = data @ replicate ((unat c' - unat c) * unat e) 0"
    and "unat p = unat cur * unat e"
    and "c' = c \<and> d = data \<and> \<not> moved \<or> unat c' \<le> unat mx"
proof -
  have "unat cur * unat e < 2 ^ 64"
    by (rule order_le_less_trans [OF mult_le_mono1 [OF cur(1)] len(2)])
  then have p: "unat (cur * e) = unat cur * unat e" by (rule unat_mult_u64)
  have s: "unat (cur + n) = unat cur + unat n" using cur(2) by (rule unat_add_u64)
  have "unat cur + unat n \<le> unat c' \<and> unat c \<le> unat c' \<and> unat c' * unat e < 2 ^ 64
    \<and> d = data @ replicate ((unat c' - unat c) * unat e) 0 \<and> unat p = unat cur * unat e
    \<and> (c' = c \<and> d = data \<and> \<not> moved \<or> unat c' \<le> unat mx)"
  proof (cases "cur + n \<le> c")
    case True
    with add have "d = data" "c' = c" "p = cur * e" "\<not> moved" by (simp_all add: libbpf_add_mem_def)
    moreover have "unat cur + unat n \<le> unat c" using True s by (simp add: word_le_nat_alt)
    ultimately show ?thesis using len(2) p by simp
  next
    case False
    with add have mx: "\<not> cur + n > mx" by (auto simp: libbpf_add_mem_def)
    let ?g = "grown_cnt c mx (cur + n)"
    obtain nd where r: "libbpf_reallocarray env data ?g e = Some nd"
      using add unfolding add_mem_grow [OF False mx] by (cases "libbpf_reallocarray env data ?g e") simp_all
    have d: "d = mem_set nd (unat (c * e)) 0 (unat ((?g - c) * e))" "c' = ?g" "p = cur * e"
      using add unfolding add_mem_grow [OF False mx] r by auto
    have g: "unat cur + unat n \<le> unat ?g" "unat ?g \<le> unat mx"
      using grown_cnt_bounds [of "cur + n"] mx s by (auto simp: word_le_nat_alt not_less)
    have cg: "unat c < unat ?g" using False g s by (simp add: word_le_nat_alt)
    then have le: "unat c * unat e \<le> unat ?g * unat e" by simp
    obtain j where j: "nd = data @ j" using reallocarray_Some(3) [OF r] len(1) le by auto
    note lt = reallocarray_Some(1) [OF r]
    have jl: "length j = (unat ?g - unat c) * unat e"
      using reallocarray_Some(2) [OF r] j len(1) by (simp add: diff_mult_distrib)
    have "unat (?g - c) = unat ?g - unat c"
      using cg by (intro unat_diff_u64) (simp add: word_le_nat_alt)
    moreover have "(unat ?g - unat c) * unat e < 2 ^ 64"
      by (rule order_le_less_trans [OF _ lt]) simp
    ultimately have "unat ((?g - c) * e) = (unat ?g - unat c) * unat e"
      by (simp add: unat_mult_u64)
    then have "d = data @ replicate ((unat ?g - unat c) * unat e) 0"
      unfolding d(1) j mem_set_def mem_write_def unat_mult_u64 [OF len(2)] len(1) [symmetric]
      by (simp add: jl)
    then show ?thesis using g cg lt d(2,3) p by (intro conjI) simp_all
  qed
  then show "unat cur + unat n \<le> unat c'" "unat c \<le> unat c'" "unat c' * unat e < 2 ^ 64"
    "d = data @ replicate ((unat c' - unat c) * unat e) 0" "unat p = unat cur * unat e"
    "c' = c \<and> d = data \<and> \<not> moved \<or> unat c' \<le> unat mx"
    by blast+
qed

lemma add_mem_None:
  assumes "libbpf_add_mem env data c e cur mx n = None" "unat cur + unat n < 2 ^ 64"
  shows "unat c < unat cur + unat n \<and> (unat mx < unat cur + unat n \<or> \<not> realloc_ok env
     \<or> 2 ^ 64 \<le> unat (grown_cnt c mx (cur + n)) * unat e)"
proof -
  have s: "unat (cur + n) = unat cur + unat n" using assms(2) by (rule unat_add_u64)
  have c: "\<not> cur + n \<le> c" using assms(1) by (auto simp: libbpf_add_mem_def)
  then have "unat c < unat cur + unat n" using s by (simp add: word_le_nat_alt)
  moreover have "unat mx < unat cur + unat n" if "cur + n > mx"
    using that s by (simp add: word_less_nat_alt)
  moreover have "\<not> array_alloc_ok (realloc_ok env) (unat (grown_cnt c mx (cur + n))) (unat e)"
    if "\<not> cur + n > mx"
    using assms(1) unfolding add_mem_grow [OF c that]
    by (auto simp: libbpf_reallocarray_def Let_def split: option.splits if_splits)
  ultimately show ?thesis unfolding array_alloc_ok_def not_less [symmetric] by blast
qed

section \<open>Strings in the buffer and the hash map over them\<close>

abbreviation str_of :: "bytes \<Rightarrow> u64 \<Rightarrow> bytes" where
  "str_of data key \<equiv> cstr (drop (unat key) data)"

lemma str_hash_from_cstr: "str_hash_from h s = str_hash_from h (cstr s)"
  by (induction h s rule: str_hash_from.induct) auto

lemma strset_hash_fn_str: "strset_hash_fn k d = str_hash (str_of d k)"
  unfolding strset_hash_fn_def str_hash_def by (rule str_hash_from_cstr)

lemma strset_equal_fn_str: "strset_equal_fn a b d \<longleftrightarrow> str_of d a = str_of d b"
  by (simp add: strset_equal_fn_def strcmp_eq_0_iff)

interpretation strs: hash_contract strset_hash_fn strset_equal_fn data for data
  by unfold_locales (auto simp: strset_equal_fn_str strset_hash_fn_str)

text \<open>The strings of a buffer of back-to-back terminated strings.\<close>

fun split_strs :: "bytes \<Rightarrow> bytes list" where
  "split_strs [] = []"
| "split_strs (c # s) = cstr (c # s) # split_strs (drop (strlen (c # s)) s)"

lemma split_strs_step: "d \<noteq> [] \<Longrightarrow> split_strs d = cstr d # split_strs (drop (Suc (strlen d)) d)"
  by (cases d) simp_all

lemma split_strs_append:
  "d = [] \<or> last d = 0 \<Longrightarrow> 0 \<notin> set s \<Longrightarrow> split_strs (d @ s @ [0]) = split_strs d @ [s]"
proof (induction d rule: split_strs.induct)
  case 1
  then show ?case by (subst split_strs_step) (simp_all add: cstr_append strlen_def)
next
  case (2 c t)
  let ?d = "c # t"
  have z: "0 \<in> set ?d" using 2(2) last_in_set [of ?d] by auto
  then have c: "cstr (?d @ s @ [0]) = cstr ?d" by (simp only: cstr_append if_True)
  have l: "strlen ?d < length ?d" using z by (rule strlen_less)
  then have d: "drop (Suc (strlen ?d)) (?d @ s @ [0]) = drop (Suc (strlen ?d)) ?d @ s @ [0]" by simp
  have "drop (strlen ?d) t = [] \<or> last (drop (strlen ?d) t) = 0"
    using 2(2) by (cases "strlen ?d < length t") (auto split: if_splits)
  with 2 have "split_strs (drop (strlen ?d) t @ s @ [0]) = split_strs (drop (strlen ?d) t) @ [s]" by blast
  then show ?case
    using split_strs_step [of "?d @ s @ [0]"] split_strs_step [of ?d] c d by (simp add: strlen_def)
qed

lemma str_of_prefix:
  assumes "k < n" "n \<le> length d" "d ! (n - 1) = 0"
  shows "cstr (drop k d) = cstr (drop k (take n d))" and "0 \<in> set (drop k (take n d))"
proof -
  have "drop k d = drop k (take n d) @ drop n d"
    using assms(1,2) by (metis append_take_drop_id diff_is_0_eq drop0 drop_append length_take less_imp_le min_absorb2)
  moreover show "0 \<in> set (drop k (take n d))"
    using assms by (auto simp: in_set_conv_nth intro!: exI [of _ "n - 1 - k"])
  ultimately show "cstr (drop k d) = cstr (drop k (take n d))" by (simp add: cstr_append)
qed

lemma str_of_cong:
  assumes "k < n" "n \<le> length d" "d ! (n - 1) = 0" "take n d' = take n d"
  shows "cstr (drop k d') = cstr (drop k d)"
proof -
  have n: "n \<le> length d'" using assms(2,4) by (metis length_take min_absorb2 nat_le_linear take_all)
  moreover have "d' ! (n - 1) = 0"
    using assms by (metis diff_less less_imp_Suc_add nth_take zero_less_one zero_less_Suc)
  ultimately show ?thesis using assms str_of_prefix(1) by metis
qed

text \<open>The invariant of a map survives a change of its context that keeps the hashes of its keys.\<close>

lemma hashmap_inv_ctx:
  assumes inv: "hashmap_inv m ctx"
    and eq: "\<And>e. e \<in> set (hashmap__for_each_entry m) \<Longrightarrow> hash_fn m (ent_key e) ctx' = hash_fn m (ent_key e) ctx"
  shows "hashmap_inv m ctx'"
proof (cases "buckets m")
  case None
  then show ?thesis using inv by (simp add: hashmap_inv_def)
next
  case (Some bs)
  have "bucket_index m ctx' (ent_key e) = bucket_index m ctx (ent_key e)"
    if "i < length bs" "e \<in> set (bs ! i)" for i e
  proof -
    have "e \<in> set (hashmap__for_each_entry m)"
      using inv Some that by (auto simp: hashmap_inv_def hashmap__for_each_entry_def)
    then show ?thesis using eq by (simp add: bucket_index_def)
  qed
  then show ?thesis using inv Some unfolding hashmap_inv_def by (auto simp del: length_concat)
qed

lemma filter_le1_distinct:
  "(\<forall>k. length (filter (\<lambda>e. f e = g k) es) \<le> 1) \<longleftrightarrow> distinct (map f es)" if "\<And>e. \<exists>k. f e = g k"
proof (induction es)
  case (Cons e es)
  have "length (filter (\<lambda>x. f x = g k) (e # es)) \<le> 1 \<longleftrightarrow>
      (if f e = g k then f e \<notin> f ` set es else length (filter (\<lambda>x. f x = g k) es) \<le> 1)" for k
    by (force simp: filter_empty_conv)
  moreover have "f e \<notin> f ` set es \<Longrightarrow> f e = g k \<Longrightarrow> filter (\<lambda>x. f x = g k) es = []" for k
    by (force simp: filter_empty_conv)
  ultimately show ?case using Cons that [of e]
    by (metis (no_types, lifting) distinct.simps(2) image_set le_zero_eq length_0_conv list.simps(9) zero_le)
qed simp

lemma strset_unique_distinct:
  assumes "equal_fn m = strset_equal_fn"
  shows "hashmap_unique m d \<longleftrightarrow> distinct (map (\<lambda>e. str_of d (ent_key e)) (hashmap__for_each_entry m))"
  unfolding hashmap_unique_def hm_all_def assms strset_equal_fn_str
  by (rule filter_le1_distinct) blast

context hash_contract
begin

lemma entries_hm_all:
  "equal_fn m = ef \<Longrightarrow> e \<in> set (hashmap__for_each_entry m) \<longleftrightarrow> e \<in> set (hm_all m ctx (ent_key e))"
  by (simp add: hm_all_def ef_refl)

lemma insert_new_entries:
  assumes i: "hashmap_inv m ctx" "hash_fn m = hf" "equal_fn m = ef" "hm_all m ctx k = []"
    and ins: "hashmap_insert cok mok m ctx k v HASHMAP_ADD = (r, m', okey, oval)"
  shows "set (hashmap__for_each_entry m') =
     (if r = None then {\<lparr>ent_key = k, ent_value = v\<rparr>} else {}) \<union> set (hashmap__for_each_entry m)"
proof -
  have s: "HASHMAP_ADD = HASHMAP_APPEND \<or> HASHMAP_ADD \<noteq> HASHMAP_UPDATE \<and> hm_all m ctx k = []"
    using i(4) by simp
  note n = insert_new [OF i(1-3) ins s]
  have "set (hm_all m' ctx k') =
    (if r = None \<and> ef k k' ctx then {\<lparr>ent_key = k, ent_value = v\<rparr>} else {}) \<union> set (hm_all m ctx k')" for k'
  proof (cases r)
    case None
    show ?thesis unfolding n(6) [OF None] using None by simp
  next
    case (Some e)
    then show ?thesis using n(7) [of k'] by auto
  qed
  then have main: "e \<in> set (hashmap__for_each_entry m') \<longleftrightarrow>
    e \<in> (if r = None \<and> ef k (ent_key e) ctx then {\<lparr>ent_key = k, ent_value = v\<rparr>} else {})
      \<union> set (hashmap__for_each_entry m)" for e
    unfolding Un_iff entries_hm_all [OF n(3)] entries_hm_all [OF i(3)] by blast
  show ?thesis
  proof (rule set_eqI)
    fix e :: hashmap_entry
    show "e \<in> set (hashmap__for_each_entry m') \<longleftrightarrow> e \<in>
      (if r = None then {\<lparr>ent_key = k, ent_value = v\<rparr>} else {}) \<union> set (hashmap__for_each_entry m)"
      unfolding main using ef_refl [of k] by (cases "e = \<lparr>ent_key = k, ent_value = v\<rparr>") simp_all
  qed
qed

end

section \<open>The invariant of the string set\<close>

definition strset_used :: "strset \<Rightarrow> bytes" where
  "strset_used ss = take (unat (strs_data_len ss)) (strs_data ss)"

text \<open>
  The buffer is as long as its capacity says, within the limit given at creation,
  which fits \<open>int\<close>; the used part consists of terminated strings; and the hash
  map indexes exactly the strings of the used part, one offset for each.
\<close>

definition strset_index :: "strset \<Rightarrow> bool" where
  "strset_index ss \<longleftrightarrow>
     hash_fn (strs_hash ss) = strset_hash_fn \<and> equal_fn (strs_hash ss) = strset_equal_fn \<and>
     hashmap_inv (strs_hash ss) (strs_data ss) \<and>
     distinct (map (\<lambda>e. str_of (strs_data ss) (ent_key e)) (hashmap__for_each_entry (strs_hash ss))) \<and>
     (\<forall>e \<in> set (hashmap__for_each_entry (strs_hash ss)).
        ent_value e = ent_key e \<and> unat (ent_key e) < unat (strs_data_len ss))"

definition strset_buf :: "strset \<Rightarrow> bool" where
  "strset_buf ss \<longleftrightarrow>
     length (strs_data ss) = unat (strs_data_cap ss) \<and>
     unat (strs_data_len ss) \<le> unat (strs_data_cap ss) \<and>
     unat (strs_data_cap ss) \<le> unat (strs_data_max_len ss) \<and> unat (strs_data_max_len ss) < 2 ^ 31 \<and>
     (strs_data_len ss = 0 \<or> strs_data ss ! (unat (strs_data_len ss) - 1) = 0)"

definition indexed_strs :: "strset \<Rightarrow> bytes set" where
  "indexed_strs ss = (\<lambda>e. str_of (strs_data ss) (ent_key e)) ` set (hashmap__for_each_entry (strs_hash ss))"

definition strset_inv :: "strset \<Rightarrow> bool" where
  "strset_inv ss \<longleftrightarrow> strset_buf ss \<and> strset_index ss \<and> indexed_strs ss = set (split_strs (strset_used ss))"

definition str_arg_ok :: "strset \<Rightarrow> str_ptr \<Rightarrow> bool" where
  "str_arg_ok ss s = (case s of Outside b \<Rightarrow> 0 \<in> set b \<and> length b < 2 ^ 63
                              | Inside off \<Rightarrow> off < unat (strs_data_len ss))"

lemma strset_buf_str:
  assumes "strset_buf ss" "k < unat (strs_data_len ss)"
  shows "cstr (drop k (strs_data ss)) = cstr (drop k (strset_used ss))"
    and "0 \<in> set (drop k (strset_used ss))"
    and "take (unat (strs_data_len ss)) d = strset_used ss \<Longrightarrow> cstr (drop k d) = cstr (drop k (strs_data ss))"
proof -
  have h: "unat (strs_data_len ss) \<le> length (strs_data ss)" "strs_data ss ! (unat (strs_data_len ss) - 1) = 0"
    using assms by (auto simp: strset_buf_def)
  show "cstr (drop k (strs_data ss)) = cstr (drop k (strset_used ss))"
    and "0 \<in> set (drop k (strset_used ss))"
    using str_of_prefix [OF assms(2) h] by (simp_all add: strset_used_def)
  show "take (unat (strs_data_len ss)) d = strset_used ss \<Longrightarrow> cstr (drop k d) = cstr (drop k (strs_data ss))"
    unfolding strset_used_def by (rule str_of_cong [OF assms(2) h])
qed

text \<open>Writing behind the used part keeps the index.\<close>

lemma strset_index_buf:
  assumes inv: "strset_index ss" "strset_buf ss"
    and d: "take (unat (strs_data_len ss)) d = strset_used ss"
  shows "strset_index (ss\<lparr>strs_data := d, strs_data_cap := c\<rparr>)"
    and "indexed_strs (ss\<lparr>strs_data := d, strs_data_cap := c\<rparr>) = indexed_strs ss"
proof -
  have eq: "str_of d (ent_key e) = str_of (strs_data ss) (ent_key e)"
    if "e \<in> set (hashmap__for_each_entry (strs_hash ss))" for e
    using inv(1) that by (intro strset_buf_str(3) [OF inv(2) _ d]) (simp add: strset_index_def)
  then show "indexed_strs (ss\<lparr>strs_data := d, strs_data_cap := c\<rparr>) = indexed_strs ss"
    by (simp add: indexed_strs_def)
  have "hashmap_inv (strs_hash ss) d"
  proof (rule hashmap_inv_ctx)
    show "hashmap_inv (strs_hash ss) (strs_data ss)" using inv(1) by (simp add: strset_index_def)
    show "hash_fn (strs_hash ss) (ent_key e) d = hash_fn (strs_hash ss) (ent_key e) (strs_data ss)"
      if "e \<in> set (hashmap__for_each_entry (strs_hash ss))" for e
      using inv(1) eq [OF that] by (simp add: strset_index_def strset_hash_fn_str)
  qed
  then show "strset_index (ss\<lparr>strs_data := d, strs_data_cap := c\<rparr>)"
    using inv(1) eq by (simp add: strset_index_def cong: map_cong)
qed

abbreviation arg_str :: "strset \<Rightarrow> str_ptr \<Rightarrow> bytes" where
  "arg_str ss s \<equiv> cstr (str_at (strs_data ss) s)"

lemma arg_terminated:
  assumes "strset_buf ss" "str_arg_ok ss s"
  shows "0 \<in> set (str_at (strs_data ss) s)" and "length (arg_str ss s) < 2 ^ 63"
proof -
  have len: "length (strs_data ss) < 2 ^ 31" using assms(1) by (auto simp: strset_buf_def)
  show z: "0 \<in> set (str_at (strs_data ss) s)"
  proof (cases s)
    case (Outside b)
    then show ?thesis using assms(2) by (simp add: str_arg_ok_def)
  next
    case (Inside off)
    with assms(2) have o: "off < unat (strs_data_len ss)" by (simp add: str_arg_ok_def)
    have "set (drop off (strset_used ss)) \<subseteq> set (drop off (strs_data ss))"
      unfolding strset_used_def drop_take by (rule set_take_subset)
    with strset_buf_str(2) [OF assms(1) o] Inside show ?thesis by auto
  qed
  have "length (str_at (strs_data ss) s) < 2 ^ 63"
    using assms(2) len by (cases s) (simp_all add: str_arg_ok_def)
  then show "length (arg_str ss s) < 2 ^ 63"
    using strlen_less [OF z] unfolding strlen_def by simp
qed

lemma fixup_copies:
  assumes "strset_buf ss" "str_arg_ok ss s"
  obtains src where "strset_fixup moved (strs_data_len ss) (strs_data ss @ z) s = Some src"
    and "take (Suc (strlen (str_at (strs_data ss) s))) src = arg_str ss s @ [0]"
proof (cases s)
  case (Outside b)
  with that [of b] cstr_terminated [of b] assms(2) show ?thesis by (simp add: str_arg_ok_def)
next
  case (Inside off)
  then have o: "off < unat (strs_data_len ss)" using assms(2) by (simp add: str_arg_ok_def)
  then have l: "off < length (strs_data ss)" using assms(1) by (simp add: strset_buf_def)
  have t: "0 \<in> set (drop off (strs_data ss))" using arg_terminated(1) [OF assms] Inside by simp
  have "take (Suc (strlen (drop off (strs_data ss)))) (drop off (strs_data ss) @ z) = cstr (drop off (strs_data ss)) @ [0]"
    using cstr_terminated [OF t] strlen_less [OF t] by simp
  then show ?thesis using that [of "drop off (strs_data ss @ z)"] Inside o l by simp
qed

lemma str_append_cases:
  assumes buf: "strset_buf ss" and arg: "str_arg_ok ss s"
  obtains (fail) "strset_str_append env ss s = Some (Inl ENOMEM, ss)"
      and "\<not> realloc_ok env \<or> unat (strs_data_max_len ss) < unat (strs_data_len ss) + length (arg_str ss s) + 1"
  | (ok) d c n rest where "strset_str_append env ss s = Some (Inr n, ss\<lparr>strs_data := d, strs_data_cap := c\<rparr>)"
      and "unat n = Suc (length (arg_str ss s))" and "d = strset_used ss @ arg_str ss s @ [0] @ rest"
      and "unat (strs_data_len ss) + unat n \<le> unat c" and "strset_buf (ss\<lparr>strs_data := d, strs_data_cap := c\<rparr>)"
proof -
  let ?str = "arg_str ss s" and ?L = "unat (strs_data_len ss)"
  define n :: u64 where "n = of_nat (strlen (str_at (strs_data ss) s)) + 1"
  have sl: "strlen (str_at (strs_data ss) s) = length ?str" by (simp add: strlen_def)
  have b: "length (strs_data ss) = unat (strs_data_cap ss)" "?L \<le> unat (strs_data_cap ss)"
    "unat (strs_data_cap ss) \<le> unat (strs_data_max_len ss)" "unat (strs_data_max_len ss) < 2 ^ 31"
    using buf by (simp_all add: strset_buf_def)
  have n: "unat n = Suc (length ?str)"
    using arg_terminated(2) [OF buf arg] sl by (simp add: n_def unat_word_ariths unat_of_nat)
  have sum: "?L + unat n < 2 ^ 64" using n arg_terminated(2) [OF buf arg] b by simp
  let ?m = "libbpf_add_mem env (strs_data ss) (strs_data_cap ss) 1 (strs_data_len ss) (strs_data_max_len ss) n"
  show ?thesis
  proof (cases ?m)
    case None
    have "\<not> 2 ^ 64 \<le> unat (grown_cnt (strs_data_cap ss) (strs_data_max_len ss) (strs_data_len ss + n)) * unat (1 :: u64)"
      using unat_less_u64 by (simp add: not_le)
    with add_mem_None [OF None sum] n
    have "\<not> realloc_ok env \<or> unat (strs_data_max_len ss) < ?L + length ?str + 1" by auto
    with None show ?thesis
      by (intro fail) (simp_all add: strset_str_append_def strset_add_str_mem_def Let_def n_def)
  next
    case (Some r)
    obtain d c p moved where r: "r = (d, c, p, moved)" by (cases r)
    have "length (strs_data ss) = unat (strs_data_cap ss) * unat (1 :: u64)"
      "unat (strs_data_cap ss) * unat (1 :: u64) < 2 ^ 64" using b by simp_all
    note m = add_mem_Some [OF Some [unfolded r] this b(2) sum]
    from m(4) obtain z where d: "d = strs_data ss @ z" and z: "length z = unat c - unat (strs_data_cap ss)" by auto
    have p: "unat p = ?L" using m(5) by simp
    obtain src where src: "strset_fixup moved (strs_data_len ss) d s = Some src"
      and cp: "take (unat n) src = ?str @ [0]"
      using fixup_copies [OF buf arg, of moved z] d n sl by auto
    define d' where "d' = mem_write d ?L (?str @ [0])"
    have app: "strset_str_append env ss s = Some (Inr n, ss\<lparr>strs_data := d', strs_data_cap := c\<rparr>)"
      using Some r src cp p unfolding strset_str_append_def strset_add_str_mem_def
      by (simp add: n_def [symmetric] Let_def d'_def)
    have L: "?L \<le> length d" using b d by simp
    have d': "d' = strset_used ss @ ?str @ [0] @ drop (?L + length (?str @ [0])) d"
      unfolding d'_def mem_write_def using d b by (simp add: strset_used_def)
    have len: "length d' = unat c" unfolding d'_def using m(1,2) n d z b by simp
    have "strs_data_len ss = 0 \<or> 0 < ?L" by (simp add: unat_gt_0)
    then have "strs_data_len ss = 0 \<or> d' ! (?L - 1) = 0"
      using buf b unfolding d' by (auto simp: strset_buf_def strset_used_def nth_append)
    then have "strset_buf (ss\<lparr>strs_data := d', strs_data_cap := c\<rparr>)"
      using b m(1,2,6) len n by (auto simp: strset_buf_def)
    with app n d' m(1) show ?thesis by (intro ok)
  qed
qed

lemma append_inv:
  assumes inv: "strset_inv ss" and d: "d = strset_used ss @ str @ [0] @ rest" "0 \<notin> set str"
    and buf: "strset_buf (ss\<lparr>strs_data := d, strs_data_cap := c\<rparr>)"
  shows "strset_inv (ss\<lparr>strs_data := d, strs_data_cap := c\<rparr>)"
    and "strset_used (ss\<lparr>strs_data := d, strs_data_cap := c\<rparr>) = strset_used ss"
    and "str_of d (strs_data_len ss) = str"
proof -
  have i: "strset_buf ss" "strset_index ss" "indexed_strs ss = set (split_strs (strset_used ss))"
    using inv by (simp_all add: strset_inv_def)
  have L: "length (strset_used ss) = unat (strs_data_len ss)"
    using i(1) by (simp add: strset_used_def strset_buf_def)
  then have t: "take (unat (strs_data_len ss)) d = strset_used ss" by (simp add: d)
  then show u: "strset_used (ss\<lparr>strs_data := d, strs_data_cap := c\<rparr>) = strset_used ss"
    by (simp add: strset_used_def)
  show "strset_inv (ss\<lparr>strs_data := d, strs_data_cap := c\<rparr>)"
    using strset_index_buf [OF i(2,1) t] i(3) buf u by (simp add: strset_inv_def)
  have "drop (unat (strs_data_len ss)) d = str @ [0] @ rest" using L by (simp add: d)
  then show "str_of d (strs_data_len ss) = str" using d(2) by (simp add: cstr_append)
qed

lemma index_lookup0:
  assumes i: "strset_index ss"
  shows "hm_all (strs_hash ss) (strs_data ss) k = [] \<longleftrightarrow> str_of (strs_data ss) k \<notin> indexed_strs ss"
    and "hm_all (strs_hash ss) (strs_data ss) k = e # es \<Longrightarrow>
      ent_value e = ent_key e \<and> unat (ent_key e) < unat (strs_data_len ss) \<and>
      str_of (strs_data ss) (ent_key e) = str_of (strs_data ss) k"
proof -
  have h: "hm_all (strs_hash ss) (strs_data ss) k =
    filter (\<lambda>e. str_of (strs_data ss) (ent_key e) = str_of (strs_data ss) k) (hashmap__for_each_entry (strs_hash ss))"
    using i by (simp add: hm_all_def strset_index_def strset_equal_fn_str)
  show "hm_all (strs_hash ss) (strs_data ss) k = [] \<longleftrightarrow> str_of (strs_data ss) k \<notin> indexed_strs ss"
    unfolding h indexed_strs_def filter_empty_conv image_iff by metis
  assume "hm_all (strs_hash ss) (strs_data ss) k = e # es"
  then have "e \<in> set (filter (\<lambda>e. str_of (strs_data ss) (ent_key e) = str_of (strs_data ss) k)
      (hashmap__for_each_entry (strs_hash ss)))" unfolding h by simp
  then show "ent_value e = ent_key e \<and> unat (ent_key e) < unat (strs_data_len ss) \<and>
      str_of (strs_data ss) (ent_key e) = str_of (strs_data ss) k"
    using i by (simp add: strset_index_def)
qed

lemma index_lookup:
  assumes "strset_inv ss"
  shows "hm_all (strs_hash ss) (strs_data ss) k = [] \<longleftrightarrow> str_of (strs_data ss) k \<notin> set (split_strs (strset_used ss))"
    and "hm_all (strs_hash ss) (strs_data ss) k = e # es \<Longrightarrow>
      ent_value e = ent_key e \<and> unat (ent_key e) < unat (strs_data_len ss) \<and>
      str_of (strs_data ss) (ent_key e) = str_of (strs_data ss) k"
  using assms index_lookup0 [of ss k] unfolding strset_inv_def by blast+

lemma int_offset:
  assumes "unat (x :: u64) < 2 ^ 31"
  shows "unat (ucast x :: u32) = unat x" and "0 \<le> sint (ucast x :: u32)"
proof -
  show u: "unat (ucast x :: u32) = unat x" using assms by (simp add: unsigned_ucast_eq take_bit_nat_eq_self)
  have "uint (ucast x :: u32) < 2 ^ 31"
    using u assms by (metis of_nat_less_iff of_nat_numeral of_nat_power uint_nat)
  then show "0 \<le> sint (ucast x :: u32)" by (simp add: sint_uint signed_take_bit_eq_if_positive bit_iff_odd)
qed

text \<open>A failed insertion of an absent string leaves the set as it was.\<close>

lemma strset_hash_update:
  assumes inv: "strset_index ss" and abs: "hm_all (strs_hash ss) (strs_data ss) k = []"
    and ins: "hashmap_insert cok mok (strs_hash ss) (strs_data ss) k k HASHMAP_ADD = (r, hash, okey, oval)"
  shows "hash_fn hash = strset_hash_fn" "equal_fn hash = strset_equal_fn" "hashmap_inv hash (strs_data ss)"
    and "distinct (map (\<lambda>e. str_of (strs_data ss) (ent_key e)) (hashmap__for_each_entry hash))"
    and "set (hashmap__for_each_entry hash) =
      (if r = None then {\<lparr>ent_key = k, ent_value = k\<rparr>} else {}) \<union> set (hashmap__for_each_entry (strs_hash ss))"
    and "r = None \<or> r = Some ENOMEM \<and> (\<not> cok \<or> \<not> mok \<or> cap_bits (strs_hash ss) = 60)"
proof -
  have i: "hashmap_inv (strs_hash ss) (strs_data ss)" "hash_fn (strs_hash ss) = strset_hash_fn"
    "equal_fn (strs_hash ss) = strset_equal_fn"
    using inv by (simp_all add: strset_index_def)
  have u: "hashmap_unique (strs_hash ss) (strs_data ss)"
    using inv unfolding strset_unique_distinct [OF i(3)] by (simp add: strset_index_def)
  show h: "hash_fn hash = strset_hash_fn" "equal_fn hash = strset_equal_fn" "hashmap_inv hash (strs_data ss)"
    using strs.insert_inv [OF i ins] by simp_all
  show "distinct (map (\<lambda>e. str_of (strs_data ss) (ent_key e)) (hashmap__for_each_entry hash))"
    using strs.insert_unique [OF i u ins] unfolding strset_unique_distinct [OF h(2)] by simp
  show "set (hashmap__for_each_entry hash) =
      (if r = None then {\<lparr>ent_key = k, ent_value = k\<rparr>} else {}) \<union> set (hashmap__for_each_entry (strs_hash ss))"
    by (rule strs.insert_new_entries [OF i abs ins])
  have "HASHMAP_ADD = HASHMAP_APPEND \<or> HASHMAP_ADD \<noteq> HASHMAP_UPDATE \<and> hm_all (strs_hash ss) (strs_data ss) k = []"
    using abs by simp
  from strs.insert_new(7) [OF i ins this]
  show "r = None \<or> r = Some ENOMEM \<and> (\<not> cok \<or> \<not> mok \<or> cap_bits (strs_hash ss) = 60)" by blast
qed

lemma strset_hash_fail:
  assumes "strset_inv ss" "hm_all (strs_hash ss) (strs_data ss) k = []"
    and "hashmap_insert cok mok (strs_hash ss) (strs_data ss) k k HASHMAP_ADD = (Some e, hash, okey, oval)"
  shows "strset_inv (ss\<lparr>strs_hash := hash\<rparr>)"
  using strset_hash_update [OF _ assms(2,3)] assms(1)
  by (simp add: strset_inv_def strset_index_def strset_buf_def indexed_strs_def strset_used_def)

text \<open>A new string behind the used part becomes the last string of the set.\<close>

lemma strset_commit:
  assumes inv: "strset_inv ss" and abs: "hm_all (strs_hash ss) (strs_data ss) (strs_data_len ss) = []"
    and ins: "hashmap_insert cok mok (strs_hash ss) (strs_data ss) (strs_data_len ss) (strs_data_len ss) HASHMAP_ADD
        = (None, hash, okey, oval)"
    and d: "strs_data ss = strset_used ss @ str @ [0] @ rest" "0 \<notin> set str"
    and n: "unat n = Suc (length str)" "unat (strs_data_len ss) + unat n \<le> unat (strs_data_cap ss)"
  defines "ss' \<equiv> ss\<lparr>strs_hash := hash, strs_data_len := strs_data_len ss + n\<rparr>"
  shows "strset_inv ss'" and "strset_used ss' = strset_used ss @ str @ [0]"
    and "unat (strs_data_len ss') = unat (strs_data_len ss) + unat n"
proof -
  have i: "strset_buf ss" "strset_index ss" "indexed_strs ss = set (split_strs (strset_used ss))"
    using inv by (simp_all add: strset_inv_def)
  note h = strset_hash_update [OF i(2) abs ins]
  have L: "length (strset_used ss) = unat (strs_data_len ss)"
    using i(1) by (simp add: strset_used_def strset_buf_def)
  have "unat (strs_data_len ss) + unat n < 2 ^ 64" using n(2) unat_less_u64 [of "strs_data_cap ss"] by simp
  then have len: "unat (strs_data_len ss + n) = unat (strs_data_len ss) + unat n" by (rule unat_add_u64)
  then show "unat (strs_data_len ss') = unat (strs_data_len ss) + unat n" by (simp add: ss'_def)
  have "take (unat (strs_data_len ss) + unat n) (strs_data ss) = strset_used ss @ str @ [0]"
    by (subst d(1)) (simp add: L n)
  then show u: "strset_used ss' = strset_used ss @ str @ [0]"
    by (subst strset_used_def) (simp add: ss'_def len)
  have s: "str_of (strs_data ss) (strs_data_len ss) = str"
    by (subst d(1)) (simp add: L [symmetric] cstr_append d(2))
  have "(strset_used ss @ str @ [0] @ rest) ! (unat (strs_data_len ss) + unat n - 1) = 0"
    using L n(1) by (simp add: nth_append)
  then have "strset_buf ss'" using i(1) n(2) d(1) by (simp add: strset_buf_def ss'_def len)
  moreover have "strset_index ss'"
    using i(2) h(1-5) n(1) by (auto simp: strset_index_def ss'_def len)
  moreover have "indexed_strs ss' = insert str (indexed_strs ss)"
    using s h(5) by (simp add: indexed_strs_def ss'_def)
  moreover have "strset_used ss = [] \<or> last (strset_used ss) = 0"
    using i(1) L by (cases "unat (strs_data_len ss)") (auto simp: strset_buf_def strset_used_def take_Suc_conv_app_nth)
  then have "split_strs (strset_used ss') = split_strs (strset_used ss) @ [str]"
    unfolding u by (rule split_strs_append [OF _ d(2)])
  ultimately show "strset_inv ss'" using i(3) by (simp add: strset_inv_def)
qed

lemma add_str_refines:
  assumes inv: "strset_inv ss" and arg: "str_arg_ok ss s"
  defines "str \<equiv> arg_str ss s"
  shows "\<exists>r ss'. strset__add_str env cok mok ss s = Some (r, ss') \<and> strset_inv ss' \<and>
     (case r of
        Inl e \<Rightarrow> e = ENOMEM \<and> strset_used ss' = strset_used ss \<and>
          (\<not> realloc_ok env \<or> \<not> cok \<or> \<not> mok \<or> cap_bits (strs_hash ss) = 60 \<or>
           unat (strs_data_max_len ss) < unat (strs_data_len ss) + length str + 1)
      | Inr off \<Rightarrow> 0 \<le> sint off \<and> unat off < unat (strs_data_len ss') \<and>
          cstr (drop (unat off) (strs_data ss')) = str \<and>
          strset_used ss' = (if str \<in> set (split_strs (strset_used ss)) then strset_used ss
                             else strset_used ss @ str @ [0]))"
proof -
  have buf: "strset_buf ss" using inv by (simp add: strset_inv_def)
  then have mx: "unat (strs_data_len ss) < 2 ^ 31" by (auto simp: strset_buf_def)
  show ?thesis
  proof (cases rule: str_append_cases [OF buf arg, of env, case_names fail ok])
    case fail
    then show ?thesis using inv by (auto simp: strset__add_str_def str_def)
  next
    case (ok d c n rest)
    define s1 where "s1 = ss\<lparr>strs_data := d, strs_data_cap := c\<rparr>"
    have z: "0 \<notin> set str" by (simp add: str_def cstr_no_zero)
    note d = ok(3) [folded str_def]
    note a = append_inv [OF inv d z ok(5), folded s1_def]
    have l: "strs_data_len s1 = strs_data_len ss" "strs_hash s1 = strs_hash ss" "strs_data s1 = d"
      by (simp_all add: s1_def)
    obtain r hash ok' ov where ins: "hashmap_insert cok mok (strs_hash s1) (strs_data s1)
        (strs_data_len s1) (strs_data_len s1) HASHMAP_ADD = (r, hash, ok', ov)" by (metis prod.exhaust)
    have add: "strset__add_str env cok mok ss s = (if r = Some EEXIST then Some (Inr (ucast ok'), s1\<lparr>strs_hash := hash\<rparr>)
        else case r of Some e \<Rightarrow> Some (Inl e, s1\<lparr>strs_hash := hash\<rparr>)
             | None \<Rightarrow> Some (Inr (ucast (strs_data_len s1)), s1\<lparr>strs_hash := hash, strs_data_len := strs_data_len s1 + n\<rparr>))"
      unfolding strset__add_str_def ok(1) s1_def [symmetric] by (simp add: ins Let_def)
    have i1: "hashmap_inv (strs_hash s1) (strs_data s1)" "hash_fn (strs_hash s1) = strset_hash_fn"
      "equal_fn (strs_hash s1) = strset_equal_fn"
      using a(1) by (simp_all add: strset_inv_def strset_index_def)
    show ?thesis
    proof (cases "hm_all (strs_hash s1) (strs_data s1) (strs_data_len s1)")
      case (Cons e es)
      note f = strs.insert_found [OF i1 ins _ Cons]
      have r: "r = Some EEXIST" "hash = strs_hash s1" "ok' = ent_key e" using f(1,6) by simp_all
      note e = index_lookup(2) [OF a(1) Cons]
      have "str \<in> set (split_strs (strset_used ss))"
        using index_lookup(1) [OF a(1), of "strs_data_len s1"] Cons a(2,3) l by simp
      moreover have "s1\<lparr>strs_hash := strs_hash s1\<rparr> = s1" by simp
      ultimately show ?thesis using add r e a l(1,3) mx int_offset [of "ent_key e"] by simp
    next
      case Nil
      have "strset_index s1" using a(1) by (simp add: strset_inv_def)
      note u = strset_hash_update [OF this Nil ins]
      have ns: "str \<notin> set (split_strs (strset_used ss))"
        using index_lookup(1) [OF a(1), of "strs_data_len s1"] Nil a(2,3) l by simp
      show ?thesis
      proof (cases r)
        case (Some e)
        note v = strset_hash_fail [OF a(1) Nil ins [unfolded Some]]
        show ?thesis using Some add u(6) v a(2) l by (auto simp: strset_used_def)
      next
        case None
        have "strs_data s1 = strset_used s1 @ str @ [0] @ rest" "unat (strs_data_len s1) + unat n \<le> unat (strs_data_cap s1)"
          using d a(2) l ok(4) by (simp_all add: s1_def)
        note v = strset_commit [OF a(1) Nil ins [unfolded None] this(1) z ok(2) [folded str_def] this(2)]
        show ?thesis using None add v a(2,3) l ns ok(2) int_offset [of "strs_data_len ss"] mx by simp
      qed
    qed
  qed
qed

lemma find_str_refines:
  assumes inv: "strset_inv ss" and arg: "str_arg_ok ss s"
  defines "str \<equiv> arg_str ss s"
  shows "\<exists>r ss'. strset__find_str env ss s = Some (r, ss') \<and> strset_inv ss' \<and> strset_used ss' = strset_used ss \<and>
     (case r of
        Inl e \<Rightarrow> e = ENOENT \<and> str \<notin> set (split_strs (strset_used ss)) \<or>
          e = ENOMEM \<and> (\<not> realloc_ok env \<or>
            unat (strs_data_max_len ss) < unat (strs_data_len ss) + length str + 1)
      | Inr off \<Rightarrow> str \<in> set (split_strs (strset_used ss)) \<and> 0 \<le> sint off \<and>
          unat off < unat (strs_data_len ss') \<and> cstr (drop (unat off) (strs_data ss')) = str)"
proof -
  have buf: "strset_buf ss" using inv by (simp add: strset_inv_def)
  then have mx: "unat (strs_data_len ss) < 2 ^ 31" by (auto simp: strset_buf_def)
  show ?thesis
  proof (cases rule: str_append_cases [OF buf arg, of env, case_names fail ok])
    case fail
    then show ?thesis using inv by (auto simp: strset__find_str_def str_def)
  next
    case (ok d c n rest)
    define s1 where "s1 = ss\<lparr>strs_data := d, strs_data_cap := c\<rparr>"
    have z: "0 \<notin> set str" by (simp add: str_def cstr_no_zero)
    note a = append_inv [OF inv ok(3) [folded str_def] z ok(5), folded s1_def]
    have l: "strs_data_len s1 = strs_data_len ss" "strs_data s1 = d" by (simp_all add: s1_def)
    have i1: "hashmap_inv (strs_hash s1) (strs_data s1)" "hash_fn (strs_hash s1) = strset_hash_fn"
      "equal_fn (strs_hash s1) = strset_equal_fn"
      using a(1) by (simp_all add: strset_inv_def strset_index_def)
    have fnd: "strset__find_str env ss s = Some (case hm_abs (strs_hash s1) (strs_data s1) (strs_data_len s1) of
        Some e \<Rightarrow> (Inr (ucast (ent_value e)), s1) | None \<Rightarrow> (Inl ENOENT, s1))"
      unfolding strset__find_str_def ok(1) s1_def [symmetric]
      by (simp add: strs.find_abs [OF i1] split: option.splits)
    have m: "hm_all (strs_hash s1) (strs_data s1) (strs_data_len s1) = [] \<longleftrightarrow> str \<notin> set (split_strs (strset_used ss))"
      using index_lookup(1) [OF a(1), of "strs_data_len s1"] a(2,3) l by simp
    show ?thesis
    proof (cases "hm_all (strs_hash s1) (strs_data s1) (strs_data_len s1)")
      case Nil
      then show ?thesis using fnd m a by (simp add: hm_abs_def)
    next
      case (Cons e es)
      note e = index_lookup(2) [OF a(1) Cons]
      from Cons have "hm_abs (strs_hash s1) (strs_data s1) (strs_data_len s1) = Some e" by (simp add: hm_abs_def)
      then show ?thesis using Cons fnd m a e l mx int_offset [of "ent_key e"] by simp
    qed
  qed
qed

lemma index_loop_step:
  assumes i: "strset_index ss" and off: "off < unat (strs_data_len ss)" "unat (strs_data_len ss) < 2 ^ 31"
    and ins: "hashmap_insert cok mok (strs_hash ss) (strs_data ss) (of_nat off) (of_nat off) HASHMAP_ADD = (r, hash, x, y)"
  shows "r = None \<or> r = Some EEXIST \<Longrightarrow> strset_index (ss\<lparr>strs_hash := hash\<rparr>)"
    and "r = None \<or> r = Some EEXIST \<Longrightarrow>
      indexed_strs (ss\<lparr>strs_hash := hash\<rparr>) = insert (cstr (drop off (strs_data ss))) (indexed_strs ss)"
    and "\<not> (r = None \<or> r = Some EEXIST) \<Longrightarrow> r = Some ENOMEM"
proof -
  have k: "unat (of_nat off :: u64) = off" using off by (simp add: unat_of_nat)
  have i1: "hashmap_inv (strs_hash ss) (strs_data ss)" "hash_fn (strs_hash ss) = strset_hash_fn"
    "equal_fn (strs_hash ss) = strset_equal_fn"
    using i by (simp_all add: strset_index_def)
  let ?goal = "(r = None \<or> r = Some EEXIST \<longrightarrow> strset_index (ss\<lparr>strs_hash := hash\<rparr>) \<and>
    indexed_strs (ss\<lparr>strs_hash := hash\<rparr>) = insert (cstr (drop off (strs_data ss))) (indexed_strs ss)) \<and>
    (\<not> (r = None \<or> r = Some EEXIST) \<longrightarrow> r = Some ENOMEM)"
  have ?goal
  proof (cases "hm_all (strs_hash ss) (strs_data ss) (of_nat off)")
    case Nil
    note u = strset_hash_update [OF i Nil ins]
    have "strset_index (ss\<lparr>strs_hash := hash\<rparr>)" "indexed_strs (ss\<lparr>strs_hash := hash\<rparr>) =
        insert (cstr (drop off (strs_data ss))) (indexed_strs ss)" if "r = None"
      using that u i k off by (auto simp: strset_index_def indexed_strs_def)
    then show ?thesis using u(6) by auto
  next
    case (Cons e es)
    note f = strs.insert_found [OF i1 ins _ Cons]
    have r: "r = Some EEXIST" "hash = strs_hash ss" using f(6) by simp_all
    have "cstr (drop off (strs_data ss)) \<in> indexed_strs ss"
      using index_lookup0(1) [OF i, of "of_nat off"] Cons k by simp
    then show ?thesis using r i by (simp add: insert_absorb)
  qed
  then show "r = None \<or> r = Some EEXIST \<Longrightarrow> strset_index (ss\<lparr>strs_hash := hash\<rparr>)"
    "r = None \<or> r = Some EEXIST \<Longrightarrow>
      indexed_strs (ss\<lparr>strs_hash := hash\<rparr>) = insert (cstr (drop off (strs_data ss))) (indexed_strs ss)"
    "\<not> (r = None \<or> r = Some EEXIST) \<Longrightarrow> r = Some ENOMEM" by blast+
qed

lemma index_loop_ok:
  assumes "strset_buf ss" "strset_index ss" "unat (strs_data_len ss) = length (strs_data ss)"
    and "indexed_strs ss \<union> set (split_strs (drop off (strs_data ss))) = set (split_strs (strs_data ss))"
  shows "case strset_index_loop alloc i ss off of
      Inl e \<Rightarrow> e = ENOMEM
    | Inr ss' \<Rightarrow> strset_inv ss' \<and> strset_used ss' = strs_data ss \<and> strs_data_max_len ss' = strs_data_max_len ss"
  using assms
proof (induction alloc i ss off rule: strset_index_loop.induct)
  case (1 alloc i ss off)
  show ?case
  proof (cases "off < unat (strs_data_len ss)")
    case False
    then have "strset_index_loop alloc i ss off = Inr ss" by (simp add: strset_index_loop.simps)
    moreover have "strset_used ss = strs_data ss" using 1(4) by (simp add: strset_used_def)
    moreover have "drop off (strs_data ss) = []" using False 1(4) by simp
    ultimately show ?thesis using 1(2,3,5) by (simp add: strset_inv_def)
  next
    case True
    obtain r hash x y where ins: "hashmap_insert (fst (alloc i)) (snd (alloc i)) (strs_hash ss) (strs_data ss)
       (of_nat off) (of_nat off) HASHMAP_ADD = (r, hash, x, y)" by (metis prod.exhaust)
    have "unat (strs_data_len ss) < 2 ^ 31" using 1(2) by (auto simp: strset_buf_def)
    note st = index_loop_step [OF 1(3) True this ins]
    show ?thesis
    proof (cases "r = None \<or> r = Some EEXIST")
      case False
      then show ?thesis using st(3) True ins by (subst strset_index_loop.simps) simp
    next
      case r: True
      let ?ss = "ss\<lparr>strs_hash := hash\<rparr>" and ?off = "off + strlen (drop off (strs_data ss)) + 1"
      have "split_strs (drop off (strs_data ss)) = cstr (drop off (strs_data ss)) # split_strs (drop ?off (strs_data ss))"
        using True 1(4) by (subst split_strs_step) (simp_all add: add.commute add.assoc)
      then have "indexed_strs ?ss \<union> set (split_strs (drop ?off (strs_data ?ss))) = set (split_strs (strs_data ?ss))"
        using st(2) [OF r] 1(5) by auto
      moreover have "strset_buf ?ss" using 1(2) by (simp add: strset_buf_def)
      ultimately have "case strset_index_loop alloc (Suc i) ?ss ?off of Inl e \<Rightarrow> e = ENOMEM
        | Inr ss' \<Rightarrow> strset_inv ss' \<and> strset_used ss' = strs_data ?ss \<and> strs_data_max_len ss' = strs_data_max_len ?ss"
        using 1(1) [OF True ins [symmetric] refl refl] r st(1) [OF r] 1(4) by auto
      moreover have "strset_index_loop alloc i ss off = strset_index_loop alloc (Suc i) ?ss ?off"
        using r True ins by (subst strset_index_loop.simps) auto
      ultimately show ?thesis by (simp split: sum.splits)
    qed
  qed
qed

section \<open>Properties\<close>

text \<open>
  C18. \<^verbatim>\<open>libbpf_add_mem\<close>, the growing buffer under BTF, string sets and the linker:
  when it succeeds, the requested elements fit the new capacity and the returned
  pointer addresses the first unused one, the old content is kept, the rest of the
  buffer is zero, and a buffer that had to grow is within the limit; it fails
  only if the request exceeds the limit, or \<^verbatim>\<open>realloc\<close> fails, or the size overflows.
\<close>

theorem libbpf_add_mem_grows:
  assumes "length data = unat cap_cnt * unat elem_sz" "unat cap_cnt * unat elem_sz < 2 ^ 64"
    and "unat cur_cnt \<le> unat cap_cnt" "unat cur_cnt + unat add_cnt < 2 ^ 64"
  shows "case libbpf_add_mem env data cap_cnt elem_sz cur_cnt max_cnt add_cnt of
      Some (data', cap', p, moved) \<Rightarrow>
        unat cur_cnt + unat add_cnt \<le> unat cap' \<and> unat p = unat cur_cnt * unat elem_sz \<and>
        length data' = unat cap' * unat elem_sz \<and> unat cap' * unat elem_sz < 2 ^ 64 \<and>
        data' = data @ replicate (length data' - length data) 0 \<and>
        (cap' = cap_cnt \<and> \<not> moved \<or> unat cap' \<le> unat max_cnt)
    | None \<Rightarrow> unat max_cnt < unat cur_cnt + unat add_cnt \<or> \<not> realloc_ok env \<or>
        2 ^ 64 \<le> unat (grown_cnt cap_cnt max_cnt (cur_cnt + add_cnt)) * unat elem_sz"
proof (cases "libbpf_add_mem env data cap_cnt elem_sz cur_cnt max_cnt add_cnt")
  case None
  then show ?thesis using add_mem_None [OF None assms(4)] by simp
next
  case (Some r)
  obtain d c p moved where r: "r = (d, c, p, moved)" by (cases r)
  note m = add_mem_Some [OF Some [unfolded r] assms]
  have "length d = unat c * unat elem_sz"
    using m(2,4) assms(1) by (simp add: diff_mult_distrib)
  then have "d = data @ replicate (length d - length data) 0"
    using m(4) assms(1) by (simp add: diff_mult_distrib)
  then show ?thesis using Some r m \<open>length d = _\<close> by auto
qed

theorem libbpf_add_mem_grows_witness:
  "\<exists>data' cap' p moved. libbpf_add_mem \<lparr>realloc_ok = True, realloc_moves = True, realloc_junk = 7\<rparr> [1, 2] 2 1 2 100 3
     = Some (data', cap', p, moved) \<and> unat (2 :: u64) + unat (3 :: u64) \<le> unat cap' \<and>
     data' = [1, 2] @ replicate (unat cap' - Suc (Suc 0)) 0"
  using libbpf_add_mem_grows [where data = "[1, 2]" and cap_cnt = 2 and elem_sz = 1 and cur_cnt = 2
      and add_cnt = 3 and max_cnt = 100 and env = "\<lparr>realloc_ok = True, realloc_moves = True, realloc_junk = 7\<rparr>"]
  by (auto simp: grown_cnt_def split: option.splits)

text \<open>
  C12. A string set is a list of distinct-by-content strings kept back to back:
  \<^verbatim>\<open>strset__add_str\<close> never reads through a dangling pointer, even if the argument
  points into the set's own buffer and the buffer moves; it returns a non-negative
  offset at which the string is stored, appends the string if it is new and changes
  no byte of the used part otherwise; it fails only with ENOMEM, leaving the
  strings as they were.
\<close>

theorem strset_add_str_refines:
  assumes "strset_inv ss" "str_arg_ok ss s"
  shows "\<exists>r ss'. strset__add_str env cok mok ss s = Some (r, ss') \<and> strset_inv ss' \<and>
     (case r of
        Inl e \<Rightarrow> e = ENOMEM \<and> strset_used ss' = strset_used ss \<and>
          (\<not> realloc_ok env \<or> \<not> cok \<or> \<not> mok \<or> cap_bits (strs_hash ss) = 60 \<or>
           unat (strs_data_max_len ss) < unat (strs_data_len ss) + length (arg_str ss s) + 1)
      | Inr off \<Rightarrow> 0 \<le> sint off \<and> unat off < unat (strs_data_len ss') \<and>
          cstr (drop (unat off) (strs_data ss')) = arg_str ss s \<and>
          strset_used ss' = (if arg_str ss s \<in> set (split_strs (strset_used ss)) then strset_used ss
                             else strset_used ss @ arg_str ss s @ [0]))"
  by (rule add_str_refines [OF assms])

text \<open>A set built from two strings, and the environments of the examples.\<close>

abbreviation realloc_env_ok :: realloc_env where
  "realloc_env_ok \<equiv> \<lparr>realloc_ok = True, realloc_moves = True, realloc_junk = 7\<rparr>"

lemma strset_empty_inv:
  assumes "unat mx < 2 ^ 31"
  shows "strset_inv \<lparr>strs_data = [], strs_data_len = 0, strs_data_cap = 0, strs_data_max_len = mx,
     strs_hash = hashmap__init strset_hash_fn strset_equal_fn\<rparr>"
  using assms strs.init_ok(1)
  by (simp add: strset_inv_def strset_buf_def strset_index_def indexed_strs_def strset_used_def
      hashmap__init_def hashmap__for_each_entry_def)

lemma strset_new_ok:
  assumes "unat mx < 2 ^ 31" "length d \<le> unat mx" "d = [] \<or> last d = 0"
  shows "case strset__new c m k alloc mx (Some d) of
      Inl e \<Rightarrow> e = ENOMEM
    | Inr ss \<Rightarrow> strset_inv ss \<and> strset_used ss = d \<and> strs_data_max_len ss = mx"
proof -
  let ?s0 = "\<lparr>strs_data = d, strs_data_len = of_nat (length d), strs_data_cap = of_nat (length d),
    strs_data_max_len = mx, strs_hash = hashmap__init strset_hash_fn strset_equal_fn\<rparr>"
  have l: "unat (of_nat (length d) :: u64) = length d" using assms by (simp add: unat_of_nat)
  have "d = [] \<or> d ! (length d - 1) = 0" using assms(3) by (cases "d = []") (auto simp: last_conv_nth)
  then have buf: "strset_buf ?s0" using assms(1,2) l by (auto simp: strset_buf_def)
  have idx: "strset_index ?s0" using strs.init_ok(1)
    by (simp add: strset_index_def hashmap__init_def hashmap__for_each_entry_def)
  have "indexed_strs ?s0 = {}" by (simp add: indexed_strs_def hashmap__init_def hashmap__for_each_entry_def)
  then have "case strset_index_loop alloc 0 ?s0 0 of Inl e \<Rightarrow> e = ENOMEM
    | Inr ss' \<Rightarrow> strset_inv ss' \<and> strset_used ss' = strs_data ?s0 \<and> strs_data_max_len ss' = strs_data_max_len ?s0"
    using l by (intro index_loop_ok buf idx) simp_all
  then show ?thesis by (simp add: strset__new_def hashmap__new_def split: sum.splits)
qed

theorem strset_add_str_refines_witness:
  "\<exists>ss r ss'. strset__new True True True (\<lambda>_. (True, True)) 100 (Some []) = Inr ss \<and>
     strset__add_str realloc_env_ok True True ss (Outside [98, 112, 102, 0]) = Some (r, ss') \<and> strset_inv ss' \<and>
     (\<exists>off. r = Inr off \<and> cstr (drop (unat off) (strs_data ss')) = [98, 112, 102])"
proof -
  let ?ss = "\<lparr>strs_data = [], strs_data_len = 0, strs_data_cap = 0, strs_data_max_len = 100,
    strs_hash = hashmap__init strset_hash_fn strset_equal_fn\<rparr>"
  have n: "strset__new True True True (\<lambda>_. (True, True)) 100 (Some []) = Inr ?ss"
    by (simp add: strset__new_def hashmap__new_def strset_index_loop.simps)
  have i: "strset_inv ?ss" by (rule strset_empty_inv) simp
  have a: "str_arg_ok ?ss (Outside [98, 112, 102, 0])" by (simp add: str_arg_ok_def)
  have cb: "cap_bits (hashmap__init strset_hash_fn strset_equal_fn) = 0" by (simp add: hashmap__init_def)
  show ?thesis
    using strset_add_str_refines [OF i a, of realloc_env_ok True True] n
    by (elim exE conjE) (auto simp: cb split: sum.splits)
qed

text \<open>
  C17. \<^verbatim>\<open>strset__find_str\<close> returns an offset of the string if and only if the string is
  in the set, apart from a failure of the buffer to grow, and never changes the set.
\<close>

theorem strset_find_str_refines:
  assumes "strset_inv ss" "str_arg_ok ss s"
  shows "\<exists>r ss'. strset__find_str env ss s = Some (r, ss') \<and> strset_inv ss' \<and> strset_used ss' = strset_used ss \<and>
     (case r of
        Inl e \<Rightarrow> e = ENOENT \<and> arg_str ss s \<notin> set (split_strs (strset_used ss)) \<or>
          e = ENOMEM \<and> (\<not> realloc_ok env \<or>
            unat (strs_data_max_len ss) < unat (strs_data_len ss) + length (arg_str ss s) + 1)
      | Inr off \<Rightarrow> arg_str ss s \<in> set (split_strs (strset_used ss)) \<and> 0 \<le> sint off \<and>
          unat off < unat (strs_data_len ss') \<and> cstr (drop (unat off) (strs_data ss')) = arg_str ss s)"
  by (rule find_str_refines [OF assms])

theorem strset_find_str_refines_witness:
  "\<exists>ss r ss'. strset__new True True True (\<lambda>_. (True, True)) 100 (Some [98, 0]) = Inr ss \<and>
     strset__find_str realloc_env_ok ss (Outside [98, 0, 1]) = Some (r, ss') \<and> strset_used ss' = [98, 0] \<and>
     (\<exists>off. r = Inr off \<and> cstr (drop (unat off) (strs_data ss')) = [98])"
proof -
  obtain ss where n: "strset__new True True True (\<lambda>_. (True, True)) 100 (Some [98, 0]) = Inr ss"
    by (simp add: strset__new_def hashmap__new_def strset_index_loop.simps hm_eval strlen_def)
  then have i: "strset_inv ss" "strset_used ss = [98, 0]" "strs_data_max_len ss = 100"
    using strset_new_ok [of 100 "[98, 0]" True True True "\<lambda>_. (True, True)"] by simp_all
  have l: "unat (strs_data_len ss) = 2"
    using i(1) arg_cong [OF i(2), of length] by (simp add: strset_inv_def strset_buf_def strset_used_def)
  have "str_arg_ok ss (Outside [98, 0, 1])" by (simp add: str_arg_ok_def)
  from strset_find_str_refines [OF i(1) this, of realloc_env_ok]
  show ?thesis
    using n i l by (elim exE conjE) (auto split: sum.splits)
qed

text \<open>
  C19. \<^verbatim>\<open>strset__new\<close> on initial data that ends with a terminator and respects the
  limit indexes every string of it: the set satisfies the invariant and its
  strings are the initial ones; it fails only with ENOMEM.
\<close>

theorem strset_new_indexes:
  assumes "unat max_data_sz < 2 ^ 31" "length init_data \<le> unat max_data_sz" "init_data = [] \<or> last init_data = 0"
  shows "case strset__new calloc_ok malloc_ok data_ok alloc max_data_sz (Some init_data) of
      Inl e \<Rightarrow> e = ENOMEM
    | Inr ss \<Rightarrow> strset_inv ss \<and> strset_used ss = init_data"
  using strset_new_ok [OF assms, of calloc_ok malloc_ok data_ok alloc] by (auto split: sum.splits)

theorem strset_new_indexes_witness:
  "\<exists>ss. strset__new True True True (\<lambda>_. (True, True)) 100 (Some [98, 0]) = Inr ss \<and> strset_inv ss \<and>
     strset_used ss = [98, 0]"
proof -
  obtain ss where n: "strset__new True True True (\<lambda>_. (True, True)) 100 (Some [98, 0]) = Inr ss"
    by (simp add: strset__new_def hashmap__new_def strset_index_loop.simps hm_eval strlen_def)
  then show ?thesis
    using strset_new_indexes [of 100 "[98, 0]" True True True "\<lambda>_. (True, True)"] by simp
qed

end
