(* ===== verification/BtfTypes.thy ===== *)
theory BtfTypes
  imports Strset
begin

text \<open>
  The encoding of BTF types: \<^verbatim>\<open>src/include/uapi/linux/btf.h\<close> and the inline
  accessors of \<^verbatim>\<open>src/src/btf.h\<close>. Every struct of the type section consists of
  32-bit words only, so the section is the list of its words, and a pointer to a
  type is the record of its three words with the words that follow it in the
  section. The static object \<^verbatim>\<open>btf_void\<close>, which the code recognises by its
  address, is marked by a flag.
\<close>

record btf_type =
  t_name_off :: u32
  t_info :: u32
  t_size :: u32
  t_extra :: "u32 list"
  t_void :: bool

text \<open>The union of \<^verbatim>\<open>size\<close> and \<^verbatim>\<open>type\<close>.\<close>

abbreviation t_type :: "btf_type \<Rightarrow> u32" where
  "t_type t \<equiv> t_size t"

definition btf_void :: btf_type where
  "btf_void = \<lparr>t_name_off = 0, t_info = 0, t_size = 0, t_extra = [], t_void = True\<rparr>"

definition type_of_words :: "u32 list \<Rightarrow> btf_type" where
  "type_of_words ws = \<lparr>t_name_off = ws ! 0, t_info = ws ! 1, t_size = ws ! 2, t_extra = drop 3 ws, t_void = False\<rparr>"

section \<open>The info word\<close>

definition BTF_INFO_KIND :: "u32 \<Rightarrow> u32" where
  "BTF_INFO_KIND info = drop_bit 24 info AND 0x7f"

definition BTF_INFO_VLEN :: "u32 \<Rightarrow> u32" where
  "BTF_INFO_VLEN info = info AND 0xffffff"

definition BTF_INFO_KFLAG :: "u32 \<Rightarrow> u32" where
  "BTF_INFO_KFLAG info = drop_bit 31 info"

abbreviation (input) BTF_KIND_UNKN :: u32 where "BTF_KIND_UNKN \<equiv> 0"
abbreviation (input) BTF_KIND_INT :: u32 where "BTF_KIND_INT \<equiv> 1"
abbreviation (input) BTF_KIND_PTR :: u32 where "BTF_KIND_PTR \<equiv> 2"
abbreviation (input) BTF_KIND_ARRAY :: u32 where "BTF_KIND_ARRAY \<equiv> 3"
abbreviation (input) BTF_KIND_STRUCT :: u32 where "BTF_KIND_STRUCT \<equiv> 4"
abbreviation (input) BTF_KIND_UNION :: u32 where "BTF_KIND_UNION \<equiv> 5"
abbreviation (input) BTF_KIND_ENUM :: u32 where "BTF_KIND_ENUM \<equiv> 6"
abbreviation (input) BTF_KIND_FWD :: u32 where "BTF_KIND_FWD \<equiv> 7"
abbreviation (input) BTF_KIND_TYPEDEF :: u32 where "BTF_KIND_TYPEDEF \<equiv> 8"
abbreviation (input) BTF_KIND_VOLATILE :: u32 where "BTF_KIND_VOLATILE \<equiv> 9"
abbreviation (input) BTF_KIND_CONST :: u32 where "BTF_KIND_CONST \<equiv> 10"
abbreviation (input) BTF_KIND_RESTRICT :: u32 where "BTF_KIND_RESTRICT \<equiv> 11"
abbreviation (input) BTF_KIND_FUNC :: u32 where "BTF_KIND_FUNC \<equiv> 12"
abbreviation (input) BTF_KIND_FUNC_PROTO :: u32 where "BTF_KIND_FUNC_PROTO \<equiv> 13"
abbreviation (input) BTF_KIND_VAR :: u32 where "BTF_KIND_VAR \<equiv> 14"
abbreviation (input) BTF_KIND_DATASEC :: u32 where "BTF_KIND_DATASEC \<equiv> 15"
abbreviation (input) BTF_KIND_FLOAT :: u32 where "BTF_KIND_FLOAT \<equiv> 16"
abbreviation (input) BTF_KIND_DECL_TAG :: u32 where "BTF_KIND_DECL_TAG \<equiv> 17"
abbreviation (input) BTF_KIND_TYPE_TAG :: u32 where "BTF_KIND_TYPE_TAG \<equiv> 18"
abbreviation (input) BTF_KIND_ENUM64 :: u32 where "BTF_KIND_ENUM64 \<equiv> 19"
abbreviation (input) BTF_KIND_LOC_PARAM :: u32 where "BTF_KIND_LOC_PARAM \<equiv> 20"
abbreviation (input) BTF_KIND_LOC_PROTO :: u32 where "BTF_KIND_LOC_PROTO \<equiv> 21"
abbreviation (input) BTF_KIND_LOCSEC :: u32 where "BTF_KIND_LOCSEC \<equiv> 22"

definition btf_kind :: "btf_type \<Rightarrow> u32" where
  "btf_kind t = BTF_INFO_KIND (t_info t)"

definition btf_vlen :: "btf_type \<Rightarrow> u32" where
  "btf_vlen t = BTF_INFO_VLEN (t_info t)"

definition btf_kflag :: "btf_type \<Rightarrow> bool" where
  "btf_kflag t \<longleftrightarrow> BTF_INFO_KFLAG (t_info t) \<noteq> 0"

definition btf_is_void :: "btf_type \<Rightarrow> bool" where "btf_is_void t \<longleftrightarrow> btf_kind t = BTF_KIND_UNKN"
definition btf_is_int :: "btf_type \<Rightarrow> bool" where "btf_is_int t \<longleftrightarrow> btf_kind t = BTF_KIND_INT"
definition btf_is_ptr :: "btf_type \<Rightarrow> bool" where "btf_is_ptr t \<longleftrightarrow> btf_kind t = BTF_KIND_PTR"
definition btf_is_array :: "btf_type \<Rightarrow> bool" where "btf_is_array t \<longleftrightarrow> btf_kind t = BTF_KIND_ARRAY"
definition btf_is_struct :: "btf_type \<Rightarrow> bool" where "btf_is_struct t \<longleftrightarrow> btf_kind t = BTF_KIND_STRUCT"
definition btf_is_union :: "btf_type \<Rightarrow> bool" where "btf_is_union t \<longleftrightarrow> btf_kind t = BTF_KIND_UNION"
definition btf_is_composite :: "btf_type \<Rightarrow> bool" where
  "btf_is_composite t \<longleftrightarrow> btf_kind t = BTF_KIND_STRUCT \<or> btf_kind t = BTF_KIND_UNION"
definition btf_is_enum :: "btf_type \<Rightarrow> bool" where "btf_is_enum t \<longleftrightarrow> btf_kind t = BTF_KIND_ENUM"
definition btf_is_enum64 :: "btf_type \<Rightarrow> bool" where "btf_is_enum64 t \<longleftrightarrow> btf_kind t = BTF_KIND_ENUM64"
definition btf_is_fwd :: "btf_type \<Rightarrow> bool" where "btf_is_fwd t \<longleftrightarrow> btf_kind t = BTF_KIND_FWD"
definition btf_is_typedef :: "btf_type \<Rightarrow> bool" where "btf_is_typedef t \<longleftrightarrow> btf_kind t = BTF_KIND_TYPEDEF"
definition btf_is_volatile :: "btf_type \<Rightarrow> bool" where "btf_is_volatile t \<longleftrightarrow> btf_kind t = BTF_KIND_VOLATILE"
definition btf_is_const :: "btf_type \<Rightarrow> bool" where "btf_is_const t \<longleftrightarrow> btf_kind t = BTF_KIND_CONST"
definition btf_is_restrict :: "btf_type \<Rightarrow> bool" where "btf_is_restrict t \<longleftrightarrow> btf_kind t = BTF_KIND_RESTRICT"
definition btf_is_mod :: "btf_type \<Rightarrow> bool" where
  "btf_is_mod t \<longleftrightarrow> btf_kind t = BTF_KIND_VOLATILE \<or> btf_kind t = BTF_KIND_CONST \<or>
     btf_kind t = BTF_KIND_RESTRICT \<or> btf_kind t = BTF_KIND_TYPE_TAG"
definition btf_is_func :: "btf_type \<Rightarrow> bool" where "btf_is_func t \<longleftrightarrow> btf_kind t = BTF_KIND_FUNC"
definition btf_is_func_proto :: "btf_type \<Rightarrow> bool" where "btf_is_func_proto t \<longleftrightarrow> btf_kind t = BTF_KIND_FUNC_PROTO"
definition btf_is_var :: "btf_type \<Rightarrow> bool" where "btf_is_var t \<longleftrightarrow> btf_kind t = BTF_KIND_VAR"
definition btf_is_datasec :: "btf_type \<Rightarrow> bool" where "btf_is_datasec t \<longleftrightarrow> btf_kind t = BTF_KIND_DATASEC"
definition btf_is_float :: "btf_type \<Rightarrow> bool" where "btf_is_float t \<longleftrightarrow> btf_kind t = BTF_KIND_FLOAT"
definition btf_is_decl_tag :: "btf_type \<Rightarrow> bool" where "btf_is_decl_tag t \<longleftrightarrow> btf_kind t = BTF_KIND_DECL_TAG"
definition btf_is_type_tag :: "btf_type \<Rightarrow> bool" where "btf_is_type_tag t \<longleftrightarrow> btf_kind t = BTF_KIND_TYPE_TAG"
definition btf_is_any_enum :: "btf_type \<Rightarrow> bool" where "btf_is_any_enum t \<longleftrightarrow> btf_is_enum t \<or> btf_is_enum64 t"
definition btf_is_loc_param :: "btf_type \<Rightarrow> bool" where "btf_is_loc_param t \<longleftrightarrow> btf_kind t = BTF_KIND_LOC_PARAM"
definition btf_is_loc_proto :: "btf_type \<Rightarrow> bool" where "btf_is_loc_proto t \<longleftrightarrow> btf_kind t = BTF_KIND_LOC_PROTO"
definition btf_is_locsec :: "btf_type \<Rightarrow> bool" where "btf_is_locsec t \<longleftrightarrow> btf_kind t = BTF_KIND_LOCSEC"

definition btf_kind_core_compat :: "btf_type \<Rightarrow> btf_type \<Rightarrow> bool" where
  "btf_kind_core_compat t1 t2 \<longleftrightarrow> btf_kind t1 = btf_kind t2 \<or> btf_is_any_enum t1 \<and> btf_is_any_enum t2"

lemmas btf_is_defs = btf_is_void_def btf_is_int_def btf_is_ptr_def btf_is_array_def btf_is_struct_def
  btf_is_union_def btf_is_composite_def btf_is_enum_def btf_is_enum64_def btf_is_fwd_def
  btf_is_typedef_def btf_is_volatile_def btf_is_const_def btf_is_restrict_def btf_is_mod_def
  btf_is_func_def btf_is_func_proto_def btf_is_var_def btf_is_datasec_def btf_is_float_def
  btf_is_decl_tag_def btf_is_type_tag_def btf_is_any_enum_def btf_is_loc_param_def
  btf_is_loc_proto_def btf_is_locsec_def

section \<open>The data behind a type\<close>

definition BTF_INT_ENCODING :: "u32 \<Rightarrow> u32" where
  "BTF_INT_ENCODING v = drop_bit 24 (v AND 0x0f000000)"

definition BTF_INT_OFFSET :: "u32 \<Rightarrow> u32" where
  "BTF_INT_OFFSET v = drop_bit 16 (v AND 0x00ff0000)"

definition BTF_INT_BITS :: "u32 \<Rightarrow> u32" where
  "BTF_INT_BITS v = v AND 0x000000ff"

definition btf_int_encoding :: "btf_type \<Rightarrow> u8" where
  "btf_int_encoding t = ucast (BTF_INT_ENCODING (t_extra t ! 0))"

definition btf_int_offset :: "btf_type \<Rightarrow> u8" where
  "btf_int_offset t = ucast (BTF_INT_OFFSET (t_extra t ! 0))"

definition btf_int_bits :: "btf_type \<Rightarrow> u8" where
  "btf_int_bits t = ucast (BTF_INT_BITS (t_extra t ! 0))"

record btf_array = a_type :: u32  a_index_type :: u32  a_nelems :: u32
record btf_enum = e_name_off :: u32  e_val :: u32
record btf_enum64 = e64_name_off :: u32  e64_val_lo32 :: u32  e64_val_hi32 :: u32
record btf_member = m_name_off :: u32  m_type :: u32  m_offset :: u32
record btf_param = p_name_off :: u32  p_type :: u32
record btf_var_secinfo = v_type :: u32  v_offset :: u32  v_size :: u32
record btf_loc = l_func :: u32  l_loc_proto :: u32  l_offset :: u32

text \<open>The structs behind a type, by their index.\<close>

definition btf_array_of :: "btf_type \<Rightarrow> btf_array" where
  "btf_array_of t = (let w = t_extra t in \<lparr>a_type = w ! 0, a_index_type = w ! 1, a_nelems = w ! 2\<rparr>)"

definition btf_enum_at :: "btf_type \<Rightarrow> nat \<Rightarrow> btf_enum" where
  "btf_enum_at t i = (let w = t_extra t in \<lparr>e_name_off = w ! (2 * i), e_val = w ! (2 * i + 1)\<rparr>)"

definition btf_enum64_at :: "btf_type \<Rightarrow> nat \<Rightarrow> btf_enum64" where
  "btf_enum64_at t i = (let w = t_extra t in
     \<lparr>e64_name_off = w ! (3 * i), e64_val_lo32 = w ! (3 * i + 1), e64_val_hi32 = w ! (3 * i + 2)\<rparr>)"

definition btf_enum64_value :: "btf_enum64 \<Rightarrow> u64" where
  "btf_enum64_value e = push_bit 32 (ucast (e64_val_hi32 e)) OR ucast (e64_val_lo32 e)"

definition btf_member_at :: "btf_type \<Rightarrow> nat \<Rightarrow> btf_member" where
  "btf_member_at t i = (let w = t_extra t in
     \<lparr>m_name_off = w ! (3 * i), m_type = w ! (3 * i + 1), m_offset = w ! (3 * i + 2)\<rparr>)"

definition btf_param_at :: "btf_type \<Rightarrow> nat \<Rightarrow> btf_param" where
  "btf_param_at t i = (let w = t_extra t in \<lparr>p_name_off = w ! (2 * i), p_type = w ! (2 * i + 1)\<rparr>)"

definition btf_var_linkage :: "btf_type \<Rightarrow> u32" where
  "btf_var_linkage t = t_extra t ! 0"

definition btf_var_secinfo_at :: "btf_type \<Rightarrow> nat \<Rightarrow> btf_var_secinfo" where
  "btf_var_secinfo_at t i = (let w = t_extra t in
     \<lparr>v_type = w ! (3 * i), v_offset = w ! (3 * i + 1), v_size = w ! (3 * i + 2)\<rparr>)"

definition btf_decl_tag_component_idx :: "btf_type \<Rightarrow> u32" where
  "btf_decl_tag_component_idx t = t_extra t ! 0"

definition btf_loc_proto_param_at :: "btf_type \<Rightarrow> nat \<Rightarrow> u32" where
  "btf_loc_proto_param_at t i = t_extra t ! i"

definition btf_loc_at :: "btf_type \<Rightarrow> nat \<Rightarrow> btf_loc" where
  "btf_loc_at t i = (let w = t_extra t in
     \<lparr>l_func = w ! (3 * i), l_loc_proto = w ! (3 * i + 1), l_offset = w ! (3 * i + 2)\<rparr>)"

definition BTF_MEMBER_BITFIELD_SIZE :: "u32 \<Rightarrow> u32" where
  "BTF_MEMBER_BITFIELD_SIZE v = drop_bit 24 v"

definition BTF_MEMBER_BIT_OFFSET :: "u32 \<Rightarrow> u32" where
  "BTF_MEMBER_BIT_OFFSET v = v AND 0xffffff"

definition btf_member_bit_offset :: "btf_type \<Rightarrow> nat \<Rightarrow> u32" where
  "btf_member_bit_offset t member_idx =
     (let m = btf_member_at t member_idx
      in if btf_kflag t then BTF_MEMBER_BIT_OFFSET (m_offset m) else m_offset m)"

definition btf_member_bitfield_size :: "btf_type \<Rightarrow> nat \<Rightarrow> u32" where
  "btf_member_bitfield_size t member_idx =
     (let m = btf_member_at t member_idx
      in if btf_kflag t then BTF_MEMBER_BITFIELD_SIZE (m_offset m) else 0)"

section \<open>Bounds of the encoded numbers\<close>

lemma unat_vlen_less: "unat (btf_vlen t) < 2 ^ 24"
proof -
  have "btf_vlen t = take_bit 24 (t_info t)"
    by (simp add: btf_vlen_def BTF_INFO_VLEN_def take_bit_eq_mask mask_eq_exp_minus_1)
  then show ?thesis
    using take_bit_nat_less_exp [of 24 "unat (t_info t)"] by (simp add: unsigned_take_bit_eq)
qed

lemma unat_kind_less: "unat (btf_kind t) < 2 ^ 7"
proof -
  have "btf_kind t = take_bit 7 (drop_bit 24 (t_info t))"
    by (simp add: btf_kind_def BTF_INFO_KIND_def take_bit_eq_mask mask_eq_exp_minus_1)
  then show ?thesis
    using take_bit_nat_less_exp [of 7 "unat (drop_bit 24 (t_info t))"] by (simp add: unsigned_take_bit_eq)
qed

lemma btf_void_simps [simp]:
  "t_void btf_void" "btf_kind btf_void = BTF_KIND_UNKN" "t_name_off btf_void = 0" "btf_vlen btf_void = 0"
  by (simp_all add: btf_void_def btf_kind_def BTF_INFO_KIND_def btf_vlen_def BTF_INFO_VLEN_def)

lemma type_of_words_simps [simp]:
  "t_name_off (type_of_words ws) = ws ! 0" "t_info (type_of_words ws) = ws ! 1"
  "t_size (type_of_words ws) = ws ! 2" "t_extra (type_of_words ws) = drop 3 ws" "\<not> t_void (type_of_words ws)"
  by (simp_all add: type_of_words_def)

end
