(* ===== verification/Btf.thy ===== *)
theory Btf
  imports BtfTypes
begin

text \<open>
  BTF objects, the first half of \<^verbatim>\<open>src/src/btf.c\<close>: parsing of the header and of the
  string, layout and type sections in either byte order, the sanity check, and
  the lookups and size computations on a parsed object. An object carries its
  base object, as split BTF does. The index of type offsets is the list of the
  entries in use; whether memory for one more entry is available is a parameter,
  as is the outcome of the other allocations.
\<close>

section \<open>The object\<close>

record btf_header =
  h_magic :: u16
  h_version :: u8
  h_flags :: u8
  h_hdr_len :: u32
  h_type_off :: u32
  h_type_len :: u32
  h_str_off :: u32
  h_str_len :: u32
  h_layout_off :: u32
  h_layout_len :: u32

record btf_layout =
  lay_info_sz :: u8
  lay_elem_sz :: u8
  lay_flags :: u16

text \<open>
  The fields of \<^verbatim>\<open>struct btf\<close> other than the base. \<open>b_raw\<close> is the content of
  \<^verbatim>\<open>raw_data\<close>, unless \<open>b_raw_null\<close> says that the pointer is NULL; \<open>b_strs\<close> are the
  bytes from \<^verbatim>\<open>strs_data\<close> on, which is NULL once there is a string set.
\<close>

record btf_part =
  b_raw :: bytes
  b_raw_null :: bool
  b_raw_size :: u32
  b_raw_swapped :: "bytes option"
  b_swapped_endian :: bool
  b_hdr :: btf_header
  b_types :: "u32 list"
  b_type_offs :: "u32 list"
  b_nr_types :: u32
  b_named_start_id :: int
  b_start_id :: u32
  b_start_str_off :: u32
  b_strs :: bytes
  b_strs_set :: "strset option"
  b_strs_deduped :: bool
  b_modifiable :: bool
  b_has_hdr_extra :: bool
  b_layout :: "btf_layout list option"
  b_ptr_sz :: int

datatype btf = Btf (base_btf: "btf option") (own: btf_part)

definition BTF_MAGIC :: u16 where "BTF_MAGIC = 0xeB9F"
definition BTF_MAX_NR_TYPES :: u32 where "BTF_MAX_NR_TYPES = 0x7fffffff"
definition BTF_MAX_STR_OFFSET :: u32 where "BTF_MAX_STR_OFFSET = 0x7fffffff"

definition hdr_of_bytes :: "bytes \<Rightarrow> btf_header" where
  "hdr_of_bytes d =
     \<lparr>h_magic = rd16 d 0, h_version = d ! 2, h_flags = d ! 3, h_hdr_len = rd32 d 4,
      h_type_off = rd32 d 8, h_type_len = rd32 d 12, h_str_off = rd32 d 16, h_str_len = rd32 d 20,
      h_layout_off = rd32 d 24, h_layout_len = rd32 d 28\<rparr>"

definition hdr_to_bytes :: "btf_header \<Rightarrow> bytes" where
  "hdr_to_bytes h = le16 (h_magic h) @ [h_version h, h_flags h] @ le32 (h_hdr_len h)
     @ le32 (h_type_off h) @ le32 (h_type_len h) @ le32 (h_str_off h) @ le32 (h_str_len h)
     @ le32 (h_layout_off h) @ le32 (h_layout_len h)"

section \<open>Header\<close>

definition btf_bswap_hdr :: "btf_header \<Rightarrow> u32 \<Rightarrow> btf_header" where
  "btf_bswap_hdr h hdr_len =
     (let h = h\<lparr>h_magic := bswap_16 (h_magic h), h_hdr_len := bswap_32 (h_hdr_len h),
                h_type_off := bswap_32 (h_type_off h), h_type_len := bswap_32 (h_type_len h),
                h_str_off := bswap_32 (h_str_off h), h_str_len := bswap_32 (h_str_len h)\<rparr>
      in if hdr_len \<ge> 32
         then h\<lparr>h_layout_off := bswap_32 (h_layout_off h), h_layout_len := bswap_32 (h_layout_len h)\<rparr>
         else h)"

text \<open>
  The header in the raw data, of which the first \<open>n\<close> bytes exist or are copied; the
  object is allocated zeroed.
\<close>

definition hdr_prefix :: "nat \<Rightarrow> bytes \<Rightarrow> btf_header" where
  "hdr_prefix n raw = hdr_of_bytes (take (min n 32) raw @ replicate 32 0)"

text \<open>The checks on the copied header.\<close>

definition btf_check_hdr :: "u32 \<Rightarrow> btf_header \<Rightarrow> errno option" where
  "btf_check_hdr meta_left h =
     (if unat meta_left < unat (h_str_off h) + unat (h_str_len h) then Some EINVAL
      else if unat (h_type_off h) + unat (h_type_len h) > unat (h_str_off h) then Some EINVAL
      else if h_type_off h mod 4 \<noteq> 0 then Some EINVAL
      else if h_layout_len h = 0 then None
      else if h_layout_off h mod 4 \<noteq> 0 then Some EINVAL
      else if unat (h_layout_off h) < unat (h_type_off h) + unat (h_type_len h) then Some EINVAL
      else if unat (h_layout_off h) + unat (h_layout_len h) > unat (h_str_off h)
              \<or> h_layout_off h > h_str_off h then Some EINVAL
      else None)"

definition btf_parse_hdr_rest :: "bool \<Rightarrow> u32 \<Rightarrow> btf_header \<Rightarrow> btf_part \<Rightarrow> btf_part result" where
  "btf_parse_hdr_rest swapped hdr_len hdr b =
     (let raw = b_raw b; raw_size = (of_nat (length raw) :: u32) in
      if raw_size < hdr_len then Inl EINVAL
      else
        let raw' = (if swapped
                    then mem_write raw 0 (take (if hdr_len \<ge> 32 then 32 else 24)
                           (hdr_to_bytes (btf_bswap_hdr hdr hdr_len)))
                    else raw);
            hdr' = hdr_prefix (unat hdr_len) raw';
            extra = list_ex (\<lambda>c. c \<noteq> 0) (drop 32 (take (unat hdr_len) raw'))
        in case btf_check_hdr (raw_size - hdr_len) hdr' of
             Some e \<Rightarrow> Inl e
           | None \<Rightarrow> Inr (b\<lparr>b_raw := raw', b_swapped_endian := swapped, b_hdr := hdr',
                             b_has_hdr_extra := b_has_hdr_extra b \<or> extra\<rparr>))"

definition btf_parse_hdr :: "btf_part \<Rightarrow> btf_part result" where
  "btf_parse_hdr b =
     (let raw = b_raw b; raw_size = (of_nat (length raw) :: u32) in
      if raw_size < 24 then Inl EINVAL
      else
        let hdr = hdr_prefix (length raw) raw in
        if h_magic hdr = bswap_16 BTF_MAGIC then
          (let hdr_len = bswap_32 (h_hdr_len hdr)
           in if hdr_len < 24 then Inl ENOTSUP else btf_parse_hdr_rest True hdr_len hdr b)
        else if h_magic hdr \<noteq> BTF_MAGIC then Inl EINVAL
        else btf_parse_hdr_rest (b_swapped_endian b) (h_hdr_len hdr) hdr b)"

section \<open>Sections\<close>

definition btf_parse_str_sec :: "btf \<Rightarrow> errno option" where
  "btf_parse_str_sec btf =
     (let b = own btf; len = h_str_len (b_hdr b) in
      if base_btf btf \<noteq> None \<and> len = 0 then None
      else if len = 0 \<or> len - 1 > BTF_MAX_STR_OFFSET \<or> b_strs b ! (unat len - 1) \<noteq> 0 then Some EINVAL
      else if base_btf btf = None \<and> b_strs b ! 0 \<noteq> 0 then Some EINVAL
      else None)"

fun layouts_of_bytes :: "bytes \<Rightarrow> btf_layout list" where
  "layouts_of_bytes (a # b # c # d # bs) =
     \<lparr>lay_info_sz = a, lay_elem_sz = b, lay_flags = rd16 [c, d] 0\<rparr> # layouts_of_bytes bs"
| "layouts_of_bytes _ = []"

definition btf_parse_layout_sec :: "btf_part \<Rightarrow> btf_part result" where
  "btf_parse_layout_sec b =
     (let h = b_hdr b in
      if h_layout_len h = 0 then Inr b
      else if h_layout_len h mod 4 \<noteq> 0 then Inl EINVAL
      else
        let ls = layouts_of_bytes (take (unat (h_layout_len h))
                   (drop (unat (h_hdr_len h) + unat (h_layout_off h)) (b_raw b)))
        in Inr (b\<lparr>b_layout := Some (if b_swapped_endian b
             then map (\<lambda>l. l\<lparr>lay_flags := bswap_16 (lay_flags l)\<rparr>) ls else ls)\<rparr>))"

text \<open>
  Sizes are \<open>int\<close>, negative on errors: the sum is computed in \<open>size_t\<close> and
  converted to 32 bits.
\<close>

definition btf_layout_size :: "btf_layout list \<Rightarrow> u32 \<Rightarrow> btf_type \<Rightarrow> int" where
  "btf_layout_size l l_cnt t =
     (if btf_kind t \<ge> l_cnt then - 22
      else let e = l ! unat (btf_kind t)
           in if lay_info_sz e mod 4 \<noteq> 0 then - 22
              else if lay_elem_sz e mod 4 \<noteq> 0 then - 22
              else sint (of_nat (12 + unat (lay_info_sz e) + unat (btf_vlen t * ucast (lay_elem_sz e))) :: u32))"

definition btf_type_size_unknown :: "btf \<Rightarrow> btf_type \<Rightarrow> int" where
  "btf_type_size_unknown btf t =
     (let b = own btf in
      case b_layout b of
        Some l \<Rightarrow> btf_layout_size l (h_layout_len (b_hdr b) div 4) t
      | None \<Rightarrow>
          (case base_btf btf of
             None \<Rightarrow> - 22
           | Some base \<Rightarrow>
               (case b_layout (own base) of
                  None \<Rightarrow> - 22
                | Some l \<Rightarrow> btf_layout_size l (h_layout_len (b_hdr (own base)) div 4) t)))"

definition btf_type_size :: "btf \<Rightarrow> btf_type \<Rightarrow> int" where
  "btf_type_size btf t =
     (let base_size = 12; vlen = uint (btf_vlen t); k = btf_kind t in
      if k = BTF_KIND_FWD \<or> k = BTF_KIND_CONST \<or> k = BTF_KIND_VOLATILE \<or> k = BTF_KIND_RESTRICT
         \<or> k = BTF_KIND_PTR \<or> k = BTF_KIND_TYPEDEF \<or> k = BTF_KIND_FUNC \<or> k = BTF_KIND_FLOAT
         \<or> k = BTF_KIND_TYPE_TAG then base_size
      else if k = BTF_KIND_INT then base_size + 4
      else if k = BTF_KIND_ENUM then base_size + vlen * 8
      else if k = BTF_KIND_ENUM64 then base_size + vlen * 12
      else if k = BTF_KIND_ARRAY then base_size + 12
      else if k = BTF_KIND_STRUCT \<or> k = BTF_KIND_UNION then base_size + vlen * 12
      else if k = BTF_KIND_FUNC_PROTO then base_size + vlen * 8
      else if k = BTF_KIND_VAR then base_size + 4
      else if k = BTF_KIND_DATASEC then base_size + vlen * 12
      else if k = BTF_KIND_DECL_TAG then base_size + 4
      else if k = BTF_KIND_LOC_PARAM then base_size + 4 + vlen * 4
      else if k = BTF_KIND_LOC_PROTO then base_size + vlen * 4
      else if k = BTF_KIND_LOCSEC then base_size + vlen * 12
      else btf_type_size_unknown btf t)"

text \<open>Byte swaps of the words of a type: its own three words, and the words behind it.\<close>

definition bswap_words :: "nat \<Rightarrow> u32 list \<Rightarrow> u32 list" where
  "bswap_words n ws = map bswap_32 (take n ws) @ drop n ws"

definition btf_bswap_type_base :: "u32 list \<Rightarrow> u32 list" where
  "btf_bswap_type_base ws = bswap_words 3 ws"

definition btf_bswap_type_rest :: "u32 list \<Rightarrow> u32 list result" where
  "btf_bswap_type_rest ws =
     (let t = type_of_words ws; vlen = unat (btf_vlen t); k = btf_kind t;
          swap = (\<lambda>n. Inr (take 3 ws @ bswap_words n (drop 3 ws)))
      in if k = BTF_KIND_FWD \<or> k = BTF_KIND_CONST \<or> k = BTF_KIND_VOLATILE \<or> k = BTF_KIND_RESTRICT
            \<or> k = BTF_KIND_PTR \<or> k = BTF_KIND_TYPEDEF \<or> k = BTF_KIND_FUNC \<or> k = BTF_KIND_FLOAT
            \<or> k = BTF_KIND_TYPE_TAG then Inr ws
         else if k = BTF_KIND_INT then swap 1
         else if k = BTF_KIND_ENUM then swap (2 * vlen)
         else if k = BTF_KIND_ENUM64 then swap (3 * vlen)
         else if k = BTF_KIND_ARRAY then swap 3
         else if k = BTF_KIND_STRUCT \<or> k = BTF_KIND_UNION then swap (3 * vlen)
         else if k = BTF_KIND_FUNC_PROTO then swap (2 * vlen)
         else if k = BTF_KIND_VAR then swap 1
         else if k = BTF_KIND_DATASEC then swap (3 * vlen)
         else if k = BTF_KIND_DECL_TAG then swap 1
         else if k = BTF_KIND_LOC_PARAM then swap (1 + vlen)
         else if k = BTF_KIND_LOC_PROTO then swap vlen
         else if k = BTF_KIND_LOCSEC then swap (3 * vlen)
         else Inl EINVAL)"

text \<open>
  One more entry of the index. The flag says whether the index has room or can
  grow; the limit on the number of entries is that of \<^verbatim>\<open>btf_add_type_offs_mem\<close>.
\<close>

definition btf_add_type_idx_entry :: "bool \<Rightarrow> btf_part \<Rightarrow> u32 \<Rightarrow> btf_part result" where
  "btf_add_type_idx_entry mem_ok b type_off =
     (if \<not> mem_ok \<or> unat (b_nr_types b) + 1 > unat BTF_MAX_NR_TYPES then Inl ENOMEM
      else Inr (b\<lparr>b_type_offs := take (unat (b_nr_types b)) (b_type_offs b) @ [type_off]\<rparr>))"

lemma layout_size_pos:
  assumes "0 \<le> btf_layout_size l n t"
  shows "12 \<le> btf_layout_size l n t"
proof -
  define i e where "i = lay_info_sz (l ! unat (btf_kind t))" and "e = lay_elem_sz (l ! unat (btf_kind t))"
  let ?n = "12 + unat i + unat (btf_vlen t * ucast e)"
  have eq: "btf_layout_size l n t = sint (of_nat ?n :: u32)"
    using assms unfolding btf_layout_size_def Let_def i_def [symmetric] e_def [symmetric]
    by (cases "n \<le> btf_kind t"; cases "i mod 4 = 0"; cases "e mod 4 = 0") simp_all
  have "unat (btf_vlen t) * unat e \<le> (2 ^ 24 - 1) * 255"
    using unat_vlen_less [of t] unat_less_u8 [of e] by (intro mult_mono) auto
  then have "unat (btf_vlen t) * unat e mod 2 ^ 32 \<le> (2 ^ 24 - 1) * 255"
    by (rule order_trans [OF mod_less_eq_dividend])
  then have "unat (btf_vlen t * ucast e) \<le> (2 ^ 24 - 1) * 255"
    by (simp add: unat_word_ariths)
  then have "?n < 2 ^ 32" using unat_less_u8 [of i] by simp
  then have "uint (of_nat ?n :: u32) = int ?n" by (rule uint_of_nat_u32)
  then show ?thesis using sint_nonneg_u32 [of "of_nat ?n"] assms unfolding eq by simp
qed

lemma type_size_unknown_pos:
  assumes "0 \<le> btf_type_size_unknown btf t"
  shows "12 \<le> btf_type_size_unknown btf t"
  using assms layout_size_pos unfolding btf_type_size_unknown_def Let_def
  by (cases "b_layout (own btf)"; cases "base_btf btf"; cases "b_layout (own (the (base_btf btf)))") simp_all

lemma type_size_pos: "0 \<le> btf_type_size btf t \<Longrightarrow> 12 \<le> btf_type_size btf t"
  unfolding btf_type_size_def Let_def
  by (auto dest: type_size_unknown_pos split: if_splits)

text \<open>
  The loop over the type section; \<open>n\<close> is the offset of the next type. Every type has
  at least the twelve bytes of \<^verbatim>\<open>struct btf_type\<close>, so the loop terminates.
\<close>

function btf_parse_types :: "(nat \<Rightarrow> bool) \<Rightarrow> btf \<Rightarrow> nat \<Rightarrow> btf result" where
  "btf_parse_types mem_ok btf n =
     (let b = own btf in
      if n + 12 \<le> unat (h_type_len (b_hdr b)) then
        let ws = drop (n div 4) (b_types b);
            ws = (if b_swapped_endian b then btf_bswap_type_base ws else ws);
            type_size = btf_type_size btf (type_of_words ws)
        in if type_size < 0 then Inl (err_of_int type_size)
           else if n + nat type_size > unat (h_type_len (b_hdr b)) then Inl EINVAL
           else
             (case (if b_swapped_endian b then btf_bswap_type_rest ws else Inr ws) of
                Inl e \<Rightarrow> Inl EINVAL
              | Inr ws \<Rightarrow>
                  (case btf_add_type_idx_entry (mem_ok (unat (b_nr_types b)))
                          (b\<lparr>b_types := take (n div 4) (b_types b) @ ws\<rparr>) (of_nat n) of
                     Inl e \<Rightarrow> Inl e
                   | Inr b' \<Rightarrow>
                       btf_parse_types mem_ok
                         (Btf (base_btf btf) (b'\<lparr>b_nr_types := b_nr_types b' + 1\<rparr>)) (n + nat type_size)))
      else if n \<noteq> unat (h_type_len (b_hdr b)) then Inl EINVAL
      else Inr btf)"
  by pat_completeness auto
termination
proof (relation "measure (\<lambda>(mem_ok, btf, n). unat (h_type_len (b_hdr (own btf))) - n)")
  fix mem_ok btf n b x xa ts x2 x2a
  assume "b = own btf" "n + 12 \<le> unat (h_type_len (b_hdr b))"
    and "ts = btf_type_size btf (type_of_words xa)" "\<not> ts < 0"
    and "btf_add_type_idx_entry (mem_ok (unat (b_nr_types b)))
      (b\<lparr>b_types := take (n div 4) (b_types b) @ x2\<rparr>) (of_nat n) = Inr x2a"
  moreover have "12 \<le> ts" using type_size_pos calculation(3,4) by simp
  ultimately show "((mem_ok, Btf (base_btf btf) (x2a\<lparr>b_nr_types := b_nr_types x2a + 1\<rparr>), n + nat ts), mem_ok, btf, n)
      \<in> measure (\<lambda>(mem_ok, btf, n). unat (h_type_len (b_hdr (own btf))) - n)"
    by (auto simp: btf_add_type_idx_entry_def split: if_splits)
qed simp

declare btf_parse_types.simps [simp del]

definition btf_parse_type_sec :: "(nat \<Rightarrow> bool) \<Rightarrow> btf \<Rightarrow> btf result" where
  "btf_parse_type_sec mem_ok btf = btf_parse_types mem_ok btf 0"

section \<open>Lookups\<close>

definition btf__type_cnt :: "btf \<Rightarrow> u32" where
  "btf__type_cnt btf = b_start_id (own btf) + b_nr_types (own btf)"

definition type_in_part :: "btf_part \<Rightarrow> u32 \<Rightarrow> btf_type" where
  "type_in_part b type_id =
     type_of_words (drop (unat (b_type_offs b ! unat (type_id - b_start_id b)) div 4) (b_types b))"

text \<open>An object without a base starts at type 1, so the recursion ends at it.\<close>

fun btf_type_by_id :: "btf \<Rightarrow> u32 \<Rightarrow> btf_type" where
  "btf_type_by_id (Btf base b) type_id =
     (if type_id = 0 then btf_void
      else case base of
             None \<Rightarrow> type_in_part b type_id
           | Some base' \<Rightarrow>
               if type_id < b_start_id b then btf_type_by_id base' type_id else type_in_part b type_id)"

definition btf__type_by_id :: "btf \<Rightarrow> u32 \<Rightarrow> btf_type option" where
  "btf__type_by_id btf type_id =
     (if type_id \<ge> b_start_id (own btf) + b_nr_types (own btf) then None
      else Some (btf_type_by_id btf type_id))"

definition btf_strs_data :: "btf_part \<Rightarrow> bytes" where
  "btf_strs_data b = (case b_strs_set b of None \<Rightarrow> b_strs b | Some ss \<Rightarrow> strset__data ss)"

fun btf__str_by_offset :: "btf \<Rightarrow> u32 \<Rightarrow> bytes option" where
  "btf__str_by_offset (Btf base b) offset =
     (let own_str = (if offset - b_start_str_off b < h_str_len (b_hdr b)
                     then Some (drop (unat (offset - b_start_str_off b)) (btf_strs_data b)) else None)
      in case base of
           None \<Rightarrow> own_str
         | Some base' \<Rightarrow> if offset < b_start_str_off b then btf__str_by_offset base' offset else own_str)"

definition btf__name_by_offset :: "btf \<Rightarrow> u32 \<Rightarrow> bytes option" where
  "btf__name_by_offset btf offset = btf__str_by_offset btf offset"

section \<open>Sanity check\<close>

definition btf_validate_str :: "btf \<Rightarrow> u32 \<Rightarrow> errno option" where
  "btf_validate_str btf str_off =
     (case btf__str_by_offset btf str_off of None \<Rightarrow> Some EINVAL | Some s \<Rightarrow> None)"

definition btf_validate_id :: "btf \<Rightarrow> u32 \<Rightarrow> errno option" where
  "btf_validate_id btf i = (case btf__type_by_id btf i of None \<Rightarrow> Some EINVAL | Some t \<Rightarrow> None)"

definition btf_validate_type :: "btf \<Rightarrow> btf_type \<Rightarrow> errno option" where
  "btf_validate_type btf t =
     (let k = btf_kind t; is = [0..<unat (btf_vlen t)] in
      err_or (btf_validate_str btf (t_name_off t))
       (if k = BTF_KIND_UNKN \<or> k = BTF_KIND_INT \<or> k = BTF_KIND_FWD \<or> k = BTF_KIND_FLOAT then None
        else if k = BTF_KIND_PTR \<or> k = BTF_KIND_TYPEDEF \<or> k = BTF_KIND_VOLATILE \<or> k = BTF_KIND_CONST
                \<or> k = BTF_KIND_RESTRICT \<or> k = BTF_KIND_VAR \<or> k = BTF_KIND_DECL_TAG
                \<or> k = BTF_KIND_TYPE_TAG then btf_validate_id btf (t_type t)
        else if k = BTF_KIND_ARRAY then
          (let a = btf_array_of t
           in err_or (btf_validate_id btf (a_type a)) (btf_validate_id btf (a_index_type a)))
        else if k = BTF_KIND_STRUCT \<or> k = BTF_KIND_UNION then
          first_err (\<lambda>i. let m = btf_member_at t i
                         in err_or (btf_validate_str btf (m_name_off m)) (btf_validate_id btf (m_type m))) is
        else if k = BTF_KIND_ENUM then first_err (\<lambda>i. btf_validate_str btf (e_name_off (btf_enum_at t i))) is
        else if k = BTF_KIND_ENUM64 then first_err (\<lambda>i. btf_validate_str btf (e64_name_off (btf_enum64_at t i))) is
        else if k = BTF_KIND_FUNC then
          err_or (btf_validate_id btf (t_type t))
            (if btf_kind (the (btf__type_by_id btf (t_type t))) \<noteq> BTF_KIND_FUNC_PROTO then Some EINVAL else None)
        else if k = BTF_KIND_FUNC_PROTO then
          first_err (\<lambda>i. let p = btf_param_at t i
                         in err_or (btf_validate_str btf (p_name_off p)) (btf_validate_id btf (p_type p))) is
        else if k = BTF_KIND_DATASEC then first_err (\<lambda>i. btf_validate_id btf (v_type (btf_var_secinfo_at t i))) is
        else if k = BTF_KIND_LOC_PARAM then None
        else if k = BTF_KIND_LOC_PROTO then first_err (\<lambda>i. btf_validate_id btf (btf_loc_proto_param_at t i)) is
        else if k = BTF_KIND_LOCSEC then
          first_err (\<lambda>i. let l = btf_loc_at t i
                         in err_or (btf_validate_id btf (l_func l)) (btf_validate_id btf (l_loc_proto l))) is
        else if btf_type_size_unknown btf t < 0 then Some EINVAL
        else None))"

definition btf_sanity_check :: "btf \<Rightarrow> errno option" where
  "btf_sanity_check btf =
     first_err (\<lambda>i. btf_validate_type btf (btf_type_by_id btf (of_nat i)))
       [unat (b_start_id (own btf))..<unat (btf__type_cnt btf)]"

section \<open>Pointer size and byte order\<close>

definition str_bytes :: "string \<Rightarrow> bytes" where
  "str_bytes s = map of_char s"

definition long_aliases :: "bytes list" where
  "long_aliases = map str_bytes
     [''long'', ''long int'', ''int long'', ''unsigned long'', ''long unsigned'', ''unsigned long int'',
      ''unsigned int long'', ''long unsigned int'', ''long int unsigned'', ''int unsigned long'',
      ''int long unsigned'']"

fun find_long_size :: "btf \<Rightarrow> nat list \<Rightarrow> int" where
  "find_long_size btf [] = - 1"
| "find_long_size btf (i # is) =
     (let t = the (btf__type_by_id btf (of_nat i)) in
      if \<not> btf_is_int t then find_long_size btf is
      else if t_size t \<noteq> 4 \<and> t_size t \<noteq> 8 then find_long_size btf is
      else case btf__name_by_offset btf (t_name_off t) of
             None \<Rightarrow> find_long_size btf is
           | Some name \<Rightarrow>
               if list_ex (\<lambda>a. strcmp name a = 0) long_aliases then uint (t_size t)
               else find_long_size btf is)"

definition determine_ptr_size :: "btf \<Rightarrow> int" where
  "determine_ptr_size btf =
     (case base_btf btf of
        Some base \<Rightarrow>
          if b_ptr_sz (own base) > 0 then b_ptr_sz (own base)
          else find_long_size btf [1..<unat (btf__type_cnt btf)]
      | None \<Rightarrow> find_long_size btf [1..<unat (btf__type_cnt btf)])"

text \<open>
  The pointer size is cached in the object, the first time it is asked for:
  \<open>cached_ptr_sz\<close> is the value of the field after that, \<open>btf_cache_ptr_sz\<close> the object.
\<close>

definition cached_ptr_sz :: "btf \<Rightarrow> int" where
  "cached_ptr_sz btf = (if b_ptr_sz (own btf) = 0 then determine_ptr_size btf else b_ptr_sz (own btf))"

definition btf_cache_ptr_sz :: "btf \<Rightarrow> btf" where
  "btf_cache_ptr_sz btf = Btf (base_btf btf) ((own btf)\<lparr>b_ptr_sz := cached_ptr_sz btf\<rparr>)"

definition btf_ptr_sz :: "btf \<Rightarrow> nat" where
  "btf_ptr_sz btf = (if cached_ptr_sz btf < 0 then 8 else nat (cached_ptr_sz btf))"

definition btf__pointer_size :: "btf \<Rightarrow> nat" where
  "btf__pointer_size btf = (if cached_ptr_sz btf < 0 then 0 else nat (cached_ptr_sz btf))"

definition btf__set_pointer_size :: "btf \<Rightarrow> nat \<Rightarrow> btf result" where
  "btf__set_pointer_size btf ptr_sz =
     (if ptr_sz \<noteq> 4 \<and> ptr_sz \<noteq> 8 then Inl EINVAL
      else Inr (Btf (base_btf btf) ((own btf)\<lparr>b_ptr_sz := int ptr_sz\<rparr>)))"

datatype btf_endianness = BTF_LITTLE_ENDIAN | BTF_BIG_ENDIAN

definition btf__endianness :: "btf \<Rightarrow> btf_endianness" where
  "btf__endianness btf = (if b_swapped_endian (own btf) then BTF_BIG_ENDIAN else BTF_LITTLE_ENDIAN)"

definition btf__set_endianness :: "btf \<Rightarrow> btf_endianness \<Rightarrow> btf" where
  "btf__set_endianness btf endian =
     (let swapped = (endian = BTF_BIG_ENDIAN); b = own btf
      in Btf (base_btf btf) (b\<lparr>b_swapped_endian := swapped,
           b_raw_swapped := (if swapped then b_raw_swapped b else None)\<rparr>))"

section \<open>Sizes and resolution\<close>

definition btf_type_is_void :: "btf_type \<Rightarrow> bool" where
  "btf_type_is_void t \<longleftrightarrow> t_void t \<or> btf_is_fwd t"

definition btf_type_is_void_or_null :: "btf_type option \<Rightarrow> bool" where
  "btf_type_is_void_or_null t \<longleftrightarrow> (case t of None \<Rightarrow> True | Some t \<Rightarrow> btf_type_is_void t)"

definition MAX_RESOLVE_DEPTH :: nat where "MAX_RESOLVE_DEPTH = 32"

definition resolve_done :: "u32 \<Rightarrow> nat \<Rightarrow> nat result" where
  "resolve_done nelems tsize =
     (if nelems \<noteq> 0 \<and> tsize > (2 ^ 32 - 1) div unat nelems then Inl E2BIG else Inr (unat nelems * tsize))"

text \<open>The first argument counts the iterations left.\<close>

fun resolve_size_loop :: "nat \<Rightarrow> btf \<Rightarrow> btf_type option \<Rightarrow> u32 \<Rightarrow> nat result" where
  "resolve_size_loop 0 btf t nelems = Inl EINVAL"
| "resolve_size_loop (Suc n) btf None nelems = Inl EINVAL"
| "resolve_size_loop (Suc n) btf (Some t) nelems =
     (let k = btf_kind t in
      if btf_type_is_void t then Inl EINVAL
      else if k = BTF_KIND_INT \<or> k = BTF_KIND_STRUCT \<or> k = BTF_KIND_UNION \<or> k = BTF_KIND_ENUM
              \<or> k = BTF_KIND_ENUM64 \<or> k = BTF_KIND_DATASEC \<or> k = BTF_KIND_FLOAT
        then resolve_done nelems (unat (t_size t))
      else if k = BTF_KIND_PTR then resolve_done nelems (btf_ptr_sz btf)
      else if k = BTF_KIND_TYPEDEF \<or> k = BTF_KIND_VOLATILE \<or> k = BTF_KIND_CONST \<or> k = BTF_KIND_RESTRICT
              \<or> k = BTF_KIND_VAR \<or> k = BTF_KIND_DECL_TAG \<or> k = BTF_KIND_TYPE_TAG
        then resolve_size_loop n btf (btf__type_by_id btf (t_type t)) nelems
      else if k = BTF_KIND_ARRAY then
        (let array = btf_array_of t in
         if nelems \<noteq> 0 \<and> a_nelems array > (- 1) div nelems then Inl E2BIG
         else resolve_size_loop n btf (btf__type_by_id btf (a_type array)) (nelems * a_nelems array))
      else Inl EINVAL)"

definition btf__resolve_size :: "btf \<Rightarrow> u32 \<Rightarrow> nat result" where
  "btf__resolve_size btf type_id = resolve_size_loop MAX_RESOLVE_DEPTH btf (btf__type_by_id btf type_id) 1"

text \<open>
  The recursion of \<^verbatim>\<open>btf__align_of\<close> follows the types without a bound; \<open>None\<close> is
  running out of the given depth, or a NULL type.
\<close>

fun align_members :: "(u32 \<Rightarrow> int option) \<Rightarrow> btf_type \<Rightarrow> nat list \<Rightarrow> int \<Rightarrow> int option" where
  "align_members f t [] max_align = Some (if uint (t_size t) mod max_align \<noteq> 0 then 1 else max_align)"
| "align_members f t (i # is) max_align =
     (let m = btf_member_at t i in
      case f (m_type m) of
        None \<Rightarrow> None
      | Some align \<Rightarrow>
          if align \<le> 0 then Some align
          else let max_align = max max_align align
               in if btf_member_bitfield_size t i = 0 \<and> uint (m_offset m) mod (8 * align) \<noteq> 0
                  then Some 1 else align_members f t is max_align)"

fun btf__align_of :: "nat \<Rightarrow> btf \<Rightarrow> u32 \<Rightarrow> int option" where
  "btf__align_of 0 btf i = None"
| "btf__align_of (Suc depth) btf i =
     (case btf__type_by_id btf i of
        None \<Rightarrow> None
      | Some t \<Rightarrow>
          let k = btf_kind t in
          if k = BTF_KIND_INT \<or> k = BTF_KIND_ENUM \<or> k = BTF_KIND_ENUM64 \<or> k = BTF_KIND_FLOAT
            then Some (min (int (btf_ptr_sz btf)) (uint (t_size t)))
          else if k = BTF_KIND_PTR then Some (int (btf_ptr_sz btf))
          else if k = BTF_KIND_TYPEDEF \<or> k = BTF_KIND_VOLATILE \<or> k = BTF_KIND_CONST
                  \<or> k = BTF_KIND_RESTRICT \<or> k = BTF_KIND_TYPE_TAG then btf__align_of depth btf (t_type t)
          else if k = BTF_KIND_ARRAY then btf__align_of depth btf (a_type (btf_array_of t))
          else if k = BTF_KIND_STRUCT \<or> k = BTF_KIND_UNION
            then align_members (btf__align_of depth btf) t [0..<unat (btf_vlen t)] 1
          else Some 0)"

fun resolve_type_loop :: "nat \<Rightarrow> btf \<Rightarrow> btf_type option \<Rightarrow> u32 \<Rightarrow> u32 result" where
  "resolve_type_loop 0 btf t type_id = Inl EINVAL"
| "resolve_type_loop (Suc n) btf t type_id =
     (case t of
        None \<Rightarrow> Inl EINVAL
      | Some t' \<Rightarrow>
          if btf_type_is_void t' then Inl EINVAL
          else if btf_is_mod t' \<or> btf_is_typedef t' \<or> btf_is_var t'
            then resolve_type_loop n btf (btf__type_by_id btf (t_type t')) (t_type t')
          else Inr type_id)"

definition btf__resolve_type :: "btf \<Rightarrow> u32 \<Rightarrow> u32 result" where
  "btf__resolve_type btf type_id =
     resolve_type_loop MAX_RESOLVE_DEPTH btf (btf__type_by_id btf type_id) type_id"

section \<open>Lookup by name\<close>

text \<open>
  The name of a type. The sanity check has made sure that the offset is valid; the
  code does not look at the pointer again.
\<close>

definition btf_tname :: "btf \<Rightarrow> btf_type \<Rightarrow> bytes" where
  "btf_tname btf t = (case btf__str_by_offset btf (t_name_off t) of Some s \<Rightarrow> s | None \<Rightarrow> [])"

abbreviation name_of_id :: "btf \<Rightarrow> int \<Rightarrow> bytes" where
  "name_of_id btf i \<equiv> btf_tname btf (btf_type_by_id btf (of_int i))"

definition is_empty_str :: "bytes \<Rightarrow> bool" where
  "is_empty_str s \<longleftrightarrow> (case s of [] \<Rightarrow> True | c # _ \<Rightarrow> c = 0)"

text \<open>The loop returns None at the first pair of names out of order.\<close>

fun check_sorted_loop :: "btf \<Rightarrow> int list \<Rightarrow> int \<Rightarrow> int option" where
  "check_sorted_loop btf [] named_start_id = Some named_start_id"
| "check_sorted_loop btf (i # is) named_start_id =
     (let na = name_of_id btf (i - 1); nb = name_of_id btf i in
      if strcmp na nb > 0 then None
      else let named_start_id = (if named_start_id = 0 \<and> \<not> is_empty_str na then i - 1 else named_start_id);
               named_start_id = (if named_start_id = 0 \<and> \<not> is_empty_str nb then i else named_start_id)
           in check_sorted_loop btf is named_start_id)"

definition btf_check_sorted :: "btf \<Rightarrow> btf" where
  "btf_check_sorted btf =
     (case check_sorted_loop btf [uint (b_start_id (own btf)) + 1 .. uint (btf__type_cnt btf) - 1] 0 of
        None \<Rightarrow> btf
      | Some named_start_id \<Rightarrow>
          if named_start_id \<noteq> 0
          then Btf (base_btf btf) ((own btf)\<lparr>b_named_start_id := named_start_id\<rparr>) else btf)"

function bsearch_loop :: "btf \<Rightarrow> bytes \<Rightarrow> int \<Rightarrow> int \<Rightarrow> int" where
  "bsearch_loop btf name l r =
     (if l \<le> r then
        let m = l + (r - l) div 2 in
        if strcmp (name_of_id btf m) name \<ge> 0
        then if l = r then r else bsearch_loop btf name l m
        else bsearch_loop btf name (m + 1) r
      else uint (btf__type_cnt btf))"
  by pat_completeness auto
termination
  by (relation "measure (\<lambda>(btf, name, l, r). nat (r + 1 - l))") auto

declare bsearch_loop.simps [simp del]

definition btf_find_type_by_name_bsearch :: "btf \<Rightarrow> bytes \<Rightarrow> int \<Rightarrow> int" where
  "btf_find_type_by_name_bsearch btf name start_id =
     bsearch_loop btf name start_id (uint (btf__type_cnt btf) - 1)"

text \<open>The two loops of the lookup, over the type ids from a start on.\<close>

fun find_run :: "btf \<Rightarrow> bytes \<Rightarrow> int \<Rightarrow> int list \<Rightarrow> int result" where
  "find_run btf type_name kind [] = Inl ENOENT"
| "find_run btf type_name kind (i # is) =
     (let t = btf_type_by_id btf (of_int i) in
      if strcmp (btf_tname btf t) type_name \<noteq> 0 then Inl ENOENT
      else if kind < 0 \<or> uint (btf_kind t) = kind then Inr i
      else find_run btf type_name kind is)"

fun find_linear :: "btf \<Rightarrow> bytes \<Rightarrow> int \<Rightarrow> int list \<Rightarrow> int result" where
  "find_linear btf type_name kind [] = Inl ENOENT"
| "find_linear btf type_name kind (i # is) =
     (let t = btf_type_by_id btf (of_int i) in
      if kind > 0 \<and> uint (btf_kind t) \<noteq> kind then find_linear btf type_name kind is
      else if strcmp (btf_tname btf t) type_name = 0 then Inr i
      else find_linear btf type_name kind is)"

definition find_in_btf :: "btf \<Rightarrow> int \<Rightarrow> bytes \<Rightarrow> int \<Rightarrow> int result" where
  "find_in_btf btf start_id type_name kind =
     (let nr_types = uint (btf__type_cnt btf) in
      if kind = 0 \<or> strcmp type_name (str_bytes ''void'') = 0 then Inr 0
      else if b_named_start_id (own btf) > 0 \<and> \<not> is_empty_str type_name then
        (let start_id = max start_id (b_named_start_id (own btf));
             i = btf_find_type_by_name_bsearch btf type_name start_id
         in find_run btf type_name kind [i .. nr_types - 1])
      else find_linear btf type_name kind [start_id .. nr_types - 1])"

fun btf_find_by_name_kind :: "btf \<Rightarrow> int \<Rightarrow> bytes \<Rightarrow> int \<Rightarrow> int result" where
  "btf_find_by_name_kind (Btf base b) start_id type_name kind =
     (case base of
        None \<Rightarrow> find_in_btf (Btf base b) start_id type_name kind
      | Some base' \<Rightarrow>
          if start_id < uint (b_start_id b)
          then (case btf_find_by_name_kind base' start_id type_name kind of
                  Inr i \<Rightarrow> Inr i
                | Inl e \<Rightarrow> find_in_btf (Btf base b) (uint (b_start_id b)) type_name kind)
          else find_in_btf (Btf base b) start_id type_name kind)"

definition btf__find_by_name :: "btf \<Rightarrow> bytes \<Rightarrow> int result" where
  "btf__find_by_name btf type_name = btf_find_by_name_kind btf 1 type_name (- 1)"

definition btf__find_by_name_kind_own :: "btf \<Rightarrow> bytes \<Rightarrow> u32 \<Rightarrow> int result" where
  "btf__find_by_name_kind_own btf type_name kind =
     btf_find_by_name_kind btf (uint (b_start_id (own btf))) type_name (sint kind)"

definition btf__find_by_name_kind :: "btf \<Rightarrow> bytes \<Rightarrow> u32 \<Rightarrow> int result" where
  "btf__find_by_name_kind btf type_name kind = btf_find_by_name_kind btf 1 type_name (sint kind)"

section \<open>Construction\<close>

definition btf_hdr_zero :: btf_header where
  "btf_hdr_zero = \<lparr>h_magic = 0, h_version = 0, h_flags = 0, h_hdr_len = 0, h_type_off = 0, h_type_len = 0,
     h_str_off = 0, h_str_len = 0, h_layout_off = 0, h_layout_len = 0\<rparr>"

definition btf_start_id :: "btf option \<Rightarrow> u32" where
  "btf_start_id base = (case base of None \<Rightarrow> 1 | Some b \<Rightarrow> btf__type_cnt b)"

definition btf_start_str_off :: "btf option \<Rightarrow> u32" where
  "btf_start_str_off base =
     (case base of None \<Rightarrow> 0 | Some b \<Rightarrow> h_str_len (b_hdr (own b)) + b_start_str_off (own b))"

definition btf_new_obj :: "bytes \<Rightarrow> btf option \<Rightarrow> btf_part" where
  "btf_new_obj data base =
     \<lparr>b_raw = data, b_raw_null = False, b_raw_size = of_nat (length data), b_raw_swapped = None, b_swapped_endian = False, b_hdr = btf_hdr_zero, b_types = [], b_type_offs = [],
      b_nr_types = 0, b_named_start_id = 0, b_start_id = btf_start_id base,
      b_start_str_off = btf_start_str_off base, b_strs = [], b_strs_set = None,
      b_strs_deduped = False, b_modifiable = False, b_has_hdr_extra = False,
      b_layout = None, b_ptr_sz = 0\<rparr>"

definition btf_set_sections :: "btf_part \<Rightarrow> btf_part" where
  "btf_set_sections b =
     (let h = b_hdr b in
      b\<lparr>b_strs := drop (unat (h_hdr_len h) + unat (h_str_off h)) (b_raw b),
        b_types := words_le (take (unat (h_type_len h)) (drop (unat (h_hdr_len h) + unat (h_type_off h)) (b_raw b)))\<rparr>)"

definition btf_parse_secs :: "(nat \<Rightarrow> bool) \<Rightarrow> btf option \<Rightarrow> btf_part \<Rightarrow> btf result" where
  "btf_parse_secs mem_ok base b =
     (case btf_parse_str_sec (Btf base b) of
        Some e \<Rightarrow> Inl e
      | None \<Rightarrow>
          res_bind (btf_parse_layout_sec b) (\<lambda>b'.
          res_bind (btf_parse_type_sec mem_ok (Btf base b')) (\<lambda>btf.
          case btf_sanity_check btf of Some e \<Rightarrow> Inl e | None \<Rightarrow> Inr btf)))"

text \<open>
  \<open>btf_new\<close> on the given bytes; the flags say whether the allocations of the object,
  of the copy of the data and of the index entries succeed.
\<close>

definition btf_new :: "bool \<Rightarrow> bool \<Rightarrow> (nat \<Rightarrow> bool) \<Rightarrow> bytes \<Rightarrow> btf option \<Rightarrow> bool \<Rightarrow> btf result" where
  "btf_new calloc_ok malloc_ok mem_ok data base is_mmap =
     (if \<not> calloc_ok then Inl ENOMEM
      else if \<not> is_mmap \<and> \<not> malloc_ok then Inl ENOMEM
      else res_bind (btf_parse_hdr (btf_new_obj data base)) (\<lambda>b.
           res_bind (btf_parse_secs mem_ok base (btf_set_sections b)) (\<lambda>btf.
           Inr (btf_check_sorted btf))))"

text \<open>
  A pointer returned to a caller: the object, or an address that an error code was cast to, NULL being the
  address 0. The result of \<open>btf_new\<close> is such a pointer, made by \<open>ERR_PTR\<close> from an error. The wrapper
  \<open>libbpf_ptr\<close> replaces an error by NULL and sets \<^verbatim>\<open>errno\<close>, the second component. Objects lie below
  the last 4095 addresses.
\<close>

datatype 'a ptr = Obj 'a | Addr u64

definition MAX_ERRNO :: nat where
  "MAX_ERRNO = 4095"

definition IS_ERR_VALUE :: "u64 \<Rightarrow> bool" where
  "IS_ERR_VALUE x \<longleftrightarrow> x \<ge> - of_nat MAX_ERRNO"

definition ERR_PTR :: "errno \<Rightarrow> 'a ptr" where
  "ERR_PTR e = Addr (- of_nat (errno_code e))"

fun IS_ERR :: "'a ptr \<Rightarrow> bool" where
  "IS_ERR (Obj x) \<longleftrightarrow> False"
| "IS_ERR (Addr a) \<longleftrightarrow> IS_ERR_VALUE a"

fun PTR_ERR :: "'a ptr \<Rightarrow> int" where
  "PTR_ERR (Addr a) = sint a"
| "PTR_ERR (Obj x) = 0"

definition libbpf_ptr :: "'a ptr \<Rightarrow> 'a ptr \<times> int option" where
  "libbpf_ptr ret = (if IS_ERR ret then Addr 0 else ret, if IS_ERR ret then Some (- PTR_ERR ret) else None)"

definition btf__new :: "bool \<Rightarrow> bool \<Rightarrow> (nat \<Rightarrow> bool) \<Rightarrow> bytes \<Rightarrow> btf ptr \<times> int option" where
  "btf__new calloc_ok malloc_ok mem_ok data =
     libbpf_ptr (case_sum ERR_PTR Obj (btf_new calloc_ok malloc_ok mem_ok data None False))"

definition btf__new_split :: "bool \<Rightarrow> bool \<Rightarrow> (nat \<Rightarrow> bool) \<Rightarrow> bytes \<Rightarrow> btf \<Rightarrow> btf ptr \<times> int option" where
  "btf__new_split calloc_ok malloc_ok mem_ok data base =
     libbpf_ptr (case_sum ERR_PTR Obj (btf_new calloc_ok malloc_ok mem_ok data (Some base) False))"

end
