(* ===== verification/BtfParse.thy ===== *)
theory BtfParse
  imports Btf
begin

text \<open>
  What parsing establishes: the types of a parsed object lie back to back in its
  type section, every string and type reference that the sanity check covers is
  valid, and the section bounds of the header are respected.
\<close>

section \<open>The type section after parsing\<close>

lemma type_size_cong:
  assumes "base_btf a = base_btf b" "b_layout (own a) = b_layout (own b)" "b_hdr (own a) = b_hdr (own b)"
    and "t_info s = t_info t"
  shows "btf_type_size a s = btf_type_size b t"
proof -
  have kv: "btf_kind s = btf_kind t" "btf_vlen s = btf_vlen t" using assms(4) by (simp_all add: btf_kind_def btf_vlen_def)
  then have l: "btf_layout_size l n s = btf_layout_size l n t" for l n by (simp only: btf_layout_size_def)
  have "btf_type_size_unknown a s = btf_type_size_unknown b t"
    by (simp only: btf_type_size_unknown_def Let_def assms(1-3) l)
  then show ?thesis by (simp only: btf_type_size_def kv)
qed

lemma sint_of_nat_dvd4:
  assumes "4 dvd n" "0 \<le> sint (of_nat n :: u32)"
  shows "4 dvd sint (of_nat n :: u32)"
proof -
  have "sint (of_nat n :: u32) = int (n mod 2 ^ 32)"
    using sint_nonneg_u32 [OF assms(2)] by (simp add: unsigned_of_nat take_bit_eq_mod)
  moreover have "4 dvd n mod 2 ^ 32" using assms(1) by (simp add: dvd_mod)
  ultimately show ?thesis by (simp only: of_nat_dvd_iff [of 4, simplified])
qed

lemma unat_mod4_u8:
  assumes "(w :: u8) mod 4 = 0"
  shows "4 dvd unat w"
proof -
  have "unat (w mod 4) = 0" unfolding assms by simp
  then show ?thesis unfolding unat_mod by (simp add: dvd_eq_mod_eq_0)
qed

lemma layout_size_dvd4: "0 \<le> btf_layout_size l n t \<Longrightarrow> 4 dvd btf_layout_size l n t"
proof -
  assume pos: "0 \<le> btf_layout_size l n t"
  define i e where "i = lay_info_sz (l ! unat (btf_kind t))" and "e = lay_elem_sz (l ! unat (btf_kind t))"
  let ?n = "12 + unat i + unat (btf_vlen t * ucast e)"
  have c: "\<not> n \<le> btf_kind t" "i mod 4 = 0" "e mod 4 = 0"
    using pos unfolding btf_layout_size_def Let_def i_def [symmetric] e_def [symmetric]
    by (cases "n \<le> btf_kind t"; cases "i mod 4 = 0"; cases "e mod 4 = 0"; simp)+
  then have eq: "btf_layout_size l n t = sint (of_nat ?n :: u32)"
    unfolding btf_layout_size_def Let_def i_def [symmetric] e_def [symmetric] by simp
  have "4 dvd unat (btf_vlen t) * unat e" using unat_mod4_u8 [OF c(3)] by simp
  then have "4 dvd unat (btf_vlen t * ucast e)" by (simp add: unat_word_ariths dvd_mod)
  then have "4 dvd ?n" using unat_mod4_u8 [OF c(2)] by (intro dvd_add) simp_all
  then show ?thesis using pos unfolding eq by (rule sint_of_nat_dvd4)
qed

lemma type_size_dvd4: "0 \<le> btf_type_size btf t \<Longrightarrow> 4 dvd btf_type_size btf t"
proof -
  have "0 \<le> btf_type_size_unknown btf t \<Longrightarrow> 4 dvd btf_type_size_unknown btf t"
    unfolding btf_type_size_unknown_def Let_def
    by (cases "b_layout (own btf)"; cases "base_btf btf"; cases "b_layout (own (the (base_btf btf)))")
      (simp_all add: layout_size_dvd4)
  then show "0 \<le> btf_type_size btf t \<Longrightarrow> 4 dvd btf_type_size btf t"
    unfolding btf_type_size_def Let_def by (auto split: if_splits)
qed

text \<open>The types of an object lie back to back from offset \<open>n\<close> to the end of the section.\<close>

abbreviation type_at :: "btf \<Rightarrow> nat \<Rightarrow> btf_type" where
  "type_at btf off \<equiv> type_of_words (drop (off div 4) (b_types (own btf)))"

fun type_tiles :: "btf \<Rightarrow> nat \<Rightarrow> u32 list \<Rightarrow> bool" where
  "type_tiles btf n [] \<longleftrightarrow> n = unat (h_type_len (b_hdr (own btf)))"
| "type_tiles btf n (off # offs) \<longleftrightarrow>
     unat off = n \<and> 12 \<le> btf_type_size btf (type_at btf n) \<and>
     n + nat (btf_type_size btf (type_at btf n)) \<le> unat (h_type_len (b_hdr (own btf))) \<and>
     type_tiles btf (n + nat (btf_type_size btf (type_at btf n))) offs"

lemma bswap_rest_shape:
  assumes "btf_bswap_type_rest ws = Inr ws'"
  shows "length ws' = length ws" and "take 3 ws' = take 3 ws"
proof -
  have "length ws' = length ws \<and> take 3 ws' = take 3 ws"
    using assms unfolding btf_bswap_type_rest_def Let_def bswap_words_def
    by (auto split: if_split_asm)
  then show "length ws' = length ws" "take 3 ws' = take 3 ws" by simp_all
qed

lemma words_fit: "n + 12 \<le> T \<Longrightarrow> T div 4 \<le> k \<Longrightarrow> n div 4 + 3 \<le> k" for n T k :: nat
  using div_le_mono [of "n + 12" T 4] by simp

text \<open>One round of the loop: the words from \<open>n\<close> on in native order, and the state after it.\<close>

lemma parse_types_step:
  assumes p: "btf_parse_types mem_ok btf n = Inr r" and n: "n + 12 \<le> unat (h_type_len (b_hdr (own btf)))"
    and len: "unat (h_type_len (b_hdr (own btf))) div 4 \<le> length (b_types (own btf))"
  obtains ws ts where
    "btf_parse_types mem_ok (Btf (base_btf btf) ((own btf)\<lparr>b_types := take (n div 4) (b_types (own btf)) @ ws,
       b_type_offs := take (unat (b_nr_types (own btf))) (b_type_offs (own btf)) @ [of_nat n],
       b_nr_types := b_nr_types (own btf) + 1\<rparr>)) (n + nat ts) = Inr r"
    and "length ws = length (b_types (own btf)) - n div 4" "3 \<le> length ws"
    and "ts = btf_type_size btf (type_of_words ws)" "12 \<le> ts" "n + nat ts \<le> unat (h_type_len (b_hdr (own btf)))"
    and "unat (b_nr_types (own btf)) + 1 \<le> unat BTF_MAX_NR_TYPES"
    and "\<not> b_swapped_endian (own btf) \<Longrightarrow> ws = drop (n div 4) (b_types (own btf))"
proof -
  let ?b = "own btf"
  define ws0 where "ws0 = drop (n div 4) (b_types ?b)"
  define ws1 where "ws1 = (if b_swapped_endian ?b then btf_bswap_type_base ws0 else ws0)"
  define ts where "ts = btf_type_size btf (type_of_words ws1)"
  have l1: "length ws1 = length (b_types ?b) - n div 4" "3 \<le> length ws1"
    using words_fit [OF n len] by (auto simp: ws1_def ws0_def btf_bswap_type_base_def bswap_words_def)
  from p n have ts0: "0 \<le> ts"
    and fit: "n + nat ts \<le> unat (h_type_len (b_hdr ?b))"
    unfolding ts_def ws1_def ws0_def by (subst (asm) btf_parse_types.simps, auto simp: Let_def split: if_split_asm)+
  from p n ts0 fit obtain ws b' where rest: "(if b_swapped_endian ?b then btf_bswap_type_rest ws1 else Inr ws1) = Inr ws"
    and add: "btf_add_type_idx_entry (mem_ok (unat (b_nr_types ?b)))
        (?b\<lparr>b_types := take (n div 4) (b_types ?b) @ ws\<rparr>) (of_nat n) = Inr b'"
    and r: "btf_parse_types mem_ok (Btf (base_btf btf) (b'\<lparr>b_nr_types := b_nr_types b' + 1\<rparr>)) (n + nat ts) = Inr r"
    unfolding ts_def ws1_def ws0_def by (subst (asm) btf_parse_types.simps) (auto simp: Let_def split: if_split_asm sum.split_asm)
  have sh: "length ws = length ws1" "take 3 ws = take 3 ws1"
    using rest bswap_rest_shape by (auto split: if_split_asm)
  have "ws ! 1 = take 3 ws ! 1" "ws1 ! 1 = take 3 ws1 ! 1" by simp_all
  then have "t_info (type_of_words ws) = t_info (type_of_words ws1)" using sh(2) by simp
  then have "ts = btf_type_size btf (type_of_words ws)" unfolding ts_def by (intro type_size_cong) simp_all
  moreover have "12 \<le> ts" using type_size_pos ts0 unfolding ts_def by blast
  moreover from add have "unat (b_nr_types ?b) + 1 \<le> unat BTF_MAX_NR_TYPES"
    and "b' = ?b\<lparr>b_types := take (n div 4) (b_types ?b) @ ws,
       b_type_offs := take (unat (b_nr_types ?b)) (b_type_offs ?b) @ [of_nat n]\<rparr>"
    by (auto simp: btf_add_type_idx_entry_def split: if_split_asm)
  moreover have "ws = drop (n div 4) (b_types ?b)" if "\<not> b_swapped_endian ?b"
    using that rest by (simp add: ws1_def ws0_def)
  ultimately show ?thesis using that [of ws ts] r sh(1) l1 fit by simp
qed

text \<open>What the loop keeps, and the index it builds.\<close>

definition parsed_from :: "btf \<Rightarrow> nat \<Rightarrow> btf \<Rightarrow> bool" where
  "parsed_from btf n r \<longleftrightarrow>
     base_btf r = base_btf btf \<and>
     (\<exists>ts offs nr. own r = (own btf)\<lparr>b_types := ts, b_type_offs := b_type_offs (own btf) @ offs, b_nr_types := nr\<rparr> \<and>
        unat nr = unat (b_nr_types (own btf)) + length offs \<and>
        (unat nr \<le> unat BTF_MAX_NR_TYPES \<or> offs = []) \<and>
        length ts = length (b_types (own btf)) \<and>
        take (n div 4) ts = take (n div 4) (b_types (own btf)) \<and>
        (b_swapped_endian (own btf) \<or> ts = b_types (own btf)) \<and> type_tiles r n offs)"

lemma BTF_MAX_NR_TYPES_unat: "unat BTF_MAX_NR_TYPES = 2 ^ 31 - 1"
  by (simp add: BTF_MAX_NR_TYPES_def)

lemma parse_types_ok:
  assumes "btf_parse_types mem_ok btf n = Inr r" "4 dvd n"
    and "unat (b_nr_types (own btf)) = length (b_type_offs (own btf))"
    and "unat (h_type_len (b_hdr (own btf))) div 4 \<le> length (b_types (own btf))"
  shows "parsed_from btf n r"
  using assms
proof (induction "unat (h_type_len (b_hdr (own btf))) - n" arbitrary: btf n rule: less_induct)
  case less
  let ?b = "own btf"
  show ?case
  proof (cases "n + 12 \<le> unat (h_type_len (b_hdr ?b))")
    case False
    with less.prems(1) have "r = btf" "n = unat (h_type_len (b_hdr ?b))"
      by (subst (asm) btf_parse_types.simps, simp add: Let_def split: if_split_asm)+
    then show ?thesis
      unfolding parsed_from_def
      by (intro conjI exI [of _ "b_types ?b"] exI [of _ "[]"] exI [of _ "b_nr_types ?b"]) simp_all
  next
    case True
    from parse_types_step [OF less.prems(1) True less.prems(4)] obtain ws ts where
      st: "btf_parse_types mem_ok (Btf (base_btf btf) (?b\<lparr>b_types := take (n div 4) (b_types ?b) @ ws,
        b_type_offs := b_type_offs ?b @ [of_nat n], b_nr_types := b_nr_types ?b + 1\<rparr>)) (n + nat ts) = Inr r"
      and ws: "length ws = length (b_types ?b) - n div 4" "3 \<le> length ws"
      and ts: "ts = btf_type_size btf (type_of_words ws)" "12 \<le> ts" "n + nat ts \<le> unat (h_type_len (b_hdr ?b))"
      and mx: "unat (b_nr_types ?b) + 1 \<le> unat BTF_MAX_NR_TYPES"
      and sw: "\<not> b_swapped_endian ?b \<Longrightarrow> ws = drop (n div 4) (b_types ?b)"
      using less.prems(3) by auto
    define btf1 where "btf1 = Btf (base_btf btf) (?b\<lparr>b_types := take (n div 4) (b_types ?b) @ ws,
        b_type_offs := b_type_offs ?b @ [of_nat n], b_nr_types := b_nr_types ?b + 1\<rparr>)"
    have nr1: "unat (b_nr_types ?b + 1) = unat (b_nr_types ?b) + 1"
      using mx by (simp add: BTF_MAX_NR_TYPES_unat unat_add_u32)
    have ndiv: "n div 4 + 3 \<le> length (b_types ?b)" by (rule words_fit [OF True less.prems(4)])
    have d4: "4 dvd ts" using type_size_dvd4 ts(1,2) by simp
    then have "int 4 dvd int (nat ts)" using ts(2) by simp
    then have "4 dvd nat ts" by (simp only: of_nat_dvd_iff)
    then have d4': "4 dvd n + nat ts" using less.prems(2) by (rule dvd_add [rotated])
    have "parsed_from btf1 (n + nat ts) r"
      using less.prems(2-4) ts(2,3) ndiv ws(1) True d4' nr1
      by (intro less.hyps st [folded btf1_def]) (simp_all add: btf1_def)
    then obtain ts' offs nr where q: "base_btf r = base_btf btf1"
      "own r = (own btf1)\<lparr>b_types := ts', b_type_offs := b_type_offs (own btf1) @ offs, b_nr_types := nr\<rparr>"
      "unat nr = unat (b_nr_types (own btf1)) + length offs" "unat nr \<le> unat BTF_MAX_NR_TYPES \<or> offs = []"
      "length ts' = length (b_types (own btf1))"
      "take ((n + nat ts) div 4) ts' = take ((n + nat ts) div 4) (b_types (own btf1))"
      "b_swapped_endian (own btf1) \<or> ts' = b_types (own btf1)" and tl: "type_tiles r (n + nat ts) offs"
      unfolding parsed_from_def by blast
    have r: "base_btf r = base_btf btf"
      "own r = ?b\<lparr>b_types := ts', b_type_offs := (b_type_offs ?b @ [of_nat n]) @ offs, b_nr_types := nr\<rparr>"
      using q(1,2) by (simp_all add: btf1_def)
    have nr: "unat nr = unat (b_nr_types ?b) + 1 + length offs" "unat nr \<le> unat BTF_MAX_NR_TYPES \<or> offs = []"
      using q(3) nr1 q(4) by (simp_all add: btf1_def)
    have ts': "length ts' = length (b_types ?b)"
      "take ((n + nat ts) div 4) ts' = take ((n + nat ts) div 4) (take (n div 4) (b_types ?b) @ ws)"
      "b_swapped_endian ?b \<or> ts' = take (n div 4) (b_types ?b) @ ws"
      using q(5) ws(1) ndiv q(6,7) by (simp_all add: btf1_def)
    have k3: "n div 4 + 3 \<le> (n + nat ts) div 4" using ts(2) less.prems(2) by auto
    have "take (n div 4) (take ((n + nat ts) div 4) ts') = take (n div 4) (b_types ?b)"
      unfolding ts'(2) using k3 ndiv by (simp add: min_def)
    then have pre: "take (n div 4) ts' = take (n div 4) (b_types ?b)" using k3 by (simp add: min_def)
    have "ts' ! (n div 4 + 1) = take ((n + nat ts) div 4) ts' ! (n div 4 + 1)" using k3 by simp
    also have "\<dots> = ws ! 1" unfolding ts'(2) using k3 ndiv by (simp add: nth_append min_def)
    finally have "t_info (type_at r n) = t_info (type_of_words ws)"
      using r(2) ndiv ts'(1) by simp
    then have sz: "btf_type_size r (type_at r n) = ts"
      unfolding ts(1) using r by (intro type_size_cong) simp_all
    have on: "unat (of_nat n :: u32) = n"
      using True unat_less_u32 [of "h_type_len (b_hdr ?b)"] by (intro unat_of_nat_u32) simp
    have tiles: "type_tiles r n (of_nat n # offs)"
      using tl sz ts(2,3) r(2) on by simp
    have f: "own r = ?b\<lparr>b_types := ts', b_type_offs := b_type_offs ?b @ (of_nat n # offs), b_nr_types := nr\<rparr>"
      using r(2) by simp
    have g: "unat nr = unat (b_nr_types ?b) + length ((of_nat n :: u32) # offs)" using nr(1) by simp
    have h: "unat nr \<le> unat BTF_MAX_NR_TYPES \<or> (of_nat n :: u32) # offs = []"
      using nr mx by (cases "offs = []") simp_all
    have i: "b_swapped_endian ?b \<or> ts' = b_types ?b" using ts'(3) sw by (metis append_take_drop_id)
    show ?thesis
      unfolding parsed_from_def using r(1) f g h ts'(1) pre i tiles by blast
  qed
qed

section \<open>The header\<close>

lemma hdr_prefix_len_le:
  assumes "8 \<le> length raw"
  shows "unat (h_hdr_len (hdr_prefix n raw)) \<le> unat (rd32 raw 4)"
proof -
  have b: "unat ((take (min n 32) raw @ replicate 32 0) ! i) \<le> unat (raw ! i)" if "i < 8" for i
    using that assms by (auto simp: nth_append)
  show ?thesis
    unfolding hdr_prefix_def hdr_of_bytes_def btf_header.simps unat_rd32
    using b [of 4] b [of 5] b [of 6] b [of 7] by (simp add: add_mono)
qed

lemma length_hdr_to_bytes [simp]: "length (hdr_to_bytes h) = 32"
  by (simp add: hdr_to_bytes_def)

lemma rd32_hdr_len:
  assumes "8 \<le> k" "k \<le> 32" "k \<le> length raw"
  shows "rd32 (mem_write raw 0 (take k (hdr_to_bytes h))) 4 = h_hdr_len h"
proof -
  obtain pre post where h: "hdr_to_bytes h = pre @ le32 (h_hdr_len h) @ post" "length pre = 4"
    by (rule that [of "le16 (h_magic h) @ [h_version h, h_flags h]"]) (simp_all add: hdr_to_bytes_def)
  then have "mem_write raw 0 (take k (hdr_to_bytes h)) ! (4 + i) = le32 (h_hdr_len h) ! i" if "i < 4" for i
    using that assms by (simp add: mem_write_def nth_append)
  from this [of 0] this [of 1] this [of 2] this [of 3]
  have "rd32 (mem_write raw 0 (take k (hdr_to_bytes h))) 4 = rd32 (le32 (h_hdr_len h)) 0"
    unfolding rd32_def by (simp add: numeral_2_eq_2)
  then show ?thesis by simp
qed

lemma check_hdr_None:
  assumes "btf_check_hdr left h = None"
  shows "unat (h_str_off h) + unat (h_str_len h) \<le> unat left"
    and "unat (h_type_off h) + unat (h_type_len h) \<le> unat (h_str_off h)"
    and "h_layout_len h \<noteq> 0 \<Longrightarrow> unat (h_type_off h) + unat (h_type_len h) \<le> unat (h_layout_off h) \<and>
           unat (h_layout_off h) + unat (h_layout_len h) \<le> unat (h_str_off h)"
  using assms unfolding btf_check_hdr_def by (auto split: if_split_asm)

text \<open>The sections lie behind the header, in this order, and inside the raw data.\<close>

definition hdr_in_bounds :: "btf_part \<Rightarrow> bool" where
  "hdr_in_bounds b \<longleftrightarrow>
     (let h = b_hdr b in
      unat (h_hdr_len h) + unat (h_str_off h) + unat (h_str_len h) \<le> length (b_raw b) \<and>
      unat (h_type_off h) + unat (h_type_len h) \<le> unat (h_str_off h) \<and>
      (h_layout_len h \<noteq> 0 \<longrightarrow>
         unat (h_type_off h) + unat (h_type_len h) \<le> unat (h_layout_off h) \<and>
         unat (h_layout_off h) + unat (h_layout_len h) \<le> unat (h_str_off h)))"

lemma parse_hdr_rest_ok:
  assumes p: "btf_parse_hdr_rest S L hdr b = Inr b'" and len: "length (b_raw b) < 2 ^ 32"
    and l24: "24 \<le> length (b_raw b)" and S: "S \<Longrightarrow> 24 \<le> unat L"
    and L: "L = (if S then bswap_32 (h_hdr_len hdr) else rd32 (b_raw b) 4)"
  shows "hdr_in_bounds b'" and "length (b_raw b') = length (b_raw b)"
    and "\<exists>raw s h x. b' = b\<lparr>b_raw := raw, b_swapped_endian := s, b_hdr := h, b_has_hdr_extra := x\<rparr>"
proof -
  let ?raw = "b_raw b" and ?sz = "of_nat (length (b_raw b)) :: u32"
  define raw' where "raw' = (if S then mem_write ?raw 0 (take (if L \<ge> 32 then 32 else 24)
      (hdr_to_bytes (btf_bswap_hdr hdr L))) else ?raw)"
  have sz: "unat ?sz = length ?raw" using len by (rule unat_of_nat_u32)
  have c: "\<not> ?sz < L" using p by (auto simp: btf_parse_hdr_rest_def)
  from p have d: "btf_check_hdr (?sz - L) (hdr_prefix (unat L) raw') = None"
    "b' = b\<lparr>b_raw := raw', b_swapped_endian := S, b_hdr := hdr_prefix (unat L) raw',
       b_has_hdr_extra := b_has_hdr_extra b \<or> list_ex (\<lambda>c. c \<noteq> 0) (drop 32 (take (unat L) raw'))\<rparr>"
    unfolding btf_parse_hdr_rest_def Let_def raw'_def [symmetric] using c by (auto split: option.split_asm)
  have lL: "unat L \<le> length ?raw" using c sz by (simp add: word_less_nat_alt)
  then have l32: "L \<ge> 32 \<Longrightarrow> 32 \<le> length ?raw" by (simp add: word_le_nat_alt)
  then have rl: "length raw' = length ?raw" using l24 by (simp add: raw'_def)
  have "rd32 raw' 4 = L"
  proof (cases S)
    case True
    then have "rd32 raw' 4 = h_hdr_len (btf_bswap_hdr hdr L)"
      unfolding raw'_def using l24 l32 by (simp add: rd32_hdr_len)
    then show ?thesis using True L by (simp add: btf_bswap_hdr_def Let_def)
  next
    case False
    then show ?thesis using L by (simp add: raw'_def)
  qed
  then have hl: "unat (h_hdr_len (b_hdr b')) \<le> unat L"
    using hdr_prefix_len_le [of raw' "unat L"] rl l24 d(2) by simp
  have "unat (?sz - L) = length ?raw - unat L"
    using c sz by (simp add: unat_sub not_less)
  then show "hdr_in_bounds b'"
    using check_hdr_None [OF d(1)] hl lL rl d(2) unfolding hdr_in_bounds_def Let_def by auto
  show "length (b_raw b') = length (b_raw b)" using d(2) rl by simp
  show "\<exists>raw s h x. b' = b\<lparr>b_raw := raw, b_swapped_endian := s, b_hdr := h, b_has_hdr_extra := x\<rparr>"
    using d(2) by blast
qed

lemma parse_hdr_ok:
  assumes p: "btf_parse_hdr b = Inr b'" and len: "length (b_raw b) < 2 ^ 32" and sw: "\<not> b_swapped_endian b"
  shows "hdr_in_bounds b'" and "length (b_raw b') = length (b_raw b)"
    and "\<exists>raw s h x. b' = b\<lparr>b_raw := raw, b_swapped_endian := s, b_hdr := h, b_has_hdr_extra := x\<rparr>"
proof -
  let ?raw = "b_raw b"
  define hdr where "hdr = hdr_prefix (length ?raw) ?raw"
  have "\<not> (of_nat (length ?raw) :: u32) < 24" using p by (auto simp: btf_parse_hdr_def)
  then have l24: "24 \<le> length ?raw" using unat_of_nat_u32 [OF len] by (simp add: word_less_nat_alt)
  have "rd32 (take (min (length ?raw) 32) ?raw @ replicate 32 0) 4 = rd32 ?raw 4"
    unfolding rd32_def using l24 by (simp add: nth_append)
  then have hl: "h_hdr_len hdr = rd32 ?raw 4" by (simp add: hdr_def hdr_prefix_def hdr_of_bytes_def)
  obtain S L where r: "btf_parse_hdr_rest S L hdr b = Inr b'" "S \<Longrightarrow> 24 \<le> unat L"
    "L = (if S then bswap_32 (h_hdr_len hdr) else rd32 ?raw 4)"
  proof (cases "h_magic hdr = bswap_16 BTF_MAGIC")
    case True
    then show ?thesis using p sw that [of True "bswap_32 (h_hdr_len hdr)"]
      unfolding btf_parse_hdr_def Let_def hdr_def [symmetric] by (auto simp: word_less_nat_alt split: if_split_asm)
  next
    case False
    then show ?thesis using p sw hl that [of False "h_hdr_len hdr"]
      unfolding btf_parse_hdr_def Let_def hdr_def [symmetric] by (auto split: if_split_asm)
  qed
  note k = parse_hdr_rest_ok [OF r(1) len l24 r(2,3)]
  show "hdr_in_bounds b'" "length (b_raw b') = length (b_raw b)"
    "\<exists>raw s h x. b' = b\<lparr>b_raw := raw, b_swapped_endian := s, b_hdr := h, b_has_hdr_extra := x\<rparr>"
    by (rule k; assumption)+
qed

section \<open>Parsed objects\<close>

text \<open>Neither lookups nor the sanity check depend on the index of the first named type.\<close>

lemma named_irrelevant:
  fixes b :: btf_part and x :: int
  defines "b' \<equiv> b\<lparr>b_named_start_id := x\<rparr>"
  shows "btf_sanity_check (Btf base b') = btf_sanity_check (Btf base b)"
    and "btf_type_size (Btf base b') t = btf_type_size (Btf base b) t"
    and "btf_type_by_id (Btf base b') = btf_type_by_id (Btf base b)"
    and "btf__str_by_offset (Btf base b') = btf__str_by_offset (Btf base b)"
    and "btf__type_cnt (Btf base b') = btf__type_cnt (Btf base b)"
proof -
  have f: "type_in_part b' = type_in_part b" "b_start_id b' = b_start_id b" "b_nr_types b' = b_nr_types b"
    "b_start_str_off b' = b_start_str_off b" "b_hdr b' = b_hdr b" "btf_strs_data b' = btf_strs_data b" "b_layout b' = b_layout b"
    by (simp_all add: b'_def type_in_part_def btf_strs_data_def fun_eq_iff split: option.split)
  show t: "btf_type_by_id (Btf base b') = btf_type_by_id (Btf base b)"
    by (rule ext) (simp only: btf_type_by_id.simps f)
  show s: "btf__str_by_offset (Btf base b') = btf__str_by_offset (Btf base b)"
    by (rule ext) (simp only: btf__str_by_offset.simps f)
  show c: "btf__type_cnt (Btf base b') = btf__type_cnt (Btf base b)"
    by (simp only: btf__type_cnt_def btf.sel f)
  have i: "btf__type_by_id (Btf base b') = btf__type_by_id (Btf base b)"
    by (rule ext) (simp only: btf__type_by_id_def btf.sel f t)
  have u: "btf_type_size_unknown (Btf base b') = btf_type_size_unknown (Btf base b)"
    by (rule ext) (simp only: btf_type_size_unknown_def Let_def btf.sel f)
  show "btf_sanity_check (Btf base b') = btf_sanity_check (Btf base b)"
    by (simp only: btf_sanity_check_def btf_validate_type_def btf_validate_str_def btf_validate_id_def t s c i u btf.sel f)
  show "btf_type_size (Btf base b') t = btf_type_size (Btf base b) t"
    by (simp only: btf_type_size_def u)
qed

lemma tiles_cong:
  assumes "\<And>t. btf_type_size a t = btf_type_size b t" "b_types (own a) = b_types (own b)" "b_hdr (own a) = b_hdr (own b)"
  shows "type_tiles a n offs = type_tiles b n offs"
  by (induction offs arbitrary: n) (simp_all add: assms)

lemma tiles_dvd4: "type_tiles btf n offs \<Longrightarrow> 4 dvd n \<Longrightarrow> 4 dvd unat (h_type_len (b_hdr (own btf)))"
proof (induction offs arbitrary: n)
  case (Cons off offs)
  let ?ts = "btf_type_size btf (type_at btf n)"
  have "4 dvd ?ts" using Cons.prems(1) by (intro type_size_dvd4) simp
  then have "int 4 dvd int (nat ?ts)" using Cons.prems(1) by simp
  then have "4 dvd nat ?ts" by (simp only: of_nat_dvd_iff)
  then show ?case using Cons by auto
qed simp

lemma check_sorted_shape: "\<exists>x. btf_check_sorted btf = Btf (base_btf btf) ((own btf)\<lparr>b_named_start_id := x\<rparr>)"
proof -
  have "\<exists>x. btf = Btf (base_btf btf) ((own btf)\<lparr>b_named_start_id := x\<rparr>)"
    by (rule exI [of _ "b_named_start_id (own btf)"]) simp
  then show ?thesis unfolding btf_check_sorted_def by (auto split: option.split)
qed

lemma str_sec_cong:
  "b_hdr b = b_hdr b' \<Longrightarrow> b_strs b = b_strs b' \<Longrightarrow> btf_parse_str_sec (Btf base b) = btf_parse_str_sec (Btf base b')"
  by (simp only: btf_parse_str_sec_def Let_def btf.sel)

lemma btf_new_cases:
  assumes "btf_new cok mok mem_ok data base is_mmap = Inr btf" "length data < 2 ^ 32"
  obtains b3 btf0 where "hdr_in_bounds b3" "length (b_raw b3) = length data" "b_type_offs b3 = []" "b_nr_types b3 = 0"
    and "length (b_types b3) = unat (h_type_len (b_hdr b3)) div 4"
    and "b_start_id b3 = btf_start_id base" "b_start_str_off b3 = btf_start_str_off base"
    and "b_strs b3 = drop (unat (h_hdr_len (b_hdr b3)) + unat (h_str_off (b_hdr b3))) (b_raw b3)" "b_strs_set b3 = None"
    and "btf_parse_str_sec (Btf base b3) = None"
    and "btf_parse_types mem_ok (Btf base b3) 0 = Inr btf0" "btf_sanity_check btf0 = None" "btf = btf_check_sorted btf0"
proof -
  from assms(1) obtain b1 btf0 where h: "btf_parse_hdr (btf_new_obj data base) = Inr b1"
    and secs: "btf_parse_secs mem_ok base (btf_set_sections b1) = Inr btf0" and btf: "btf = btf_check_sorted btf0"
    unfolding btf_new_def by (auto simp: res_bind_cases split: if_split_asm)
  define b2 where "b2 = btf_set_sections b1"
  from secs obtain b3 where str: "btf_parse_str_sec (Btf base b2) = None"
    and lay: "btf_parse_layout_sec b2 = Inr b3"
    and ty: "btf_parse_types mem_ok (Btf base b3) 0 = Inr btf0" "btf_sanity_check btf0 = None"
    unfolding btf_parse_secs_def b2_def [symmetric] btf_parse_type_sec_def
    by (auto simp: res_bind_cases split: option.split_asm)
  have p0: "length (b_raw (btf_new_obj data base)) < 2 ^ 32" "\<not> b_swapped_endian (btf_new_obj data base)"
    using assms(2) by (simp_all add: btf_new_obj_def)
  note ok = parse_hdr_ok [OF h p0]
  from ok(3) obtain raw s hd x where b1: "b1 = (btf_new_obj data base)\<lparr>b_raw := raw, b_swapped_endian := s,
      b_hdr := hd, b_has_hdr_extra := x\<rparr>"
    by blast
  have "\<exists>l. b3 = b2\<lparr>b_layout := l\<rparr>"
  proof (cases "h_layout_len (b_hdr b2) = 0")
    case True
    then have "b3 = b2\<lparr>b_layout := b_layout b2\<rparr>" using lay by (simp add: btf_parse_layout_sec_def Let_def)
    then show ?thesis ..
  next
    case False
    then show ?thesis using lay unfolding btf_parse_layout_sec_def Let_def
      by (cases "h_layout_len (b_hdr b2) mod 4 = 0") auto
  qed
  then obtain l where b3: "b3 = b2\<lparr>b_layout := l\<rparr>" ..
  have len: "length raw = length data" using ok(2) by (simp add: b1 btf_new_obj_def)
  have "unat (h_type_len hd) \<le> length raw - (unat (h_hdr_len hd) + unat (h_type_off hd))"
    using ok(1) by (auto simp: hdr_in_bounds_def b1 Let_def)
  then have "length (b_types b3) = unat (h_type_len (b_hdr b3)) div 4"
    by (simp add: b3 b2_def btf_set_sections_def Let_def b1 length_words_le)
  moreover have "hdr_in_bounds b3" using ok(1) by (simp add: hdr_in_bounds_def b3 b2_def btf_set_sections_def Let_def)
  moreover have "btf_parse_str_sec (Btf base b3) = None" using str str_sec_cong [of b3 b2] by (simp add: b3)
  ultimately show ?thesis
    using ty btf len by (intro that [of b3 btf0]) (simp_all add: b3 b2_def btf_set_sections_def Let_def b1 btf_new_obj_def)
qed

lemma btf_new_sound_facts:
  assumes "btf_new cok mok mem_ok data base is_mmap = Inr btf" "length data < 2 ^ 32"
  shows "base_btf btf = base" "hdr_in_bounds (own btf)" "length (b_raw (own btf)) = length data"
    and "unat (b_nr_types (own btf)) = length (b_type_offs (own btf))"
    and "length (b_type_offs (own btf)) < 2 ^ 31"
    and "unat (h_type_len (b_hdr (own btf))) = 4 * length (b_types (own btf))"
    and "type_tiles btf 0 (b_type_offs (own btf))" "btf_sanity_check btf = None"
    and "b_start_id (own btf) = btf_start_id base" "b_start_str_off (own btf) = btf_start_str_off base"
    and "btf_strs_data (own btf) = drop (unat (h_hdr_len (b_hdr (own btf))) + unat (h_str_off (b_hdr (own btf)))) (b_raw (own btf))"
    and "btf_parse_str_sec btf = None" "b_strs_set (own btf) = None"
proof -
  obtain b3 btf0 where b3: "hdr_in_bounds b3" "length (b_raw b3) = length data" "b_type_offs b3 = []" "b_nr_types b3 = 0"
    "length (b_types b3) = unat (h_type_len (b_hdr b3)) div 4"
    "b_start_id b3 = btf_start_id base" "b_start_str_off b3 = btf_start_str_off base"
    "b_strs b3 = drop (unat (h_hdr_len (b_hdr b3)) + unat (h_str_off (b_hdr b3))) (b_raw b3)" "b_strs_set b3 = None"
    "btf_parse_str_sec (Btf base b3) = None"
    and p: "btf_parse_types mem_ok (Btf base b3) 0 = Inr btf0" "btf_sanity_check btf0 = None" "btf = btf_check_sorted btf0"
    using btf_new_cases [OF assms] by blast
  have "parsed_from (Btf base b3) 0 btf0"
    using b3 by (intro parse_types_ok [OF p(1)]) simp_all
  then obtain ts offs nr where o: "base_btf btf0 = base"
    "own btf0 = b3\<lparr>b_types := ts, b_type_offs := [] @ offs, b_nr_types := nr\<rparr>"
    "unat nr = unat (0 :: u32) + length offs" "unat nr \<le> unat BTF_MAX_NR_TYPES \<or> offs = []" "length ts = length (b_types b3)"
    "type_tiles btf0 0 offs"
    unfolding parsed_from_def btf.sel b3(3,4) by blast
  obtain x where x: "btf = Btf base ((own btf0)\<lparr>b_named_start_id := x\<rparr>)"
    using check_sorted_shape [of btf0] p(3) o(1) by auto
  have b0: "btf0 = Btf base (own btf0)" using o(1) by (cases btf0) simp
  have tl: "type_tiles btf 0 offs = type_tiles btf0 0 offs"
    by (rule tiles_cong) (subst b0, simp_all add: x named_irrelevant(2))
  show "base_btf btf = base" "hdr_in_bounds (own btf)" "length (b_raw (own btf)) = length data" "b_strs_set (own btf) = None"
    "unat (b_nr_types (own btf)) = length (b_type_offs (own btf))"
    "b_start_id (own btf) = btf_start_id base" "b_start_str_off (own btf) = btf_start_str_off base"
    "btf_strs_data (own btf) = drop (unat (h_hdr_len (b_hdr (own btf))) + unat (h_str_off (b_hdr (own btf)))) (b_raw (own btf))"
    using b3 o by (simp_all add: x hdr_in_bounds_def btf_strs_data_def)
  show "btf_parse_str_sec btf = None"
    using b3(10) str_sec_cong [of "own btf" b3 base] o(2) by (simp add: x)
  show "type_tiles btf 0 (b_type_offs (own btf))" using tl o(2,6) by (simp add: x)
  show "length (b_type_offs (own btf)) < 2 ^ 31"
    using o(2-4) by (auto simp: x BTF_MAX_NR_TYPES_unat)
  show "btf_sanity_check btf = None"
    using p(2) b0 by (simp add: x named_irrelevant(1))
  have "4 dvd unat (h_type_len (b_hdr b3))" using tiles_dvd4 [OF o(6)] o(2) by simp
  then show "unat (h_type_len (b_hdr (own btf))) = 4 * length (b_types (own btf))"
    using o(2,5) b3(5) by (simp add: x)
qed

end
