(* ===== verification/BtfIter.thy ===== *)
theory BtfIter
  imports BtfParse
begin

text \<open>
  The iterator over the type-id and string-offset fields of a type,
  \<^verbatim>\<open>src/src/btf_iter.c\<close>. A pointer into the type is its byte offset from the type.
  Running the iterator to its end is a partial function; it is shown to deliver
  exactly the fields of the descriptor, all inside the type, and the ids it
  delivers are related to what the sanity check of BTF has validated.
\<close>

section \<open>The iterator\<close>

record btf_field_desc =
  t_off_cnt :: nat
  t_offs :: "nat list"
  m_sz :: nat
  m_off_cnt :: nat
  m_offs :: "nat list"

record btf_field_iter =
  it_desc :: btf_field_desc
  it_p :: "nat option"
  it_m_idx :: int
  it_off_idx :: nat
  it_vlen :: nat

datatype btf_field_iter_kind = BTF_FIELD_ITER_IDS | BTF_FIELD_ITER_STRS

definition desc_none :: btf_field_desc where
  "desc_none = \<lparr>t_off_cnt = 0, t_offs = [], m_sz = 0, m_off_cnt = 0, m_offs = []\<rparr>"

definition desc_type :: "nat list \<Rightarrow> btf_field_desc" where
  "desc_type offs = \<lparr>t_off_cnt = length offs, t_offs = offs, m_sz = 0, m_off_cnt = 0, m_offs = []\<rparr>"

definition desc_members :: "nat list \<Rightarrow> nat \<Rightarrow> nat list \<Rightarrow> btf_field_desc" where
  "desc_members offs sz' moffs = \<lparr>t_off_cnt = length offs, t_offs = offs, m_sz = sz', m_off_cnt = length moffs, m_offs = moffs\<rparr>"

text \<open>The two inner switches. In \<^verbatim>\<open>struct btf_type\<close>, \<open>name_off\<close> is at 0 and \<open>type\<close> at 8.\<close>

definition desc_ids :: "u32 \<Rightarrow> btf_field_desc option" where
  "desc_ids k =
     (if k = BTF_KIND_UNKN \<or> k = BTF_KIND_INT \<or> k = BTF_KIND_FLOAT \<or> k = BTF_KIND_ENUM
         \<or> k = BTF_KIND_ENUM64 \<or> k = BTF_KIND_LOC_PARAM then Some desc_none
      else if k = BTF_KIND_FWD \<or> k = BTF_KIND_CONST \<or> k = BTF_KIND_VOLATILE \<or> k = BTF_KIND_RESTRICT
         \<or> k = BTF_KIND_PTR \<or> k = BTF_KIND_TYPEDEF \<or> k = BTF_KIND_FUNC \<or> k = BTF_KIND_VAR
         \<or> k = BTF_KIND_DECL_TAG \<or> k = BTF_KIND_TYPE_TAG then Some (desc_type [8])
      else if k = BTF_KIND_ARRAY then Some (desc_type [12 + 0, 12 + 4])
      else if k = BTF_KIND_STRUCT \<or> k = BTF_KIND_UNION then Some (desc_members [] 12 [4])
      else if k = BTF_KIND_FUNC_PROTO then Some (desc_members [8] 8 [4])
      else if k = BTF_KIND_DATASEC then Some (desc_members [] 12 [0])
      else if k = BTF_KIND_LOC_PROTO then Some (desc_members [] 4 [0])
      else if k = BTF_KIND_LOCSEC then Some (desc_members [] 12 [0, 4])
      else None)"

definition desc_strs :: "u32 \<Rightarrow> btf_field_desc option" where
  "desc_strs k =
     (if k = BTF_KIND_UNKN then Some desc_none
      else if k = BTF_KIND_INT \<or> k = BTF_KIND_FLOAT \<or> k = BTF_KIND_FWD \<or> k = BTF_KIND_ARRAY
         \<or> k = BTF_KIND_CONST \<or> k = BTF_KIND_VOLATILE \<or> k = BTF_KIND_RESTRICT \<or> k = BTF_KIND_PTR
         \<or> k = BTF_KIND_TYPEDEF \<or> k = BTF_KIND_FUNC \<or> k = BTF_KIND_VAR \<or> k = BTF_KIND_DECL_TAG
         \<or> k = BTF_KIND_TYPE_TAG \<or> k = BTF_KIND_DATASEC \<or> k = BTF_KIND_LOC_PARAM
         \<or> k = BTF_KIND_LOC_PROTO \<or> k = BTF_KIND_LOCSEC then Some (desc_type [0])
      else if k = BTF_KIND_ENUM then Some (desc_members [0] 8 [0])
      else if k = BTF_KIND_ENUM64 then Some (desc_members [0] 12 [0])
      else if k = BTF_KIND_STRUCT \<or> k = BTF_KIND_UNION then Some (desc_members [0] 12 [0])
      else if k = BTF_KIND_FUNC_PROTO then Some (desc_members [0] 8 [0])
      else None)"

definition btf_field_iter_init :: "btf_type \<Rightarrow> btf_field_iter_kind \<Rightarrow> btf_field_iter result" where
  "btf_field_iter_init t iter_kind =
     (case (case iter_kind of BTF_FIELD_ITER_IDS \<Rightarrow> desc_ids (btf_kind t)
                            | BTF_FIELD_ITER_STRS \<Rightarrow> desc_strs (btf_kind t)) of
        None \<Rightarrow> Inl EINVAL
      | Some desc \<Rightarrow>
          Inr \<lparr>it_desc = desc, it_p = Some 0, it_m_idx = - 1, it_off_idx = 0,
               it_vlen = (if m_sz desc \<noteq> 0 then unat (btf_vlen t) else 0)\<rparr>)"

text \<open>The step from the once-per-type fields to the members.\<close>

definition iter_to_members :: "btf_field_iter \<Rightarrow> btf_field_iter" where
  "iter_to_members it = it\<lparr>it_m_idx := 0, it_p := map_option (\<lambda>p. p + 12) (it_p it), it_off_idx := 0\<rparr>"

definition iter_next_member :: "btf_field_iter \<Rightarrow> nat option \<times> btf_field_iter" where
  "iter_next_member it =
     (let d = it_desc it in
      if m_sz d = 0 then (None, it\<lparr>it_p := None\<rparr>)
      else
        let it = (if it_off_idx it \<ge> m_off_cnt d
                  then it\<lparr>it_m_idx := it_m_idx it + 1, it_p := map_option (\<lambda>p. p + m_sz d) (it_p it), it_off_idx := 0\<rparr>
                  else it)
        in if it_m_idx it < int (it_vlen it)
           then (map_option (\<lambda>p. p + m_offs d ! it_off_idx it) (it_p it), it\<lparr>it_off_idx := it_off_idx it + 1\<rparr>)
           else (None, it\<lparr>it_p := None\<rparr>))"

definition btf_field_iter_next :: "btf_field_iter \<Rightarrow> nat option \<times> btf_field_iter" where
  "btf_field_iter_next it =
     (case it_p it of
        None \<Rightarrow> (None, it)
      | Some p \<Rightarrow>
          if it_m_idx it < 0
          then if it_off_idx it < t_off_cnt (it_desc it)
               then (Some (p + t_offs (it_desc it) ! it_off_idx it), it\<lparr>it_off_idx := it_off_idx it + 1\<rparr>)
               else iter_next_member (iter_to_members it)
          else iter_next_member it)"

text \<open>The fields a loop over the iterator visits; \<open>None\<close> if the loop does not end.\<close>

partial_function (option) iter_collect :: "btf_field_iter \<Rightarrow> nat list option" where
  "iter_collect it =
     (case btf_field_iter_next it of
        (None, it') \<Rightarrow> Some []
      | (Some off, it') \<Rightarrow> Option.bind (iter_collect it') (\<lambda>offs. Some (off # offs)))"

text \<open>The word of the type that a field offset denotes.\<close>

definition type_word :: "btf_type \<Rightarrow> nat \<Rightarrow> u32" where
  "type_word t off = ([t_name_off t, t_info t, t_size t] @ t_extra t) ! (off div 4)"

section \<open>The iterator delivers the fields of the descriptor\<close>

definition member_fields :: "btf_field_desc \<Rightarrow> nat \<Rightarrow> nat list" where
  "member_fields d i = map (\<lambda>off. 12 + i * m_sz d + off) (m_offs d)"

definition desc_fields :: "btf_field_desc \<Rightarrow> nat \<Rightarrow> nat list" where
  "desc_fields d vlen = t_offs d @ (if m_sz d = 0 then [] else concat (map (member_fields d) [0..<vlen]))"

definition desc_ok :: "btf_field_desc \<Rightarrow> bool" where
  "desc_ok d \<longleftrightarrow> t_off_cnt d = length (t_offs d) \<and> m_off_cnt d = length (m_offs d) \<and> (m_sz d = 0 \<or> m_offs d \<noteq> [])"

text \<open>The iterator at field \<open>j\<close> of member \<open>i\<close>, and at the \<open>j\<close>-th field of the type itself.\<close>

abbreviation (input) at_member :: "btf_field_desc \<Rightarrow> nat \<Rightarrow> nat \<Rightarrow> nat \<Rightarrow> btf_field_iter" where
  "at_member d vlen i j \<equiv>
     \<lparr>it_desc = d, it_p = Some (12 + i * m_sz d), it_m_idx = int i, it_off_idx = j, it_vlen = vlen\<rparr>"

abbreviation (input) at_type :: "btf_field_desc \<Rightarrow> nat \<Rightarrow> nat \<Rightarrow> btf_field_iter" where
  "at_type d vlen j \<equiv> \<lparr>it_desc = d, it_p = Some 0, it_m_idx = - 1, it_off_idx = j, it_vlen = vlen\<rparr>"

lemma next_field:
  assumes "m_sz d \<noteq> 0" "j < m_off_cnt d" "i < vlen"
  shows "btf_field_iter_next (at_member d vlen i j) = (Some (12 + i * m_sz d + m_offs d ! j), at_member d vlen i (Suc j))"
  using assms by (simp add: btf_field_iter_next_def iter_next_member_def)

lemma next_member:
  assumes "m_sz d \<noteq> 0" "0 < m_off_cnt d"
  shows "btf_field_iter_next (at_member d vlen i (m_off_cnt d)) = btf_field_iter_next (at_member d vlen (Suc i) 0)"
  using assms by (simp add: btf_field_iter_next_def iter_next_member_def Let_def add_ac)

lemma collect_member:
  assumes "m_sz d \<noteq> 0" "m_off_cnt d = length (m_offs d)" "i < vlen" "j \<le> m_off_cnt d"
    and "iter_collect (at_member d vlen i (m_off_cnt d)) = Some xs"
  shows "iter_collect (at_member d vlen i j) = Some (drop j (member_fields d i) @ xs)"
  using assms(4)
proof (induction j rule: inc_induct)
  case base
  then show ?case using assms(2,5) by (simp add: member_fields_def)
next
  case (step j)
  then have "drop j (member_fields d i) = (12 + i * m_sz d + m_offs d ! j) # drop (Suc j) (member_fields d i)"
    using assms(2) by (simp add: member_fields_def Cons_nth_drop_Suc [symmetric])
  then show ?case
    using step next_field [OF assms(1), of j i vlen] assms(3) by (subst iter_collect.simps) simp
qed

lemma collect_members:
  assumes "m_sz d \<noteq> 0" "desc_ok d" "i \<le> vlen"
  shows "iter_collect (at_member d vlen i 0) = Some (concat (map (member_fields d) [i..<vlen]))"
  using assms(3)
proof (induction i rule: inc_induct)
  case base
  have "m_off_cnt d \<noteq> 0" using assms by (auto simp: desc_ok_def)
  then show ?case
    using assms(1) by (subst iter_collect.simps) (simp add: btf_field_iter_next_def iter_next_member_def)
next
  case (step i)
  have pos: "0 < m_off_cnt d" and cnt: "m_off_cnt d = length (m_offs d)" using assms by (auto simp: desc_ok_def)
  have "iter_collect (at_member d vlen i (m_off_cnt d)) = iter_collect (at_member d vlen (Suc i) 0)"
    by (subst (1 2) iter_collect.simps) (simp only: next_member [OF assms(1) pos])
  then have "iter_collect (at_member d vlen i (m_off_cnt d)) = Some (concat (map (member_fields d) [Suc i..<vlen]))"
    using step.IH by simp
  from collect_member [OF assms(1) cnt step.hyps(2) le0 this] step.hyps(2) show ?case
    by (simp add: upt_conv_Cons)
qed

lemma collect_desc:
  assumes "desc_ok d"
  shows "iter_collect (at_type d vlen 0) = Some (desc_fields d vlen)"
proof -
  let ?ms = "if m_sz d = 0 then [] else concat (map (member_fields d) [0..<vlen])"
  have "iter_collect (at_type d vlen j) = Some (drop j (t_offs d) @ ?ms)" if "j \<le> t_off_cnt d" for j
    using that
  proof (induction j rule: inc_induct)
    case base
    have c: "t_off_cnt d = length (t_offs d)" using assms by (simp add: desc_ok_def)
    show ?case
    proof (cases "m_sz d = 0")
      case True
      then show ?thesis using c
        by (subst iter_collect.simps) (simp add: btf_field_iter_next_def iter_next_member_def iter_to_members_def)
    next
      case False
      have "btf_field_iter_next (at_type d vlen (t_off_cnt d)) = btf_field_iter_next (at_member d vlen 0 0)"
        by (simp add: btf_field_iter_next_def iter_to_members_def)
      then have "iter_collect (at_type d vlen (t_off_cnt d)) = iter_collect (at_member d vlen 0 0)"
        by (subst (1 2) iter_collect.simps) simp
      then show ?thesis using collect_members [OF False assms, of 0 vlen] False c by simp
    qed
  next
    case (step j)
    then have "j < length (t_offs d)" using assms by (simp add: desc_ok_def)
    then have "drop j (t_offs d) = t_offs d ! j # drop (Suc j) (t_offs d)" by (simp add: Cons_nth_drop_Suc)
    then show ?case
      using step by (subst iter_collect.simps) (simp add: btf_field_iter_next_def)
  qed
  from this [of 0] show ?thesis by (simp add: desc_fields_def)
qed

section \<open>The fields by kind\<close>

text \<open>The type ids and the string offsets of a type, by the accessors of its kind.\<close>

definition type_ids :: "btf_type \<Rightarrow> u32 list" where
  "type_ids t =
     (let k = btf_kind t; is = [0..<unat (btf_vlen t)] in
      if k = BTF_KIND_FWD \<or> k = BTF_KIND_CONST \<or> k = BTF_KIND_VOLATILE \<or> k = BTF_KIND_RESTRICT
         \<or> k = BTF_KIND_PTR \<or> k = BTF_KIND_TYPEDEF \<or> k = BTF_KIND_FUNC \<or> k = BTF_KIND_VAR
         \<or> k = BTF_KIND_DECL_TAG \<or> k = BTF_KIND_TYPE_TAG then [t_type t]
      else if k = BTF_KIND_ARRAY then [a_type (btf_array_of t), a_index_type (btf_array_of t)]
      else if k = BTF_KIND_STRUCT \<or> k = BTF_KIND_UNION then map (\<lambda>i. m_type (btf_member_at t i)) is
      else if k = BTF_KIND_FUNC_PROTO then t_type t # map (\<lambda>i. p_type (btf_param_at t i)) is
      else if k = BTF_KIND_DATASEC then map (\<lambda>i. v_type (btf_var_secinfo_at t i)) is
      else if k = BTF_KIND_LOC_PROTO then map (btf_loc_proto_param_at t) is
      else if k = BTF_KIND_LOCSEC then concat (map (\<lambda>i. [l_func (btf_loc_at t i), l_loc_proto (btf_loc_at t i)]) is)
      else [])"

definition type_strs :: "btf_type \<Rightarrow> u32 list" where
  "type_strs t =
     (let k = btf_kind t; is = [0..<unat (btf_vlen t)] in
      if k = BTF_KIND_UNKN then []
      else if k = BTF_KIND_ENUM then t_name_off t # map (\<lambda>i. e_name_off (btf_enum_at t i)) is
      else if k = BTF_KIND_ENUM64 then t_name_off t # map (\<lambda>i. e64_name_off (btf_enum64_at t i)) is
      else if k = BTF_KIND_STRUCT \<or> k = BTF_KIND_UNION then t_name_off t # map (\<lambda>i. m_name_off (btf_member_at t i)) is
      else if k = BTF_KIND_FUNC_PROTO then t_name_off t # map (\<lambda>i. p_name_off (btf_param_at t i)) is
      else [t_name_off t])"

definition iter_desc :: "btf_field_iter_kind \<Rightarrow> u32 \<Rightarrow> btf_field_desc option" where
  "iter_desc ik k = (case ik of BTF_FIELD_ITER_IDS \<Rightarrow> desc_ids k | BTF_FIELD_ITER_STRS \<Rightarrow> desc_strs k)"

lemma iter_init_desc:
  assumes "btf_field_iter_init t ik = Inr it"
  obtains d where "iter_desc ik (btf_kind t) = Some d" "it = at_type d (if m_sz d \<noteq> 0 then unat (btf_vlen t) else 0) 0"
  using assms by (auto simp: btf_field_iter_init_def iter_desc_def split: option.split_asm btf_field_iter_kind.split_asm)

lemma iter_desc_ok: "iter_desc ik k = Some d \<Longrightarrow> desc_ok d"
  by (auto simp: iter_desc_def desc_ids_def desc_strs_def desc_ok_def desc_none_def desc_type_def desc_members_def
      split: btf_field_iter_kind.split_asm if_split_asm)

lemma uint_vlen: "uint (btf_vlen t) = int (unat (btf_vlen t))"
  by simp

lemma desc_fields_simps:
  "desc_fields desc_none n = []" "desc_fields (desc_type os) n = os"
  "m \<noteq> 0 \<Longrightarrow> desc_fields (desc_members os m ms) n = os @ concat (map (\<lambda>i. map (\<lambda>off. 12 + i * m + off) ms) [0..<n])"
  by (simp_all add: desc_fields_def desc_none_def desc_type_def desc_members_def member_fields_def [abs_def])

lemma desc_ids_cases:
  assumes "desc_ids k = Some d"
  obtains (none) "d = desc_none" "k \<in> {0, 1, 16, 6, 19, 20}"
  | (ref) "d = desc_type [8]" "k \<in> {7, 10, 9, 11, 2, 8, 12, 14, 17, 18}"
  | (array) "d = desc_type [12, 16]" "k = 3"
  | (composite) "d = desc_members [] 12 [4]" "k \<in> {4, 5}"
  | (func_proto) "d = desc_members [8] 8 [4]" "k = 13"
  | (datasec) "d = desc_members [] 12 [0]" "k = 15"
  | (loc_proto) "d = desc_members [] 4 [0]" "k = 21"
  | (locsec) "d = desc_members [] 12 [0, 4]" "k = 22"
  using assms unfolding desc_ids_def by (auto split: if_split_asm)

lemma desc_strs_cases:
  assumes "desc_strs k = Some d"
  obtains (none) "d = desc_none" "k = 0"
  | (name) "d = desc_type [0]" "k \<in> {1, 16, 7, 3, 10, 9, 11, 2, 8, 12, 14, 17, 18, 15, 20, 21, 22}"
  | (enum) "d = desc_members [0] 8 [0]" "k = 6"
  | (enum64) "d = desc_members [0] 12 [0]" "k = 19"
  | (composite) "d = desc_members [0] 12 [0]" "k \<in> {4, 5}"
  | (func_proto) "d = desc_members [0] 8 [0]" "k = 13"
  using assms unfolding desc_strs_def by (auto split: if_split_asm)

text \<open>The size of a type of a known kind.\<close>

lemma type_size_kind:
  assumes "unat (btf_vlen t) = n"
  shows "btf_kind t \<in> {7, 10, 9, 11, 2, 8, 12, 16, 18} \<Longrightarrow> btf_type_size btf t = 12"
    and "btf_kind t \<in> {1, 14, 17} \<Longrightarrow> btf_type_size btf t = 16"
    and "btf_kind t = 3 \<Longrightarrow> btf_type_size btf t = 24"
    and "btf_kind t \<in> {6, 13} \<Longrightarrow> btf_type_size btf t = 12 + int n * 8"
    and "btf_kind t \<in> {19, 4, 5, 15, 22} \<Longrightarrow> btf_type_size btf t = 12 + int n * 12"
    and "btf_kind t = 20 \<Longrightarrow> btf_type_size btf t = 16 + int n * 4"
    and "btf_kind t = 21 \<Longrightarrow> btf_type_size btf t = 12 + int n * 4"
  using assms [symmetric] unfolding btf_type_size_def Let_def by auto

lemma ids_in_bounds:
  assumes "desc_ids (btf_kind t) = Some d" "unat (btf_vlen t) = n" "off \<in> set (desc_fields d n)"
  shows "4 dvd off \<and> int off + 4 \<le> btf_type_size btf t"
  using assms(1)
proof (cases rule: desc_ids_cases)
  case ref
  then have "12 \<le> btf_type_size btf t"
    using type_size_kind(1,2) [OF assms(2), of btf] by auto
  then show ?thesis using ref assms(3) by (auto simp: desc_fields_simps)
qed (use assms(3) type_size_kind [OF assms(2), of btf] in \<open>auto simp: desc_fields_simps\<close>)

lemma strs_in_bounds:
  assumes "desc_strs (btf_kind t) = Some d" "unat (btf_vlen t) = n" "off \<in> set (desc_fields d n)"
  shows "4 dvd off \<and> int off + 4 \<le> btf_type_size btf t"
  using assms(1)
proof (cases rule: desc_strs_cases)
  case name
  then have "12 \<le> btf_type_size btf t"
    using type_size_kind [OF assms(2), of btf] by auto
  then show ?thesis using name assms(3) by (auto simp: desc_fields_simps)
qed (use assms(3) type_size_kind [OF assms(2), of btf] in \<open>auto simp: desc_fields_simps\<close>)

lemma iter_desc_bounds:
  assumes "iter_desc ik (btf_kind t) = Some d" "off \<in> set (desc_fields d (unat (btf_vlen t)))"
  shows "4 dvd off" and "int off + 4 \<le> btf_type_size btf t"
  using assms ids_in_bounds [of t d, OF _ refl, of off btf] strs_in_bounds [of t d, OF _ refl, of off btf]
  by (cases ik; simp add: iter_desc_def)+

lemma type_word_simps:
  "type_word t 0 = t_name_off t" "type_word t 8 = t_size t"
  "type_word t (12 + off) = t_extra t ! (off div 4)" "type_word t (16 + off) = t_extra t ! Suc (off div 4)"
proof -
  have "(12 + off) div 4 = Suc (Suc (Suc (off div 4)))" "(16 + off) div 4 = Suc (Suc (Suc (Suc (off div 4))))" by simp_all
  then show "type_word t (12 + off) = t_extra t ! (off div 4)" "type_word t (16 + off) = t_extra t ! Suc (off div 4)"
    by (simp_all only: type_word_def append.simps nth_Cons_Suc)
qed (simp_all add: type_word_def)

lemma concat_map_single: "concat (map (\<lambda>i. [f i]) xs) = map f xs"
  by (induction xs) auto

lemma field_index:
  "(i * 12) div 4 = 3 * i" "(i * 12 + 4) div 4 = 3 * i + 1" "(i * 8) div 4 = 2 * i" "(i * 8 + 4) div 4 = 2 * i + 1"
  "(i * 4) div 4 = i" for i :: nat
  by auto

lemmas field_accessors = btf_array_of_def btf_member_at_def btf_param_at_def btf_var_secinfo_at_def
  btf_loc_proto_param_at_def btf_loc_at_def btf_enum_at_def btf_enum64_at_def Let_def

lemma ids_words:
  assumes "desc_ids (btf_kind t) = Some d"
  shows "map (type_word t) (desc_fields d (unat (btf_vlen t))) = type_ids t"
  using assms
proof (cases rule: desc_ids_cases)
  case array
  then show ?thesis
    using type_word_simps(3) [of t 0] type_word_simps(3) [of t 4]
    by (simp add: desc_fields_simps type_ids_def field_accessors)
qed (auto simp: desc_fields_simps type_ids_def field_accessors type_word_simps map_concat comp_def
    concat_map_single field_index add.assoc)

lemma strs_words:
  assumes "desc_strs (btf_kind t) = Some d"
  shows "map (type_word t) (desc_fields d (unat (btf_vlen t))) = type_strs t"
  using assms
  by (cases rule: desc_strs_cases) (auto simp: desc_fields_simps type_strs_def field_accessors type_word_simps
      map_concat comp_def concat_map_single field_index add.assoc)

section \<open>What the sanity check guarantees\<close>

text \<open>
  The type ids of a type that the sanity check looks at: all but the return type of
  a function prototype and the (unused) type word of a forward declaration.
\<close>

definition checked_ids :: "btf_type \<Rightarrow> u32 list" where
  "checked_ids t = (if btf_kind t = BTF_KIND_FWD then [] else if btf_kind t = BTF_KIND_FUNC_PROTO then tl (type_ids t)
     else type_ids t)"

lemma validate_str_None: "btf_validate_str btf off = None \<longleftrightarrow> btf__str_by_offset btf off \<noteq> None"
  by (auto simp: btf_validate_str_def split: option.split)

lemma validate_id_None: "btf_validate_id btf i = None \<longleftrightarrow> btf__type_by_id btf i \<noteq> None"
  by (auto simp: btf_validate_id_def split: option.split)

lemma validate_type_ids:
  assumes "btf_validate_type btf t = None" "i \<in> set (checked_ids t)"
  shows "btf__type_by_id btf i \<noteq> None"
proof -
  have v: "btf_validate_id btf i = None"
    using assms unfolding btf_validate_type_def checked_ids_def type_ids_def Let_def
    by (auto split: if_split_asm)
  then show ?thesis using validate_id_None by blast
qed

lemma validate_type_strs:
  assumes "btf_validate_type btf t = None" "s \<in> set (type_strs t)"
  shows "btf__str_by_offset btf s \<noteq> None"
proof -
  have v: "btf_validate_str btf s = None"
    using assms unfolding btf_validate_type_def type_strs_def Let_def
    by (auto split: if_split_asm)
  then show ?thesis using validate_str_None by blast
qed

end
