(* ===== verification/BtfSound.thy ===== *)
theory BtfSound
  imports BtfIter
begin

text \<open>
  The properties of the BTF parser and of the field iterator, with an encoded
  object as an example, and two inputs on which the parser departs from its
  intention.
\<close>

section \<open>An encoded object\<close>

text \<open>An integer type named \<^verbatim>\<open>int\<close>, and a function prototype without parameters whose
  return type is the type 77, which does not exist.\<close>

definition sample_btf :: bytes where
  "sample_btf = [0x9f, 0xeb, 1, 0,  24, 0, 0, 0,  0, 0, 0, 0,  28, 0, 0, 0,  28, 0, 0, 0,  5, 0, 0, 0,
     1, 0, 0, 0,  0, 0, 0, 1,  4, 0, 0, 0,  32, 0, 0, 1,
     0, 0, 0, 0,  0, 0, 0, 13,  77, 0, 0, 0,
     0, 105, 110, 116, 0]"

definition sample_hdr :: btf_header where
  "sample_hdr = \<lparr>h_magic = 0xeb9f, h_version = 1, h_flags = 0, h_hdr_len = 24, h_type_off = 0, h_type_len = 28,
     h_str_off = 28, h_str_len = 5, h_layout_off = 0, h_layout_len = 0\<rparr>"

lemma sample_hdr_prefix:
  "hdr_prefix 57 sample_btf = sample_hdr\<lparr>h_layout_off := 1, h_layout_len := 0x1000000\<rparr>"
  "hdr_prefix 24 sample_btf = sample_hdr"
  by (simp_all add: hdr_prefix_def hdr_of_bytes_def sample_btf_def sample_hdr_def rd16_def rd32_def list_eval)

lemma sample_len: "length sample_btf = 57"
  by (simp add: sample_btf_def)

lemma bswap_magic: "bswap_16 0xeb9f = 0x9feb"
  by (simp add: bswap_16_def le16_def rd16_def)

definition sample_obj :: btf_part where
  "sample_obj = (btf_new_obj sample_btf None)\<lparr>b_hdr := sample_hdr\<rparr>"

lemma sample_parse_hdr: "btf_parse_hdr (btf_new_obj sample_btf None) = Inr sample_obj"
  unfolding sample_obj_def
  by (simp add: btf_parse_hdr_def btf_parse_hdr_rest_def btf_new_obj_def sample_len sample_hdr_prefix bswap_magic
      BTF_MAGIC_def Let_def btf_check_hdr_def sample_hdr_def)

definition sample_sec :: btf_part where
  "sample_sec = sample_obj\<lparr>b_strs := [0, 105, 110, 116, 0], b_types := [1, 0x01000000, 4, 0x01000020, 0, 0x0d000000, 77]\<rparr>"

lemma sample_set_sections: "btf_set_sections sample_obj = sample_sec"
proof -
  have "drop 24 sample_btf = [1, 0, 0, 0,  0, 0, 0, 1,  4, 0, 0, 0,  32, 0, 0, 1, 0, 0, 0, 0,  0, 0, 0, 13,  77, 0, 0, 0,
     0, 105, 110, 116, 0]" "drop 52 sample_btf = [0, 105, 110, 116, 0]" by (simp_all add: sample_btf_def list_eval)
  then show ?thesis
    by (simp add: sample_sec_def sample_obj_def sample_hdr_def btf_set_sections_def btf_new_obj_def Let_def rd32_def list_eval)
qed

lemma sample_sec_simps:
  "b_hdr sample_sec = sample_hdr" "b_types sample_sec = [1, 0x01000000, 4, 0x01000020, 0, 0x0d000000, 77]"
  "b_strs sample_sec = [0, 105, 110, 116, 0]" "b_type_offs sample_sec = []" "b_nr_types sample_sec = 0"
  "b_start_id sample_sec = 1" "b_start_str_off sample_sec = 0" "\<not> b_swapped_endian sample_sec"
  "b_strs_set sample_sec = None" "h_type_len sample_hdr = 28" "h_str_len sample_hdr = 5" "h_layout_len sample_hdr = 0"
  by (simp_all add: sample_sec_def sample_obj_def btf_new_obj_def btf_start_id_def btf_start_str_off_def sample_hdr_def)

lemma sample_sec_same_types:
  "sample_sec\<lparr>b_types := [1, 0x01000000, 4, 0x01000020, 0, 0x0d000000, 77], b_type_offs := os, b_nr_types := n\<rparr> =
   sample_sec\<lparr>b_type_offs := os, b_nr_types := n\<rparr>"
  by (simp add: sample_sec_def)

definition sample_res :: btf where
  "sample_res = Btf None (sample_sec\<lparr>b_type_offs := [0, 16], b_nr_types := 2\<rparr>)"

lemmas type_eval = type_of_words_def btf_kind_def btf_vlen_def BTF_INFO_KIND_def BTF_INFO_VLEN_def

lemma sample_parse_types: "btf_parse_types (\<lambda>_. True) (Btf None sample_sec) 0 = Inr sample_res"
proof -
  note ev = sample_sec_simps sample_sec_same_types type_eval btf_type_size_def btf_add_type_idx_entry_def BTF_MAX_NR_TYPES_def list_eval
  have 3: "btf_parse_types (\<lambda>_. True) sample_res 28 = Inr sample_res"
    by (subst btf_parse_types.simps) (simp add: sample_res_def sample_sec_simps)
  have 2: "btf_parse_types (\<lambda>_. True) (Btf None (sample_sec\<lparr>b_type_offs := [0], b_nr_types := 1\<rparr>)) 16 = Inr sample_res"
    using 3 by (subst btf_parse_types.simps) (simp add: ev sample_res_def)
  show ?thesis
    using 2 by (subst btf_parse_types.simps) (simp add: ev)
qed

lemma sample_types:
  "btf_type_by_id sample_res 1 = \<lparr>t_name_off = 1, t_info = 0x01000000, t_size = 4, t_extra = [0x01000020, 0, 0x0d000000, 77], t_void = False\<rparr>"
  "btf_type_by_id sample_res 2 = \<lparr>t_name_off = 0, t_info = 0x0d000000, t_size = 77, t_extra = [], t_void = False\<rparr>"
  by (simp_all add: sample_res_def type_in_part_def sample_sec_simps type_of_words_def list_eval)

lemma sample_strs:
  "btf__str_by_offset sample_res 0 = Some [0, 105, 110, 116, 0]" "btf__str_by_offset sample_res 1 = Some [105, 110, 116, 0]"
  by (simp_all add: sample_res_def sample_sec_simps btf_strs_data_def)

lemma sample_cnt: "btf__type_cnt sample_res = 3" "base_btf sample_res = None" "b_start_id (own sample_res) = 1"
  by (simp_all add: btf__type_cnt_def sample_res_def sample_sec_simps)

lemma sample_sanity: "btf_sanity_check sample_res = None"
proof -
  have "{x. Suc 0 \<le> x \<and> x < 3} = {1, 2 :: nat}" by auto
  then show ?thesis
    by (simp add: btf_sanity_check_def sample_cnt sample_types btf_validate_type_def btf_validate_str_def sample_strs
        type_eval atLeastLessThan_def atLeast_def lessThan_def Int_def)
qed

definition sample_final :: btf where
  "sample_final = btf_check_sorted sample_res"

lemma sample_new: "btf_new True True (\<lambda>_. True) sample_btf None False = Inr sample_final"
proof -
  have l: "btf_parse_layout_sec sample_sec = Inr sample_sec"
    by (simp add: btf_parse_layout_sec_def sample_sec_simps Let_def)
  have s: "btf_parse_str_sec (Btf None sample_sec) = None"
    by (simp add: btf_parse_str_sec_def sample_sec_simps BTF_MAX_STR_OFFSET_def Let_def)
  have "btf_parse_secs (\<lambda>_. True) None sample_sec = Inr sample_res"
    by (simp add: btf_parse_secs_def l s btf_parse_type_sec_def sample_parse_types sample_sanity)
  then show ?thesis
    by (simp add: btf_new_def sample_parse_hdr sample_set_sections sample_final_def)
qed

section \<open>Parsed objects\<close>

text \<open>Every string of the object that can be asked for is terminated.\<close>

definition strs_terminated :: "btf \<Rightarrow> bool" where
  "strs_terminated btf \<longleftrightarrow> (\<forall>off s. btf__str_by_offset btf off = Some s \<longrightarrow> 0 \<in> set s)"

lemma own_strs_terminated:
  assumes "btf_parse_str_sec btf = None" "hdr_in_bounds (own btf)" "k < unat (h_str_len (b_hdr (own btf)))"
    and "b_strs (own btf) = btf_strs_data (own btf)"
    and "btf_strs_data (own btf) = drop (unat (h_hdr_len (b_hdr (own btf))) + unat (h_str_off (b_hdr (own btf)))) (b_raw (own btf))"
  shows "0 \<in> set (drop k (btf_strs_data (own btf)))"
proof -
  let ?n = "unat (h_str_len (b_hdr (own btf)))" and ?d = "btf_strs_data (own btf)"
  have len: "?n \<le> length ?d" using assms(2) unfolding assms(5) hdr_in_bounds_def Let_def length_drop by linarith
  have "h_str_len (b_hdr (own btf)) \<noteq> 0" using assms(3) by auto
  then have "?d ! (?n - 1) = 0"
    using assms(1,4) unfolding btf_parse_str_sec_def Let_def by (auto split: if_split_asm)
  then have "drop k ?d ! (?n - 1 - k) = 0" "?n - 1 - k < length (drop k ?d)" using assms(3) len by simp_all
  then show ?thesis using nth_mem by metis
qed

lemma new_strs_terminated:
  assumes "btf_new cok mok mem_ok data base is_mmap = Inr btf" "length data < 2 ^ 32"
    and "\<And>b. base = Some b \<Longrightarrow> strs_terminated b"
  shows "strs_terminated btf"
  unfolding strs_terminated_def
proof (intro allI impI)
  fix off s
  assume s: "btf__str_by_offset btf off = Some s"
  note f = btf_new_sound_facts [OF assms(1,2)]
  have own: "0 \<in> set (drop (unat (off - b_start_str_off (own btf))) (btf_strs_data (own btf)))"
    if "off - b_start_str_off (own btf) < h_str_len (b_hdr (own btf))"
    using own_strs_terminated [OF f(12,2) _ _ f(11)] that f(13)
    by (simp add: word_less_nat_alt btf_strs_data_def)
  obtain b where b: "btf = Btf base b" using f(1) by (cases btf) auto
  show "0 \<in> set s"
  proof (cases base)
    case None
    then show ?thesis using s own by (auto simp: b Let_def split: if_split_asm)
  next
    case (Some base')
    then show ?thesis using s own assms(3) unfolding strs_terminated_def by (auto simp: b Let_def split: if_split_asm)
  qed
qed

text \<open>
  C1. A BTF blob that the parser accepts is laid out safely: the sections lie behind
  the header, inside the data and in the order types, layout, strings without
  overlap; the types lie back to back and fill the type section exactly, each with
  at least its twelve byte head, and the index has one entry per type, at its
  offset. So no access to a type of the object leaves the type section.
\<close>

theorem btf_new_layout:
  assumes "btf_new cok mok mem_ok data base is_mmap = Inr btf" and "length data < 2 ^ 32"
  shows "length (b_raw (own btf)) = length data \<and> hdr_in_bounds (own btf) \<and>
    unat (b_nr_types (own btf)) = length (b_type_offs (own btf)) \<and>
    unat (h_type_len (b_hdr (own btf))) = 4 * length (b_types (own btf)) \<and>
    type_tiles btf 0 (b_type_offs (own btf))"
  using btf_new_sound_facts [OF assms] by simp

theorem btf_new_layout_witness:
  "length (b_raw (own sample_final)) = 57 \<and> type_tiles sample_final 0 (b_type_offs (own sample_final))"
  using btf_new_layout [OF sample_new] by (simp add: sample_len)

text \<open>
  C2. The sanity check at the end of parsing: in an accepted object every string
  offset of every type of the object denotes a terminated string, and every type
  id it refers to exists, except for the return type of a function prototype and
  the type word of a forward declaration, which are not looked at.
\<close>

theorem btf_new_refs_valid:
  assumes "btf_new cok mok mem_ok data base is_mmap = Inr btf" and "length data < 2 ^ 32"
    and "\<And>b. base = Some b \<Longrightarrow> strs_terminated b"
    and "b_start_id (own btf) \<le> i" "i < btf__type_cnt btf"
  shows "(\<forall>off \<in> set (type_strs (btf_type_by_id btf i)). \<exists>s. btf__str_by_offset btf off = Some s \<and> 0 \<in> set s) \<and>
    (\<forall>j \<in> set (checked_ids (btf_type_by_id btf i)). btf__type_by_id btf j \<noteq> None)"
proof -
  have "btf_sanity_check btf = None" using btf_new_sound_facts [OF assms(1,2)] by simp
  moreover have "unat i \<in> set [unat (b_start_id (own btf))..<unat (btf__type_cnt btf)]"
    using assms(4,5) by (simp add: word_le_nat_alt word_less_nat_alt)
  ultimately have "btf_validate_type btf (btf_type_by_id btf (of_nat (unat i))) = None"
    unfolding btf_sanity_check_def first_err_None by blast
  then have v: "btf_validate_type btf (btf_type_by_id btf i) = None" by simp
  have "strs_terminated btf" by (rule new_strs_terminated [OF assms(1-3)])
  then show ?thesis
    using validate_type_strs [OF v] validate_type_ids [OF v] unfolding strs_terminated_def by fastforce
qed

lemma sample_check_sorted: "\<exists>n. sample_final = Btf None (sample_sec\<lparr>b_type_offs := [0, 16], b_nr_types := 2, b_named_start_id := n\<rparr>)"
  using check_sorted_shape [of sample_res] unfolding sample_final_def by (auto simp: sample_res_def)

lemma sample_final_simps:
  "btf__type_cnt sample_final = 3" "b_start_id (own sample_final) = 1" 
  "btf_type_by_id sample_final 1 = btf_type_by_id sample_res 1" "btf_type_by_id sample_final 2 = btf_type_by_id sample_res 2"
proof -
  obtain n where n: "sample_final = Btf None (sample_sec\<lparr>b_type_offs := [0, 16], b_nr_types := 2, b_named_start_id := n\<rparr>)"
    using sample_check_sorted ..
  show "btf__type_cnt sample_final = 3" "b_start_id (own sample_final) = 1" 
    "btf_type_by_id sample_final 1 = btf_type_by_id sample_res 1" "btf_type_by_id sample_final 2 = btf_type_by_id sample_res 2"
    by (simp_all add: n sample_res_def type_in_part_def btf__type_cnt_def sample_sec_simps)
qed

theorem btf_new_refs_valid_witness:
  "type_strs (btf_type_by_id sample_final 1) = [1] \<and> (\<exists>s. btf__str_by_offset sample_final 1 = Some s \<and> 0 \<in> set s)"
proof -
  have "type_strs (btf_type_by_id sample_final 1) = [1]"
    by (simp add: sample_final_simps sample_types type_strs_def type_eval)
  then show ?thesis
    using btf_new_refs_valid [OF sample_new, of 1] by (simp add: sample_len sample_final_simps)
qed

section \<open>The field iterator\<close>

text \<open>
  C8. Running the field iterator over a type to its end terminates. It yields exactly
  the type-id fields, or the string-offset fields, that the accessors of the
  type's kind give, in order; and each field is an aligned word inside the type, by the
  size that the parser has checked.
\<close>

theorem btf_field_iter_visits:
  assumes "btf_field_iter_init t kind = Inr it"
  shows "\<exists>offs. iter_collect it = Some offs \<and>
    map (type_word t) offs = (case kind of BTF_FIELD_ITER_IDS \<Rightarrow> type_ids t | BTF_FIELD_ITER_STRS \<Rightarrow> type_strs t) \<and>
    (\<forall>off \<in> set offs. 4 dvd off \<and> int off + 4 \<le> btf_type_size btf t)"
proof -
  obtain d where d: "iter_desc kind (btf_kind t) = Some d" "it = at_type d (if m_sz d \<noteq> 0 then unat (btf_vlen t) else 0) 0"
    using iter_init_desc [OF assms] .
  have f: "desc_fields d (if m_sz d \<noteq> 0 then unat (btf_vlen t) else 0) = desc_fields d (unat (btf_vlen t))"
    by (simp add: desc_fields_def)
  have "iter_collect it = Some (desc_fields d (unat (btf_vlen t)))"
    using collect_desc [OF iter_desc_ok [OF d(1)]] f d(2) by simp
  moreover have "map (type_word t) (desc_fields d (unat (btf_vlen t))) =
      (case kind of BTF_FIELD_ITER_IDS \<Rightarrow> type_ids t | BTF_FIELD_ITER_STRS \<Rightarrow> type_strs t)"
    using d(1) ids_words strs_words by (cases kind) (simp_all add: iter_desc_def)
  ultimately show ?thesis using iter_desc_bounds [OF d(1)] by blast
qed

definition ids_iter :: "btf_type \<Rightarrow> btf_field_iter" where
  "ids_iter t = projr (btf_field_iter_init t BTF_FIELD_ITER_IDS)"

lemma sample_iter:
  "btf_field_iter_init (btf_type_by_id sample_final 2) BTF_FIELD_ITER_IDS = Inr (ids_iter (btf_type_by_id sample_final 2))"
  "type_ids (btf_type_by_id sample_final 2) = [77]"
  by (simp_all add: ids_iter_def btf_field_iter_init_def sample_final_simps sample_types type_eval desc_ids_def type_ids_def)

theorem btf_field_iter_visits_witness:
  "\<exists>offs. iter_collect (ids_iter (btf_type_by_id sample_final 2)) = Some offs \<and>
     map (type_word (btf_type_by_id sample_final 2)) offs = [77]"
  using btf_field_iter_visits [OF sample_iter(1), of sample_final] sample_iter(2) by auto

section \<open>Two departures from the intention of the parser\<close>

text \<open>
  C24. The sanity check lets a dangling type reference through: an accepted object
  has a function prototype whose return type does not exist, although the iterator
  over the type-id fields visits that reference.
\<close>

theorem btf_new_dangling_return_type:
  "\<exists>btf offs. btf_new True True (\<lambda>_. True) sample_btf None False = Inr btf \<and>
     iter_collect (ids_iter (btf_type_by_id btf 2)) = Some offs \<and> map (type_word (btf_type_by_id btf 2)) offs = [77] \<and>
     btf__type_by_id btf 77 = None"
proof -
  have "iter_collect (ids_iter (btf_type_by_id sample_final 2)) = Some [8]"
    using collect_desc [of "desc_members [8] 8 [4]" 0]
    by (simp add: ids_iter_def btf_field_iter_init_def sample_final_simps sample_types type_eval desc_ids_def
        desc_fields_simps) (simp add: desc_ok_def desc_members_def desc_fields_simps)
  moreover have "type_word (btf_type_by_id sample_final 2) 8 = 77"
    by (simp add: sample_final_simps sample_types type_word_def)
  moreover have "btf__type_by_id sample_final 77 = None"
    using sample_final_simps(1) by (simp add: btf__type_by_id_def btf__type_cnt_def)
  ultimately show ?thesis using sample_new by auto
qed

text \<open>A type of the unknown kind 23, whose size is given by a layout section of 24 entries.\<close>

definition layout_btf :: bytes where
  "layout_btf = [0x9f, 0xeb, 1, 0,  32, 0, 0, 0,  0, 0, 0, 0,  12, 0, 0, 0,  108, 0, 0, 0,  1, 0, 0, 0,  12, 0, 0, 0,  96, 0, 0, 0,
     0, 0, 0, 0,  0xff, 0xff, 0xff, 23,  0, 0, 0, 0] @ replicate 92 0 @ [0, 132, 0, 0] @ [0]"

definition layout_hdr :: btf_header where
  "layout_hdr = \<lparr>h_magic = 0xeb9f, h_version = 1, h_flags = 0, h_hdr_len = 32, h_type_off = 0, h_type_len = 12,
     h_str_off = 108, h_str_len = 1, h_layout_off = 12, h_layout_len = 96\<rparr>"

definition layout_obj :: btf_part where
  "layout_obj = (btf_new_obj layout_btf None)\<lparr>b_hdr := layout_hdr\<rparr>"

lemma layout_btf_shape:
  "length layout_btf = 141" "hdr_prefix 141 layout_btf = layout_hdr" "hdr_prefix 32 layout_btf = layout_hdr"
  by (simp_all add: layout_btf_def hdr_prefix_def hdr_of_bytes_def layout_hdr_def rd16_def rd32_def list_eval)

lemma layout_parse_hdr: "btf_parse_hdr (btf_new_obj layout_btf None) = Inr layout_obj"
  unfolding layout_obj_def
  by (simp add: btf_parse_hdr_def btf_parse_hdr_rest_def btf_new_obj_def layout_btf_shape bswap_magic
      BTF_MAGIC_def Let_def btf_check_hdr_def layout_hdr_def)

definition layout_sec :: btf_part where
  "layout_sec = layout_obj\<lparr>b_strs := [0], b_types := [0, 0x17ffffff, 0]\<rparr>"

definition layout_entries :: "btf_layout list" where
  "layout_entries = replicate 23 \<lparr>lay_info_sz = 0, lay_elem_sz = 0, lay_flags = 0\<rparr> @ [\<lparr>lay_info_sz = 0, lay_elem_sz = 132, lay_flags = 0\<rparr>]"

lemma layout_drops:
  "drop 140 layout_btf = [0]" "take 12 (drop 32 layout_btf) = [0, 0, 0, 0,  0xff, 0xff, 0xff, 23,  0, 0, 0, 0]"
  "take 96 (drop 44 layout_btf) = replicate 92 0 @ [0, 132, 0, 0]"
  by (simp_all add: layout_btf_def list_eval)

lemma layout_set_sections: "btf_set_sections layout_obj = layout_sec"
  by (simp add: layout_sec_def layout_obj_def layout_hdr_def btf_set_sections_def btf_new_obj_def Let_def layout_drops rd32_def)

lemma layout_parse_layout: "btf_parse_layout_sec layout_sec = Inr (layout_sec\<lparr>b_layout := Some layout_entries\<rparr>)"
proof -
  have "layouts_of_bytes (replicate 92 0 @ [0, 132, 0, 0]) = layout_entries"
    by (simp add: layout_entries_def list_eval rd16_def)
  then show ?thesis
    by (simp add: btf_parse_layout_sec_def layout_sec_def layout_obj_def layout_hdr_def btf_new_obj_def layout_drops)
qed

lemma layout_parse_types:
  "btf_parse_types mem_ok (Btf None (layout_sec\<lparr>b_layout := Some layout_entries\<rparr>)) 0 = Inl (err_of_int (- 2080374904))"
proof -
  have e: "layout_entries ! 23 = \<lparr>lay_info_sz = 0, lay_elem_sz = 132, lay_flags = 0\<rparr>"
    by (simp add: layout_entries_def nth_append)
  have "sint (of_nat (12 + unat ((0xffffff :: u32) * 132)) :: u32) = - 2080374904"
    by simp
  then have "btf_type_size (Btf None (layout_sec\<lparr>b_layout := Some layout_entries\<rparr>)) (type_of_words [0, 0x17ffffff, 0]) = - 2080374904"
    by (simp add: btf_type_size_def btf_type_size_unknown_def btf_layout_size_def type_eval layout_sec_def layout_obj_def
        layout_hdr_def e)
  moreover have "b_types layout_sec = [0, 0x17ffffff, 0]" "h_type_len (b_hdr layout_sec) = 12" "\<not> b_swapped_endian layout_sec"
    by (simp_all add: layout_sec_def layout_obj_def layout_hdr_def btf_new_obj_def)
  ultimately show ?thesis by (subst btf_parse_types.simps) simp
qed

text \<open>
  C25. A BTF blob whose layout section gives a kind elements of 132 bytes, and which has a
  type of that kind with the greatest number of elements: the size of the type overflows
  the \<open>int\<close> it is returned in. The negative size is taken for an error code. It is
  below the range of error codes, so \<^verbatim>\<open>btf__new\<close> does not recognise the pointer that carries it
  as an error: it returns the code cast to a pointer, which is not NULL, and leaves \<^verbatim>\<open>errno\<close> alone.
\<close>

theorem btf_new_error_out_of_range:
  "\<exists>e a. btf_new True True (\<lambda>_. True) layout_btf None False = Inl e \<and> MAX_ERRNO < errno_code e \<and>
     btf__new True True (\<lambda>_. True) layout_btf = (Addr a, None) \<and> a \<noteq> 0"
proof -
  have s: "btf_parse_str_sec (Btf None layout_sec) = None"
    by (simp add: btf_parse_str_sec_def layout_sec_def layout_obj_def layout_hdr_def BTF_MAX_STR_OFFSET_def Let_def)
  have "btf_parse_secs (\<lambda>_. True) None layout_sec = Inl (err_of_int (- 2080374904))"
    by (simp add: btf_parse_secs_def s layout_parse_layout btf_parse_type_sec_def layout_parse_types)
  then have new: "btf_new True True (\<lambda>_. True) layout_btf None False = Inl (err_of_int (- 2080374904))"
    by (simp add: btf_new_def layout_parse_hdr layout_set_sections)
  have code: "errno_code (err_of_int (- 2080374904)) = 2080374904" by (simp add: err_of_int_def)
  have "btf__new True True (\<lambda>_. True) layout_btf = (Addr (- 2080374904), None)"
    by (simp add: btf__new_def new libbpf_ptr_def ERR_PTR_def code IS_ERR_VALUE_def MAX_ERRNO_def)
  then show ?thesis using new code by (auto simp: MAX_ERRNO_def)
qed

end
