(* ===== verification/BtfLookup.thy ===== *)
theory BtfLookup
  imports BtfSound
begin

text \<open>
  Lookups in a parsed object: the binary search over the sorted names finds what the
  linear search finds; the size and the target of a type through modifiers and
  arrays are those of an inductive definition.
\<close>

section \<open>The order of C strings\<close>

lemma strcmp_swap: "strcmp b a = - strcmp a b"
  by (induction a b rule: strcmp.induct) auto

lemma uint_pos_iff: "0 < uint x \<longleftrightarrow> x \<noteq> 0" for x :: "'a :: len word"
  using uint_ge_0 [of x] by (auto simp: less_le simp flip: uint_0_iff)

lemma strcmp_le_trans:
  assumes "strcmp a b \<le> 0" "strcmp b c \<le> 0"
  shows "strcmp a c \<le> 0 \<and> (strcmp a b < 0 \<or> strcmp b c < 0 \<longrightarrow> strcmp a c < 0)"
  using assms
proof (induction a b arbitrary: c rule: strcmp.induct)
  case 1
  then show ?case by simp
next
  case (2 y ys)
  then show ?case by (cases c) (auto simp: uint_pos_iff uint_0_iff split: if_split_asm)
next
  case (3 x xs)
  then have "x = 0" using uint_pos_iff [of x] by auto
  then show ?case using 3 by (cases c) auto
next
  case (4 x xs y ys)
  show ?case
  proof (cases c)
    case Nil
    have "y = 0" using "4.prems"(2) uint_pos_iff [of y] by (auto simp: Nil)
    then have "x = 0" using "4.prems"(1) uint_pos_iff [of x] by (auto split: if_split_asm)
    then show ?thesis using \<open>y = 0\<close> by (simp add: Nil)
  next
    case (Cons z zs)
    consider "x \<noteq> y" "uint x < uint y" | "x = 0" "y = 0" | "x = y" "y \<noteq> 0" "strcmp xs ys \<le> 0"
      using "4.prems"(1) by (auto simp: word_uint_eq_iff split: if_split_asm)
    then show ?thesis
    proof cases
      case 1
      then have "y \<noteq> 0" using uint_ge_0 [of x] by auto
      then have "uint y \<le> uint z" using "4.prems"(2) unfolding Cons by (auto split: if_split_asm)
      then show ?thesis using 1 unfolding Cons by (auto simp: word_uint_eq_iff)
    next
      case 2
      then show ?thesis unfolding Cons by simp
    next
      case 3
      then show ?thesis
        using "4.prems"(2) "4.IH" [of zs] unfolding Cons by (cases "y = z") (auto simp: less_le word_uint_eq_iff split: if_split_asm)
    qed
  qed
qed

lemma strcmp_le_less: "strcmp a b \<le> 0 \<Longrightarrow> strcmp b c < 0 \<Longrightarrow> strcmp a c < 0"
  using strcmp_le_trans [of a b c] by auto

lemma strcmp_le_le: "strcmp a b \<le> 0 \<Longrightarrow> strcmp b c \<le> 0 \<Longrightarrow> strcmp a c \<le> 0"
  using strcmp_le_trans [of a b c] by auto

lemma strcmp_refl [simp]: "strcmp a a = 0"
  by (simp add: strcmp_eq_0_iff)

lemma empty_str_iff: "is_empty_str s \<longleftrightarrow> cstr s = []"
  by (cases s) (auto simp: is_empty_str_def)

section \<open>The binary search\<close>

abbreviation (input) names_sorted :: "btf \<Rightarrow> int \<Rightarrow> int \<Rightarrow> bool" where
  "names_sorted btf l r \<equiv> (\<forall>i j. l \<le> i \<longrightarrow> i \<le> j \<longrightarrow> j \<le> r \<longrightarrow> strcmp (name_of_id btf i) (name_of_id btf j) \<le> 0)"

lemma adjacent_sorted:
  assumes "\<And>i. l < i \<Longrightarrow> i \<le> r \<Longrightarrow> strcmp (name_of_id btf (i - 1)) (name_of_id btf i) \<le> 0"
  shows "names_sorted btf l r"
proof (intro allI impI)
  fix i j
  assume "l \<le> i" "i \<le> j" "j \<le> r"
  from this(2,3) show "strcmp (name_of_id btf i) (name_of_id btf j) \<le> 0"
  proof (induction j rule: int_ge_induct)
    case base
    then show ?case by simp
  next
    case (step j)
    have "strcmp (name_of_id btf j) (name_of_id btf (j + 1)) \<le> 0"
      using assms [of "j + 1"] step \<open>l \<le> i\<close> by simp
    then show ?case using step strcmp_le_le by simp
  qed
qed

lemma check_sorted_loop_Some:
  assumes "check_sorted_loop btf [s + 1 .. e] n = Some n'" "0 \<le> s" "n = 0 \<longrightarrow> (\<forall>i. s0 \<le> i \<longrightarrow> i < s \<longrightarrow> is_empty_str (name_of_id btf i))"
    and "n \<noteq> 0 \<longrightarrow> (\<forall>i. s0 \<le> i \<longrightarrow> i < n \<longrightarrow> is_empty_str (name_of_id btf i)) \<and> s0 \<le> n" "s0 \<le> s" "0 < s0"
  shows "(\<forall>i. s < i \<longrightarrow> i \<le> e \<longrightarrow> strcmp (name_of_id btf (i - 1)) (name_of_id btf i) \<le> 0) \<and>
    (n' \<noteq> 0 \<longrightarrow> (\<forall>i. s0 \<le> i \<longrightarrow> i < n' \<longrightarrow> is_empty_str (name_of_id btf i)) \<and> s0 \<le> n')"
  using assms
proof (induction "nat (e - s)" arbitrary: s n)
  case 0
  then show ?case by auto
next
  case (Suc k)
  then have l: "[s + 1 .. e] = (s + 1) # [s + 1 + 1 .. e]" by (simp add: upto_rec1)
  define n1 where "n1 = (if n = 0 \<and> \<not> is_empty_str (name_of_id btf s) then s else n)"
  define n2 where "n2 = (if n1 = 0 \<and> \<not> is_empty_str (name_of_id btf (s + 1)) then s + 1 else n1)"
  have c: "strcmp (name_of_id btf s) (name_of_id btf (s + 1)) \<le> 0" and r: "check_sorted_loop btf [s + 1 + 1 .. e] n2 = Some n'"
    using Suc.prems(1) unfolding l n2_def n1_def by (auto simp: Let_def split: if_split_asm)
  have lt: "i < s + 1 \<longleftrightarrow> i < s \<or> i = s" for i by auto
  have n2: "n2 = 0 \<longrightarrow> (\<forall>i. s0 \<le> i \<longrightarrow> i < s + 1 \<longrightarrow> is_empty_str (name_of_id btf i))"
    "n2 \<noteq> 0 \<longrightarrow> (\<forall>i. s0 \<le> i \<longrightarrow> i < n2 \<longrightarrow> is_empty_str (name_of_id btf i)) \<and> s0 \<le> n2"
    using Suc.prems(3-6) unfolding n2_def n1_def lt by auto
  have "k = nat (e - (s + 1))" using Suc.hyps(2) by simp
  note IH = Suc.hyps(1) [OF this r _ n2]
  show ?case
  proof (intro conjI allI impI)
    fix i assume "s < i" "i \<le> e"
    then show "strcmp (name_of_id btf (i - 1)) (name_of_id btf i) \<le> 0"
      using IH Suc.prems c by (cases "i = s + 1") simp_all
  qed (use IH Suc.prems in simp_all)
qed

lemma bsearch_spec:
  assumes "names_sorted btf l R" "r \<le> R" "r = R \<or> l \<le> r \<and> 0 \<le> strcmp (name_of_id btf r) name"
    and "uint (btf__type_cnt btf) = R + 1" "l \<le> R + 1"
  defines "i \<equiv> bsearch_loop btf name l r"
  shows "l \<le> i \<and> i \<le> R + 1 \<and> (\<forall>j. l \<le> j \<longrightarrow> j < i \<longrightarrow> strcmp (name_of_id btf j) name < 0) \<and>
    (i \<le> R \<longrightarrow> 0 \<le> strcmp (name_of_id btf i) name)"
  unfolding i_def using assms(1-5)
proof (induction btf name l r rule: bsearch_loop.induct)
  case (1 btf name l r)
  let ?m = "l + (r - l) div 2"
  consider "r < l" | "l \<le> r" "0 \<le> strcmp (name_of_id btf ?m) name" "l = r"
    | "l < r" "0 \<le> strcmp (name_of_id btf ?m) name" | "l \<le> r" "strcmp (name_of_id btf ?m) name < 0" by linarith
  then show ?case
  proof cases
    case 1
    then have "bsearch_loop btf name l r = R + 1" using "1.prems"(4) by (subst bsearch_loop.simps) simp
    then show ?thesis using 1 "1.prems" by auto
  next
    case 2
    then have "bsearch_loop btf name l r = r" by (subst bsearch_loop.simps) (simp add: Let_def)
    then show ?thesis using 2 "1.prems" by auto
  next
    case 3
    then have "l \<le> ?m" "?m \<le> r" by simp_all
    moreover have "bsearch_loop btf name l r = bsearch_loop btf name l ?m"
      using 3 by (subst bsearch_loop.simps) (simp add: Let_def)
    ultimately show ?thesis using "1.IH"(1) [OF _ refl 3(2)] 3 "1.prems" by simp
  next
    case 4
    then have m: "l \<le> ?m" "?m \<le> r" by simp_all
    have b: "bsearch_loop btf name l r = bsearch_loop btf name (?m + 1) r"
      using 4 by (subst bsearch_loop.simps) (simp add: Let_def)
    have "r = R \<or> ?m + 1 \<le> r \<and> 0 \<le> strcmp (name_of_id btf r) name"
    proof (cases "?m = r")
      case True
      then show ?thesis using "1.prems"(3) 4(2) by simp
    next
      case False
      then show ?thesis using "1.prems"(3) m by simp
    qed
    moreover have "\<not> 0 \<le> strcmp (name_of_id btf ?m) name" using 4 by simp
    ultimately have IH: "?m + 1 \<le> bsearch_loop btf name (?m + 1) r" "bsearch_loop btf name (?m + 1) r \<le> R + 1"
      "\<forall>j. ?m + 1 \<le> j \<longrightarrow> j < bsearch_loop btf name (?m + 1) r \<longrightarrow> strcmp (name_of_id btf j) name < 0"
      "bsearch_loop btf name (?m + 1) r \<le> R \<longrightarrow> 0 \<le> strcmp (name_of_id btf (bsearch_loop btf name (?m + 1) r)) name"
      using "1.IH"(2) [OF _ refl] 4(1) m "1.prems" by auto
    have "strcmp (name_of_id btf j) name < 0" if "l \<le> j" "j \<le> ?m" for j
      using "1.prems"(1,2) that m 4(2) strcmp_le_less by (meson order_trans)
    then have "strcmp (name_of_id btf j) name < 0" if "l \<le> j" "j < bsearch_loop btf name (?m + 1) r" for j
      using IH(3) that by (cases "j \<le> ?m") auto
    then show ?thesis unfolding b using IH(1,2,4) m by auto
  qed
qed

text \<open>The linear search skips what does not have the name; the run search finds what it finds.\<close>

lemma find_linear_skip:
  "(\<And>i. i \<in> set is \<Longrightarrow> strcmp (name_of_id btf i) name \<noteq> 0) \<Longrightarrow>
   find_linear btf name kind (is @ js) = find_linear btf name kind js"
  by (induction "is") (auto simp: Let_def)

lemma find_linear_none:
  "(\<And>i. i \<in> set is \<Longrightarrow> strcmp (name_of_id btf i) name \<noteq> 0) \<Longrightarrow> find_linear btf name kind is = Inl ENOENT"
  using find_linear_skip [of "is" btf name kind "[]"] by simp

lemma find_run_linear:
  assumes "names_sorted btf i R" "i \<le> R \<longrightarrow> 0 \<le> strcmp (name_of_id btf i) name" "kind \<noteq> 0"
  shows "find_run btf name kind [i .. R] = find_linear btf name kind [i .. R]"
  using assms
proof (induction "nat (R + 1 - i)" arbitrary: i)
  case 0
  then show ?case by simp
next
  case (Suc k)
  then have l: "[i .. R] = i # [i + 1 .. R]" by (simp add: upto_rec1)
  have n: "strcmp (name_of_id btf j) name \<noteq> 0" if "strcmp (name_of_id btf i) name \<noteq> 0" "i \<le> j" "j \<le> R" for j
  proof -
    have "strcmp name (name_of_id btf i) < 0" using that Suc.prems(2) strcmp_swap [of name "name_of_id btf i"] by simp
    moreover have "strcmp (name_of_id btf i) (name_of_id btf j) \<le> 0" using that Suc.prems(1) by simp
    ultimately show ?thesis using strcmp_le_trans [of name "name_of_id btf i" "name_of_id btf j"] strcmp_swap [of name "name_of_id btf j"] by simp
  qed
  show ?case
  proof (cases "strcmp (name_of_id btf i) name = 0")
    case False
    then have "find_linear btf name kind (i # [i + 1 .. R]) = Inl ENOENT" by (intro find_linear_none) (use n in auto)
    then show ?thesis using False by (simp add: l Let_def)
  next
    case True
    have "0 \<le> strcmp (name_of_id btf (i + 1)) name" if "i + 1 \<le> R"
    proof -
      have "strcmp (name_of_id btf i) (name_of_id btf (i + 1)) \<le> 0" using Suc.prems(1) [rule_format, of i "i + 1"] that by simp
      moreover have "strcmp name (name_of_id btf i) \<le> 0" using True strcmp_swap [of name] by simp
      ultimately show ?thesis using strcmp_le_le strcmp_swap [of name "name_of_id btf (i + 1)"] by fastforce
    qed
    then have "find_run btf name kind [i + 1 .. R] = find_linear btf name kind [i + 1 .. R]"
      using Suc.hyps(1) [of "i + 1"] Suc.hyps(2) Suc.prems(1,3) by simp
    then show ?thesis using True Suc.prems(3) by (simp add: l Let_def)
  qed
qed

lemma find_sorted_linear:
  assumes "names_sorted btf s R" "\<And>i. s0 \<le> i \<Longrightarrow> i < s \<Longrightarrow> is_empty_str (name_of_id btf i)"
    and "uint (btf__type_cnt btf) = R + 1" "\<not> is_empty_str name" "kind \<noteq> 0" "s0 \<le> s"
  shows "find_run btf name kind [btf_find_type_by_name_bsearch btf name s .. R] = find_linear btf name kind [s0 .. R]"
proof (cases "s \<le> R + 1")
  case False
  have "find_linear btf name kind [s0 .. R] = Inl ENOENT"
    by (rule find_linear_none) (use False assms(2,4) in \<open>auto simp: strcmp_eq_0_iff empty_str_iff\<close>)
  moreover have "btf_find_type_by_name_bsearch btf name s = R + 1"
    using False assms(3) unfolding btf_find_type_by_name_bsearch_def by (subst bsearch_loop.simps) simp
  ultimately show ?thesis by simp
next
  case True
  define i where "i = btf_find_type_by_name_bsearch btf name s"
  have i: "s \<le> i" "i \<le> R + 1" "\<And>j. s \<le> j \<Longrightarrow> j < i \<Longrightarrow> strcmp (name_of_id btf j) name < 0"
    "i \<le> R \<longrightarrow> 0 \<le> strcmp (name_of_id btf i) name"
    using bsearch_spec [OF assms(1) order.refl _ assms(3) True, of name] assms(3)
    unfolding i_def btf_find_type_by_name_bsearch_def by simp_all
  have sp: "[s0 .. R] = [s0 .. i - 1] @ [i .. R]"
    using upto_split1 [of s0 i R] assms(6) i(1,2) by (cases "i = R + 1") simp_all
  have "strcmp (name_of_id btf j) name \<noteq> 0" if "j \<in> set [s0 .. i - 1]" for j
  proof (cases "j < s")
    case True
    then show ?thesis using that assms(2,4) by (auto simp: strcmp_eq_0_iff empty_str_iff)
  next
    case False
    then show ?thesis using that i(3) [of j] by simp
  qed
  then have "find_linear btf name kind [s0 .. R] = find_linear btf name kind [i .. R]"
    unfolding sp by (rule find_linear_skip)
  moreover have "find_run btf name kind [i .. R] = find_linear btf name kind [i .. R]"
    using assms(1,5) i(1,4) by (intro find_run_linear) auto
  ultimately show ?thesis by (simp add: i_def)
qed

text \<open>
  The object before and after \<^verbatim>\<open>btf_check_sorted\<close> have the same types, names and counts;
  only the latter may use the binary search.
\<close>

lemma check_sorted_same:
  "btf_type_by_id (btf_check_sorted btf) = btf_type_by_id btf" "btf_tname (btf_check_sorted btf) = btf_tname btf"
  "btf__type_cnt (btf_check_sorted btf) = btf__type_cnt btf"
proof -
  obtain x where x: "btf_check_sorted btf = Btf (base_btf btf) ((own btf)\<lparr>b_named_start_id := x\<rparr>)"
    using check_sorted_shape [of btf] by blast
  note f = named_irrelevant(3-5) [of "base_btf btf" x "own btf"]
  show "btf_type_by_id (btf_check_sorted btf) = btf_type_by_id btf" "btf_tname (btf_check_sorted btf) = btf_tname btf"
    "btf__type_cnt (btf_check_sorted btf) = btf__type_cnt btf"
    unfolding x btf_tname_def by (simp_all add: f fun_eq_iff)
qed

lemma find_linear_cong:
  "btf_type_by_id a = btf_type_by_id b \<Longrightarrow> btf_tname a = btf_tname b \<Longrightarrow> find_linear a name kind is = find_linear b name kind is"
  by (induction "is") (simp_all add: Let_def)

text \<open>
  C4. Sorting is only an optimisation: on an object whose names
  \<^verbatim>\<open>btf_check_sorted\<close> has found sorted, the lookup by binary search and a
  run over the equal names gives exactly the result of the linear search, for
  every start id, kind and non-empty name, errors included.
\<close>

theorem find_sorted_equals_linear:
  assumes "b_named_start_id (own btf) = 0" "b_start_id (own btf) \<noteq> 0"
    and "uint (b_start_id (own btf)) \<le> start_id" "\<not> is_empty_str name"
  shows "find_in_btf (btf_check_sorted btf) start_id name kind = find_in_btf btf start_id name kind"
proof -
  let ?s0 = "uint (b_start_id (own btf))" and ?R = "uint (btf__type_cnt btf) - 1"
  have pos: "0 < ?s0" using assms(2) uint_pos_iff by blast
  have lin: "find_in_btf btf start_id name kind = (if kind = 0 \<or> strcmp name (str_bytes ''void'') = 0 then Inr 0
      else find_linear btf name kind [start_id .. ?R])"
    by (simp add: find_in_btf_def Let_def assms(1))
  have cong: "find_linear (btf_check_sorted btf) name kind is = find_linear btf name kind is" for "is"
    by (rule find_linear_cong) (simp_all add: check_sorted_same)
  show ?thesis
  proof (cases "check_sorted_loop btf [?s0 + 1 .. ?R] 0")
    case None
    then have "btf_check_sorted btf = btf" by (simp add: btf_check_sorted_def)
    then show ?thesis by simp
  next
    case (Some n)
    show ?thesis
    proof (cases "n = 0")
      case True
      then have "btf_check_sorted btf = btf" using Some by (simp add: btf_check_sorted_def)
      then show ?thesis by simp
    next
      case False
      then have n: "b_named_start_id (own (btf_check_sorted btf)) = n" using Some by (simp add: btf_check_sorted_def)
      have ok: "\<And>i. ?s0 < i \<Longrightarrow> i \<le> ?R \<Longrightarrow> strcmp (name_of_id btf (i - 1)) (name_of_id btf i) \<le> 0"
        "\<And>i. ?s0 \<le> i \<Longrightarrow> i < n \<Longrightarrow> is_empty_str (name_of_id btf i)" "?s0 \<le> n"
        using check_sorted_loop_Some [OF Some, of ?s0] False pos by auto
      let ?b = "btf_check_sorted btf" and ?s = "max start_id n"
      have srt: "names_sorted btf ?s ?R"
        using adjacent_sorted [of ?s0 ?R btf] ok(1) assms(3) by auto
      then have "names_sorted ?b ?s ?R" by (simp add: check_sorted_same)
      then have "kind \<noteq> 0 \<Longrightarrow> find_run ?b name kind [btf_find_type_by_name_bsearch ?b name ?s .. ?R] = find_linear ?b name kind [start_id .. ?R]"
        using ok(2) assms(3,4) by (intro find_sorted_linear) (auto simp: check_sorted_same)
      then show ?thesis
        using n ok(3) pos assms(4) unfolding lin by (subst find_in_btf_def) (simp add: Let_def check_sorted_same cong)
    qed
  qed
qed

definition sorted_obj :: btf where
  "sorted_obj = Btf None (sample_sec\<lparr>b_type_offs := [16, 0], b_nr_types := 2\<rparr>)"

lemma sorted_obj_names: "name_of_id sorted_obj 1 = [0, 105, 110, 116, 0]" "name_of_id sorted_obj 2 = [105, 110, 116, 0]"
  by (simp_all add: sorted_obj_def btf_tname_def type_in_part_def sample_sec_simps type_of_words_def list_eval btf_strs_data_def)

theorem find_sorted_equals_linear_witness:
  "b_named_start_id (own (btf_check_sorted sorted_obj)) = 2 \<and>
   find_in_btf (btf_check_sorted sorted_obj) 1 (str_bytes ''int'') (- 1) = Inr 2"
proof -
  have simps: "b_named_start_id (own sorted_obj) = 0" "b_start_id (own sorted_obj) = 1" "btf__type_cnt sorted_obj = 3"
    by (simp_all add: sorted_obj_def sample_sec_simps btf__type_cnt_def) (simp add: sample_sec_def sample_obj_def btf_new_obj_def)
  have l: "[1 .. 2] = [1, 2 :: int]" by (simp add: upto_rec1)
  have "find_in_btf sorted_obj 1 (str_bytes ''int'') (- 1) = Inr 2"
    using sorted_obj_names unfolding find_in_btf_def Let_def simps
    by (simp add: simps str_bytes_def is_empty_str_def l Let_def of_char_def)
  moreover have "\<not> is_empty_str (str_bytes ''int'')" by (simp add: str_bytes_def is_empty_str_def of_char_def)
  moreover have "b_named_start_id (own (btf_check_sorted sorted_obj)) = 2"
    using sorted_obj_names by (simp add: btf_check_sorted_def simps is_empty_str_def Let_def)
  ultimately show ?thesis
    using find_sorted_equals_linear [of sorted_obj 1 "str_bytes ''int''" "- 1"] by (simp add: simps)
qed

section \<open>The size of a type\<close>

text \<open>
  The size of a type by its definition, on unbounded numbers; the third argument counts
  the references followed to reach a type with a size of its own.
\<close>

inductive sized :: "btf \<Rightarrow> btf_type \<Rightarrow> nat \<Rightarrow> nat \<Rightarrow> bool" for btf where
  sized_own: "\<not> btf_type_is_void t \<Longrightarrow> btf_kind t \<in> {1, 4, 5, 6, 19, 15, 16} \<Longrightarrow> sized btf t 0 (unat (t_size t))"
| sized_ptr: "\<not> btf_type_is_void t \<Longrightarrow> btf_kind t = 2 \<Longrightarrow> sized btf t 0 (btf_ptr_sz btf)"
| sized_alias: "\<not> btf_type_is_void t \<Longrightarrow> btf_kind t \<in> {8, 9, 10, 11, 14, 17, 18} \<Longrightarrow>
    btf__type_by_id btf (t_type t) = Some t' \<Longrightarrow> sized btf t' k n \<Longrightarrow> sized btf t (Suc k) n"
| sized_array: "\<not> btf_type_is_void t \<Longrightarrow> btf_kind t = 3 \<Longrightarrow> btf__type_by_id btf (a_type (btf_array_of t)) = Some t' \<Longrightarrow>
    sized btf t' k n \<Longrightarrow> sized btf t (Suc k) (unat (a_nelems (btf_array_of t)) * n)"

lemma nelems_no_wrap:
  fixes a b :: u32
  assumes "\<not> (a \<noteq> 0 \<and> b > (- 1) div a)"
  shows "unat (a * b) = unat a * unat b"
proof (cases "a = 0")
  case False
  then have "unat b \<le> (2 ^ 32 - 1) div unat a"
    using assms by (simp add: word_le_nat_alt unat_div not_less unsigned_minus_1_eq_mask mask_eq_exp_minus_1)
  then have "unat a * unat b \<le> unat a * ((2 ^ 32 - 1) div unat a)" by (rule mult_le_mono2)
  also have "\<dots> \<le> 2 ^ 32 - 1" by (rule times_div_less_eq_dividend)
  finally show ?thesis by (simp add: unat_word_ariths)
qed simp

lemma nelems_fit:
  fixes a b :: u32
  assumes "unat a * unat b < 2 ^ 32"
  shows "\<not> (a \<noteq> 0 \<and> b > (- 1) div a)"
proof
  assume "a \<noteq> 0 \<and> b > (- 1) div a"
  then have "(2 ^ 32 - 1) div unat a < unat b" "0 < unat a"
    by (simp_all add: word_less_nat_alt unat_div unsigned_minus_1_eq_mask mask_eq_exp_minus_1 unat_gt_0)
  then have "2 ^ 32 - 1 < unat b * unat a" by (simp only: div_less_iff_less_mult)
  then show False using assms by (simp add: mult.commute)
qed

lemma resolve_done_iff: "resolve_done nelems n = Inr v \<longleftrightarrow> v = unat nelems * n \<and> unat nelems * n < 2 ^ 32"
proof -
  have "nelems \<noteq> 0 \<Longrightarrow> (2 ^ 32 - 1) div unat nelems < n \<longleftrightarrow> 2 ^ 32 - 1 < n * unat nelems"
    by (rule div_less_iff_less_mult) (simp add: unat_gt_0)
  then show ?thesis by (cases "nelems = 0") (auto simp: resolve_done_def mult.commute)
qed

lemma resolve_size_cases:
  assumes "resolve_size_loop (Suc N) btf t0 nelems = Inr v"
  obtains (own) t n where "t0 = Some t" "sized btf t 0 n" "resolve_done nelems n = Inr v"
    | (via) t where "t0 = Some t" "\<not> btf_type_is_void t" "btf_kind t \<in> {8, 9, 10, 11, 14, 17, 18}"
        "resolve_size_loop N btf (btf__type_by_id btf (t_type t)) nelems = Inr v"
    | (array) t where "t0 = Some t" "\<not> btf_type_is_void t" "btf_kind t = 3" "\<not> (nelems \<noteq> 0 \<and> a_nelems (btf_array_of t) > (- 1) div nelems)"
        "resolve_size_loop N btf (btf__type_by_id btf (a_type (btf_array_of t))) (nelems * a_nelems (btf_array_of t)) = Inr v"
proof (cases t0)
  case (Some t)
  show ?thesis
    using assms that(1) [OF Some sized_own] that(1) [OF Some sized_ptr] that(2) [OF Some] that(3) [OF Some]
    unfolding Some resolve_size_loop.simps Let_def by (simp split: if_split_asm)
qed (use assms in simp)

lemma resolve_size_sound:
  "resolve_size_loop N btf t0 nelems = Inr v \<Longrightarrow>
   \<exists>t k n. t0 = Some t \<and> k < N \<and> sized btf t k n \<and> v = unat nelems * n \<and> v < 2 ^ 32"
proof (induction N arbitrary: t0 nelems)
  case (Suc N)
  from Suc.prems show ?case
  proof (cases rule: resolve_size_cases)
    case (own t n)
    then show ?thesis by (auto simp: resolve_done_iff)
  next
    case (via t)
    then show ?thesis using Suc.IH [OF via(4)] sized_alias by blast
  next
    case (array t)
    obtain t' k n where IH: "btf__type_by_id btf (a_type (btf_array_of t)) = Some t'" "k < N" "sized btf t' k n"
      "v = unat (nelems * a_nelems (btf_array_of t)) * n" "v < 2 ^ 32"
      using Suc.IH [OF array(5)] by blast
    then have "v = unat nelems * (unat (a_nelems (btf_array_of t)) * n)" using nelems_no_wrap [OF array(4)] by simp
    then show ?thesis using sized_array [OF array(2,3) IH(1,3)] array(1) IH(2,5) by blast
  qed
qed simp

lemma resolve_size_complete:
  "sized btf t k n \<Longrightarrow> k < N \<Longrightarrow> 0 < unat nelems * n \<Longrightarrow> unat nelems * n < 2 ^ 32 \<Longrightarrow>
   resolve_size_loop N btf (Some t) nelems = Inr (unat nelems * n)"
proof (induction arbitrary: N nelems rule: sized.induct)
  case (sized_own t)
  then show ?case by (cases N) (auto simp: resolve_done_iff)
next
  case (sized_ptr t)
  then show ?case by (cases N) (auto simp: resolve_done_iff)
next
  case (sized_alias t t' k n)
  then obtain N' where "N = Suc N'" "k < N'" by (cases N) auto
  then show ?case using sized_alias.IH [of N'] sized_alias.hyps sized_alias.prems by auto
next
  case (sized_array t t' k n)
  let ?a = "a_nelems (btf_array_of t)"
  obtain N' where N': "N = Suc N'" "k < N'" using sized_array.prems(1) by (cases N) auto
  have pos: "0 < n" "unat nelems * unat ?a * n < 2 ^ 32" using sized_array.prems(2,3) by (simp_all add: mult.assoc)
  have "unat nelems * unat ?a \<le> unat nelems * unat ?a * n" using pos(1) by simp
  then have "unat nelems * unat ?a < 2 ^ 32" using pos(2) by (rule le_less_trans)
  then have fit: "\<not> (nelems \<noteq> 0 \<and> ?a > (- 1) div nelems)" by (rule nelems_fit)
  then have "resolve_size_loop N' btf (Some t') (nelems * ?a) = Inr (unat (nelems * ?a) * n)"
    using sized_array.IH [OF N'(2)] sized_array.prems(2) pos nelems_no_wrap [OF fit] by simp
  then show ?case using fit sized_array.hyps nelems_no_wrap [OF fit] unfolding N' by (auto simp: mult.assoc Let_def)
qed

text \<open>
  C13. The size of a type: a positive number is returned exactly when it is the size of the type
  by its definition on unbounded numbers, is below \<open>2 ^ 32\<close>, and is found through fewer than
  \<open>MAX_RESOLVE_DEPTH\<close> references; whatever size is returned, zero included, is the size of the type.
  So the multiplications of array dimensions never wrap.
\<close>

theorem btf__resolve_size_correct:
  "(btf__resolve_size btf i = Inr v \<longrightarrow>
      (\<exists>t k. btf__type_by_id btf i = Some t \<and> sized btf t k v \<and> k < MAX_RESOLVE_DEPTH \<and> v < 2 ^ 32)) \<and>
   (btf__type_by_id btf i = Some t \<and> sized btf t k v \<and> k < MAX_RESOLVE_DEPTH \<and> 0 < v \<and> v < 2 ^ 32 \<longrightarrow>
      btf__resolve_size btf i = Inr v)"
  using resolve_size_sound [of MAX_RESOLVE_DEPTH btf "btf__type_by_id btf i" 1 v]
    resolve_size_complete [of btf t k v MAX_RESOLVE_DEPTH 1]
  unfolding btf__resolve_size_def by auto

theorem btf__resolve_size_correct_witness: "btf__resolve_size sample_res 1 = Inr 4"
proof -
  let ?t = "btf_type_by_id sample_res 1"
  have "btf__type_by_id sample_res 1 = Some ?t"
    using sample_cnt by (simp add: btf__type_by_id_def btf__type_cnt_def word_le_nat_alt)
  moreover have "sized sample_res ?t 0 (unat (t_size ?t))"
    by (rule sized_own) (simp_all add: sample_types btf_type_is_void_def btf_is_fwd_def type_eval)
  ultimately show ?thesis
    using btf__resolve_size_correct [of sample_res 1 4 ?t 0] by (simp add: sample_types MAX_RESOLVE_DEPTH_def)
qed

end
