(* ===== verification/BtfWrite.thy ===== *)
theory BtfWrite
  imports BtfLookup
begin

text \<open>
  Building BTF, the second part of \<^verbatim>\<open>src/src/btf.c\<close>: an object taken apart into
  sections that can grow, its strings in a string set, types and members appended
  to it, and the contiguous data produced from it in either byte order.

  A call is given the outcomes of its memory allocations, by the level of the
  object in the chain of base objects. The types are the words in use; a function
  that fails after it has reserved memory leaves them as they are. Functions return
  the result together with the object, which may have changed on failure too (the
  string set may have grown). Strings given to the functions are outside of the
  string set.
\<close>

section \<open>Outcomes of allocations\<close>

record btf_env =
  ev_types :: bool
  ev_layout :: bool
  ev_set_calloc :: bool
  ev_set_malloc :: bool
  ev_set_data :: bool
  ev_set_index :: "nat \<Rightarrow> bool \<times> bool"
  ev_str :: realloc_env
  ev_str_calloc :: bool
  ev_str_malloc :: bool
  ev_type_mem :: bool
  ev_idx :: bool

type_synonym btf_envs = "nat \<Rightarrow> btf_env"

definition st_bind :: "'a result \<times> btf \<Rightarrow> ('a \<Rightarrow> btf \<Rightarrow> 'b result \<times> btf) \<Rightarrow> 'b result \<times> btf" where
  "st_bind r f = (case r of (Inl e, btf) \<Rightarrow> (Inl e, btf) | (Inr x, btf) \<Rightarrow> f x btf)"

section \<open>Empty objects\<close>

definition layouts :: "btf_layout list" where
  "layouts = map (\<lambda>(i, e). \<lparr>lay_info_sz = i, lay_elem_sz = e, lay_flags = 0\<rparr>)
     [(0, 0), (4, 0), (0, 0), (12, 0), (0, 12), (0, 12), (0, 8), (0, 0), (0, 0), (0, 0), (0, 0), (0, 0),
      (0, 0), (0, 8), (4, 0), (0, 12), (0, 0), (4, 0), (0, 0), (0, 12), (4, 4), (0, 4), (0, 12)]"

definition layouts_to_bytes :: "btf_layout list \<Rightarrow> bytes" where
  "layouts_to_bytes ls = concat (map (\<lambda>l. [lay_info_sz l, lay_elem_sz l] @ le16 (lay_flags l)) ls)"

definition btf_new_empty :: "bool \<Rightarrow> bool \<Rightarrow> btf option \<Rightarrow> bool \<Rightarrow> btf result" where
  "btf_new_empty calloc_ok raw_ok base add_layout =
     (if \<not> calloc_ok then Inl ENOMEM
      else if \<not> raw_ok then Inl ENOMEM
      else
        let str_len = (if base = None then 1 else 0);
            lay = (if add_layout then layouts_to_bytes layouts else []);
            hdr = btf_hdr_zero\<lparr>h_hdr_len := 32, h_magic := BTF_MAGIC, h_version := 1, h_str_len := str_len,
                    h_layout_len := of_nat (length lay), h_str_off := of_nat (length lay)\<rparr>;
            raw = hdr_to_bytes hdr @ lay @ replicate (unat str_len) 0;
            b = btf_new_obj raw base
        in Inr (Btf base (b\<lparr>b_ptr_sz := 8,
             b_swapped_endian := (case base of None \<Rightarrow> False | Some base' \<Rightarrow> b_swapped_endian (own base')),
             b_hdr := hdr, b_strs := replicate (unat str_len) 0,
             b_layout := (if add_layout then Some layouts else None)\<rparr>)))"

definition btf__new_empty :: "bool \<Rightarrow> bool \<Rightarrow> btf result" where
  "btf__new_empty calloc_ok raw_ok = btf_new_empty calloc_ok raw_ok None False"

definition btf__new_empty_split :: "bool \<Rightarrow> bool \<Rightarrow> btf \<Rightarrow> btf result" where
  "btf__new_empty_split calloc_ok raw_ok base = btf_new_empty calloc_ok raw_ok (Some base) False"

section \<open>Raw data\<close>

text \<open>
  The words of the types, each swapped as the loop over the index does. The result is an
  error if the kind of a type is not known.
\<close>

fun swap_types :: "u32 list \<Rightarrow> u32 list \<Rightarrow> u32 list result" where
  "swap_types [] ws = Inr ws"
| "swap_types (off # offs) ws =
     (let n = unat off div 4 in
      res_bind (btf_bswap_type_rest (drop n ws)) (\<lambda>t. swap_types offs (take n ws @ btf_bswap_type_base t)))"

text \<open>
  \<open>None\<close> means that the sections do not fit into the allocated block, whose size is computed
  in 32 bits: the copies would write past its end.
\<close>

definition btf_get_raw_data :: "bool \<Rightarrow> btf \<Rightarrow> bool \<Rightarrow> (bytes \<times> u32) option option" where
  "btf_get_raw_data calloc_ok btf swap_endian =
     (let b = own btf; hdr = b_hdr b in
      case (if swap_endian then b_raw_swapped b else if b_raw_null b then None else Some (b_raw b)) of
        Some data \<Rightarrow> Some (Some (data, b_raw_size b))
      | None \<Rightarrow>
          let data_sz = h_hdr_len hdr + h_type_len hdr + h_str_len hdr;
              data_sz = (case b_layout b of None \<Rightarrow> data_sz | Some l \<Rightarrow> data_sz + h_layout_len hdr)
          in if \<not> calloc_ok then Some None
             else
               let h = take (unat (h_hdr_len hdr)) (hdr_to_bytes (if swap_endian then btf_bswap_hdr hdr (h_hdr_len hdr) else hdr));
                   head = h @ replicate (unat (h_hdr_len hdr) - length h) 0;
                   lay = (case b_layout b of
                            None \<Rightarrow> []
                          | Some l \<Rightarrow> layouts_to_bytes (if swap_endian then map (\<lambda>e. e\<lparr>lay_flags := bswap_16 (lay_flags e)\<rparr>) l else l));
                   strs = take (unat (h_str_len hdr)) (btf_strs_data b)
               in if unat data_sz < length head + unat (h_type_len hdr) + length lay + length strs then None
                  else
                    case (if swap_endian then swap_types (take (unat (b_nr_types b)) (b_type_offs b)) (b_types b)
                          else Inr (b_types b)) of
                      Inl e \<Rightarrow> Some None
                    | Inr ws \<Rightarrow> Some (Some (head @ concat (map le32 ws) @ lay @ strs, data_sz)))"

definition btf__raw_data :: "bool \<Rightarrow> btf \<Rightarrow> ((bytes \<times> u32) result \<times> btf) option" where
  "btf__raw_data calloc_ok btf =
     (let b = own btf in
      case btf_get_raw_data calloc_ok btf (b_swapped_endian b) of
        None \<Rightarrow> None
      | Some None \<Rightarrow> Some (Inl ENOMEM, btf)
      | Some (Some (data, data_sz)) \<Rightarrow>
          Some (Inr (data, data_sz), Btf (base_btf btf)
            (if b_swapped_endian b then b\<lparr>b_raw_size := data_sz, b_raw_swapped := Some data\<rparr>
             else b\<lparr>b_raw_size := data_sz, b_raw := data, b_raw_null := False\<rparr>)))"

section \<open>Modifiable objects\<close>

definition btf_invalidate_raw_data :: "btf_part \<Rightarrow> btf_part" where
  "btf_invalidate_raw_data b =
     b\<lparr>b_raw := [], b_raw_null := True, b_raw_swapped := None, b_named_start_id := 0\<rparr>"

definition btf_ensure_modifiable :: "btf_env \<Rightarrow> btf \<Rightarrow> btf result" where
  "btf_ensure_modifiable env btf =
     (let b = own btf; len = h_str_len (b_hdr b) in
      if b_modifiable b then Inr (Btf (base_btf btf) (btf_invalidate_raw_data b))
      else if b_has_hdr_extra b then Inl ENOTSUP
      else if \<not> ev_types env then Inl ENOMEM
      else if h_layout_len (b_hdr b) \<noteq> 0 \<and> \<not> ev_layout env then Inl ENOMEM
      else
        case strset__new (ev_set_calloc env) (ev_set_malloc env) (ev_set_data env) (ev_set_index env)
               (ucast BTF_MAX_STR_OFFSET) (Some (take (unat len) (b_strs b))) of
          Inl e \<Rightarrow> Inl e
        | Inr ss \<Rightarrow>
            Inr (Btf (base_btf btf) (btf_invalidate_raw_data
              (b\<lparr>b_strs := [], b_strs_set := Some ss,
                 b_strs_deduped := (b_strs_deduped b \<or> len = 0 \<or> base_btf btf = None \<and> len = 1),
                 b_modifiable := True\<rparr>))))"

definition set_strs_set :: "btf \<Rightarrow> strset \<Rightarrow> btf" where
  "set_strs_set btf ss = Btf (base_btf btf) ((own btf)\<lparr>b_strs_set := Some ss\<rparr>)"

text \<open>
  The offset of a string is computed in 32 bits and returned as an \<open>int\<close>. Every caller takes a negative one for
  an error, so it is one: the error it denotes.
\<close>

definition int_result :: "u32 \<Rightarrow> u32 result" where
  "int_result v = (if sint v < 0 then Inl (err_of_int (sint v)) else Inr v)"

definition strs_find :: "btf_env \<Rightarrow> btf \<Rightarrow> bytes \<Rightarrow> u32 result \<times> btf" where
  "strs_find env btf s =
     (case the (strset__find_str (ev_str env) (the (b_strs_set (own btf))) (Outside s)) of
        (r, ss) \<Rightarrow> (res_bind r (\<lambda>off. int_result (b_start_str_off (own btf) + off)), set_strs_set btf ss))"

fun btf__find_str :: "btf_envs \<Rightarrow> btf \<Rightarrow> bytes \<Rightarrow> u32 result \<times> btf" where
  "btf__find_str env (Btf base b) s =
     (case (case base of
              None \<Rightarrow> (Inl ENOENT, None)
            | Some base' \<Rightarrow> (case btf__find_str (\<lambda>n. env (Suc n)) base' s of (r, base'') \<Rightarrow> (r, Some base''))) of
        (r, base'') \<Rightarrow>
          if r \<noteq> Inl ENOENT then (r, Btf base'' b)
          else case btf_ensure_modifiable (env 0) (Btf base'' b) of
                 Inl e \<Rightarrow> (Inl e, Btf base'' b)
               | Inr btf \<Rightarrow> strs_find (env 0) btf s)"

definition strs_add :: "btf_env \<Rightarrow> btf \<Rightarrow> bytes \<Rightarrow> u32 result \<times> btf" where
  "strs_add env btf s =
     (case the (strset__add_str (ev_str env) (ev_str_calloc env) (ev_str_malloc env)
                  (the (b_strs_set (own btf))) (Outside s)) of
        (Inl e, ss) \<Rightarrow> (Inl e, set_strs_set btf ss)
      | (Inr off, ss) \<Rightarrow>
          (int_result (b_start_str_off (own btf) + off),
           (let btf = set_strs_set btf ss; b = own btf
            in Btf (base_btf btf) (b\<lparr>b_hdr := (b_hdr b)\<lparr>h_str_len := ucast (strset__data_size ss)\<rparr>\<rparr>))))"

definition btf__add_str :: "btf_envs \<Rightarrow> btf \<Rightarrow> bytes \<Rightarrow> u32 result \<times> btf" where
  "btf__add_str env btf s =
     (case (case base_btf btf of
              None \<Rightarrow> (Inl ENOENT, None)
            | Some base \<Rightarrow> (case btf__find_str (\<lambda>n. env (Suc n)) base s of (r, base') \<Rightarrow> (r, Some base'))) of
        (r, base') \<Rightarrow>
          let btf = Btf base' (own btf) in
          if r \<noteq> Inl ENOENT then (r, btf)
          else case btf_ensure_modifiable (env 0) btf of
                 Inl e \<Rightarrow> (Inl e, btf)
               | Inr btf \<Rightarrow> strs_add (env 0) btf s)"

section \<open>Committing types and members\<close>

definition btf_type_info :: "u32 \<Rightarrow> u32 \<Rightarrow> bool \<Rightarrow> u32" where
  "btf_type_info kind vlen kflag = push_bit 31 (of_bool kflag) OR push_bit 24 kind OR vlen"

definition btf_add_type_mem :: "btf_env \<Rightarrow> btf \<Rightarrow> nat \<Rightarrow> bool" where
  "btf_add_type_mem env btf add_sz \<longleftrightarrow>
     ev_type_mem env \<and> unat (h_type_len (b_hdr (own btf))) + add_sz \<le> 2 ^ 32 - 1"

definition btf_hdr_update_type_len :: "btf_part \<Rightarrow> u32 \<Rightarrow> btf_part" where
  "btf_hdr_update_type_len b new_len =
     (let hdr = (b_hdr b)\<lparr>h_type_len := new_len\<rparr>
      in b\<lparr>b_hdr := (case b_layout b of
           Some l \<Rightarrow> hdr\<lparr>h_layout_off := h_type_off hdr + new_len,
                        h_str_off := h_type_off hdr + new_len + h_layout_len hdr\<rparr>
         | None \<Rightarrow> hdr\<lparr>h_str_off := h_type_off hdr + new_len\<rparr>)\<rparr>)"

text \<open>Commits the words written behind the types as a new type, and returns its id.\<close>

definition btf_commit_type :: "btf_env \<Rightarrow> btf \<Rightarrow> u32 list \<Rightarrow> u32 result \<times> btf" where
  "btf_commit_type env btf ws =
     (let b = own btf; len = h_type_len (b_hdr b) in
      case btf_add_type_idx_entry (ev_idx env) b len of
        Inl e \<Rightarrow> (Inl e, btf)
      | Inr b \<Rightarrow>
          let b = btf_hdr_update_type_len (b\<lparr>b_types := b_types b @ ws\<rparr>) (len + of_nat (4 * length ws));
              b = b\<lparr>b_nr_types := b_nr_types b + 1\<rparr>
          in (Inr (b_start_id b + b_nr_types b - 1), Btf (base_btf btf) b))"

definition str_is_empty :: "bytes option \<Rightarrow> bool" where
  "str_is_empty s \<longleftrightarrow> (case s of None \<Rightarrow> True | Some b \<Rightarrow> is_empty_str b)"

text \<open>The offset of a name that may be missing; a negative offset is an error, as \<open>int_result\<close> has it.\<close>

definition add_name :: "btf_envs \<Rightarrow> btf \<Rightarrow> bytes option \<Rightarrow> u32 result \<times> btf" where
  "add_name env btf name =
     (if str_is_empty name then (Inr 0, btf) else btf__add_str env btf (the name))"

text \<open>
  What the functions that append a type do after their checks: make the object modifiable,
  reserve the memory, add the name, fill in the type and commit it.
\<close>

definition append_type :: "btf_envs \<Rightarrow> btf \<Rightarrow> nat \<Rightarrow> bytes option \<Rightarrow> (u32 \<Rightarrow> u32 list) \<Rightarrow> u32 result \<times> btf" where
  "append_type env btf type_sz name fill =
     (case btf_ensure_modifiable (env 0) btf of
        Inl e \<Rightarrow> (Inl e, btf)
      | Inr btf \<Rightarrow>
          if \<not> btf_add_type_mem (env 0) btf type_sz then (Inl ENOMEM, btf)
          else st_bind (add_name env btf name) (\<lambda>name_off btf. btf_commit_type (env 0) btf (fill name_off)))"

definition BTF_MAX_VLEN :: u32 where "BTF_MAX_VLEN = 0xffffff"

definition btf_type_inc_vlen :: "btf_type \<Rightarrow> u32 result" where
  "btf_type_inc_vlen t =
     (if btf_vlen t = BTF_MAX_VLEN then Inl ENOSPC
      else Inr (btf_type_info (btf_kind t) (btf_vlen t + 1) (btf_kflag t)))"

definition btf_last_type :: "btf \<Rightarrow> btf_type" where
  "btf_last_type btf = btf_type_by_id btf (btf__type_cnt btf - 1)"

text \<open>Writing the \<open>info\<close> word of a type of the object itself.\<close>

definition set_type_info :: "btf \<Rightarrow> u32 \<Rightarrow> u32 \<Rightarrow> btf" where
  "set_type_info btf type_id info =
     (let b = own btf; n = unat (b_type_offs b ! unat (type_id - b_start_id b)) div 4
      in Btf (base_btf btf) (b\<lparr>b_types := (b_types b)[n + 1 := info]\<rparr>))"

text \<open>
  What the functions that append an element to the last type do after their checks; \<open>upd\<close> is
  the new \<open>info\<close> word of that type, or an error.
\<close>

definition append_member ::
  "btf_envs \<Rightarrow> btf \<Rightarrow> nat \<Rightarrow> bytes option \<Rightarrow> (u32 \<Rightarrow> u32 list) \<Rightarrow> (btf_type \<Rightarrow> u32 result) \<Rightarrow> unit result \<times> btf" where
  "append_member env btf elem_sz name fill upd =
     (case btf_ensure_modifiable (env 0) btf of
        Inl e \<Rightarrow> (Inl e, btf)
      | Inr btf \<Rightarrow>
          if \<not> btf_add_type_mem (env 0) btf elem_sz then (Inl ENOMEM, btf)
          else st_bind (add_name env btf name) (\<lambda>name_off btf.
            case upd (btf_last_type btf) of
              Inl e \<Rightarrow> (Inl e, btf)
            | Inr info \<Rightarrow>
                let btf = set_type_info btf (btf__type_cnt btf - 1) info; b = own btf
                in (Inr (), Btf (base_btf btf)
                     (btf_hdr_update_type_len (b\<lparr>b_types := b_types b @ fill name_off\<rparr>)
                        (h_type_len (b_hdr b) + of_nat elem_sz)))))"

section \<open>Appending types\<close>

text \<open>Type ids are given as \<open>int\<close>.\<close>

definition validate_type_id :: "u32 \<Rightarrow> errno option" where
  "validate_type_id i = (if sint i < 0 \<or> sint i > uint BTF_MAX_NR_TYPES then Some EINVAL else None)"

definition btf__add_int :: "btf_envs \<Rightarrow> btf \<Rightarrow> bytes option \<Rightarrow> u64 \<Rightarrow> u32 \<Rightarrow> u32 result \<times> btf" where
  "btf__add_int env btf name byte_sz encoding =
     (if str_is_empty name then (Inl EINVAL, btf)
      else if byte_sz = 0 \<or> (byte_sz AND (byte_sz - 1)) \<noteq> 0 \<or> byte_sz > 16 then (Inl EINVAL, btf)
      else if (encoding AND NOT (1 OR 2 OR 4)) \<noteq> 0 then (Inl EINVAL, btf)
      else append_type env btf 16 name
             (\<lambda>name_off. [name_off, btf_type_info BTF_KIND_INT 0 False, ucast byte_sz,
                push_bit 24 encoding OR ucast (byte_sz * 8)]))"

definition btf__add_float :: "btf_envs \<Rightarrow> btf \<Rightarrow> bytes option \<Rightarrow> u64 \<Rightarrow> u32 result \<times> btf" where
  "btf__add_float env btf name byte_sz =
     (if str_is_empty name then (Inl EINVAL, btf)
      else if byte_sz \<noteq> 2 \<and> byte_sz \<noteq> 4 \<and> byte_sz \<noteq> 8 \<and> byte_sz \<noteq> 12 \<and> byte_sz \<noteq> 16 then (Inl EINVAL, btf)
      else append_type env btf 12 name (\<lambda>name_off. [name_off, btf_type_info BTF_KIND_FLOAT 0 False, ucast byte_sz]))"

definition btf_add_ref_kind :: "btf_envs \<Rightarrow> btf \<Rightarrow> u32 \<Rightarrow> bytes option \<Rightarrow> u32 \<Rightarrow> bool \<Rightarrow> u32 result \<times> btf" where
  "btf_add_ref_kind env btf kind name ref_type_id kflag =
     (if validate_type_id ref_type_id \<noteq> None then (Inl EINVAL, btf)
      else append_type env btf 12 name (\<lambda>name_off. [name_off, btf_type_info kind 0 kflag, ref_type_id]))"

definition btf__add_ptr :: "btf_envs \<Rightarrow> btf \<Rightarrow> u32 \<Rightarrow> u32 result \<times> btf" where
  "btf__add_ptr env btf ref_type_id = btf_add_ref_kind env btf BTF_KIND_PTR None ref_type_id False"

definition btf__add_array :: "btf_envs \<Rightarrow> btf \<Rightarrow> u32 \<Rightarrow> u32 \<Rightarrow> u32 \<Rightarrow> u32 result \<times> btf" where
  "btf__add_array env btf index_type_id elem_type_id nr_elems =
     (if validate_type_id index_type_id \<noteq> None \<or> validate_type_id elem_type_id \<noteq> None then (Inl EINVAL, btf)
      else append_type env btf 24 None
             (\<lambda>_. [0, btf_type_info BTF_KIND_ARRAY 0 False, 0, elem_type_id, index_type_id, nr_elems]))"

definition btf_add_composite :: "btf_envs \<Rightarrow> btf \<Rightarrow> u32 \<Rightarrow> bytes option \<Rightarrow> u32 \<Rightarrow> u32 result \<times> btf" where
  "btf_add_composite env btf kind name bytes_sz =
     append_type env btf 12 name (\<lambda>name_off. [name_off, btf_type_info kind 0 False, bytes_sz])"

definition btf__add_struct :: "btf_envs \<Rightarrow> btf \<Rightarrow> bytes option \<Rightarrow> u32 \<Rightarrow> u32 result \<times> btf" where
  "btf__add_struct env btf name byte_sz = btf_add_composite env btf BTF_KIND_STRUCT name byte_sz"

definition btf__add_union :: "btf_envs \<Rightarrow> btf \<Rightarrow> bytes option \<Rightarrow> u32 \<Rightarrow> u32 result \<times> btf" where
  "btf__add_union env btf name byte_sz = btf_add_composite env btf BTF_KIND_UNION name byte_sz"

definition btf__add_field :: "btf_envs \<Rightarrow> btf \<Rightarrow> bytes option \<Rightarrow> u32 \<Rightarrow> u32 \<Rightarrow> u32 \<Rightarrow> unit result \<times> btf" where
  "btf__add_field env btf name type_id bit_offset bit_size =
     (let t = btf_last_type btf; is_bitfield = (bit_size \<noteq> 0 \<or> bit_offset mod 8 \<noteq> 0) in
      if b_nr_types (own btf) = 0 then (Inl EINVAL, btf)
      else if \<not> btf_is_composite t then (Inl EINVAL, btf)
      else if btf_vlen t = BTF_MAX_VLEN then (Inl ENOSPC, btf)
      else if validate_type_id type_id \<noteq> None then (Inl EINVAL, btf)
      else if is_bitfield \<and> (bit_size = 0 \<or> bit_size > 255 \<or> bit_offset > 0xffffff) then (Inl EINVAL, btf)
      else if btf_is_union t \<and> bit_offset \<noteq> 0 then (Inl EINVAL, btf)
      else append_member env btf 12 name (\<lambda>name_off. [name_off, type_id, bit_offset OR push_bit 24 bit_size])
             (\<lambda>t. Inr (btf_type_info (btf_kind t) (btf_vlen t + 1) (is_bitfield \<or> btf_kflag t))))"

definition btf_add_enum_common :: "btf_envs \<Rightarrow> btf \<Rightarrow> bytes option \<Rightarrow> u32 \<Rightarrow> bool \<Rightarrow> u32 \<Rightarrow> u32 result \<times> btf" where
  "btf_add_enum_common env btf name byte_sz is_signed kind =
     (if byte_sz = 0 \<or> (byte_sz AND (byte_sz - 1)) \<noteq> 0 \<or> byte_sz > 8 then (Inl EINVAL, btf)
      else append_type env btf 12 name (\<lambda>name_off. [name_off, btf_type_info kind 0 is_signed, byte_sz]))"

definition btf__add_enum :: "btf_envs \<Rightarrow> btf \<Rightarrow> bytes option \<Rightarrow> u32 \<Rightarrow> u32 result \<times> btf" where
  "btf__add_enum env btf name byte_sz = btf_add_enum_common env btf name byte_sz False BTF_KIND_ENUM"

text \<open>The kind flag of an enum says that it has negative values.\<close>

definition enum_value_info :: "u64 \<Rightarrow> btf_type \<Rightarrow> u32 result" where
  "enum_value_info value t =
     res_bind (btf_type_inc_vlen t) (\<lambda>info.
       let t' = t\<lparr>t_info := info\<rparr>
       in Inr (if sint value < 0 then btf_type_info (btf_kind t') (btf_vlen t') True else info))"

definition btf__add_enum_value :: "btf_envs \<Rightarrow> btf \<Rightarrow> bytes option \<Rightarrow> u64 \<Rightarrow> unit result \<times> btf" where
  "btf__add_enum_value env btf name value =
     (if b_nr_types (own btf) = 0 then (Inl EINVAL, btf)
      else if \<not> btf_is_enum (btf_last_type btf) then (Inl EINVAL, btf)
      else if str_is_empty name then (Inl EINVAL, btf)
      else if sint value < - (2 ^ 31) \<or> sint value > 2 ^ 32 - 1 then (Inl E2BIG, btf)
      else append_member env btf 8 name (\<lambda>name_off. [name_off, ucast value]) (enum_value_info value))"

definition btf__add_enum64 :: "btf_envs \<Rightarrow> btf \<Rightarrow> bytes option \<Rightarrow> u32 \<Rightarrow> bool \<Rightarrow> u32 result \<times> btf" where
  "btf__add_enum64 env btf name byte_sz is_signed = btf_add_enum_common env btf name byte_sz is_signed BTF_KIND_ENUM64"

definition btf__add_enum64_value :: "btf_envs \<Rightarrow> btf \<Rightarrow> bytes option \<Rightarrow> u64 \<Rightarrow> unit result \<times> btf" where
  "btf__add_enum64_value env btf name value =
     (if b_nr_types (own btf) = 0 then (Inl EINVAL, btf)
      else if \<not> btf_is_enum64 (btf_last_type btf) then (Inl EINVAL, btf)
      else if str_is_empty name then (Inl EINVAL, btf)
      else append_member env btf 12 name (\<lambda>name_off. [name_off, ucast value, ucast (drop_bit 32 value)]) btf_type_inc_vlen)"

datatype btf_fwd_kind = BTF_FWD_STRUCT | BTF_FWD_UNION | BTF_FWD_ENUM

text \<open>Replaces the \<open>info\<close> word of a type that has just been added.\<close>

definition with_info :: "u32 \<Rightarrow> u32 result \<times> btf \<Rightarrow> u32 result \<times> btf" where
  "with_info info r =
     (case r of
        (Inl e, btf) \<Rightarrow> (Inl e, btf)
      | (Inr i, btf) \<Rightarrow> if sint i \<le> 0 then (Inr i, btf) else (Inr i, set_type_info btf i info))"

definition btf__add_fwd :: "btf_envs \<Rightarrow> btf \<Rightarrow> bytes option \<Rightarrow> btf_fwd_kind \<Rightarrow> u32 result \<times> btf" where
  "btf__add_fwd env btf name fwd_kind =
     (if str_is_empty name then (Inl EINVAL, btf)
      else case fwd_kind of
             BTF_FWD_ENUM \<Rightarrow> btf__add_enum env btf name 4
           | _ \<Rightarrow> with_info (btf_type_info BTF_KIND_FWD 0 (fwd_kind = BTF_FWD_UNION))
                    (btf_add_ref_kind env btf BTF_KIND_FWD name 0 False))"

definition btf__add_typedef :: "btf_envs \<Rightarrow> btf \<Rightarrow> bytes option \<Rightarrow> u32 \<Rightarrow> u32 result \<times> btf" where
  "btf__add_typedef env btf name ref_type_id =
     (if str_is_empty name then (Inl EINVAL, btf) else btf_add_ref_kind env btf BTF_KIND_TYPEDEF name ref_type_id False)"

definition btf__add_volatile :: "btf_envs \<Rightarrow> btf \<Rightarrow> u32 \<Rightarrow> u32 result \<times> btf" where
  "btf__add_volatile env btf ref_type_id = btf_add_ref_kind env btf BTF_KIND_VOLATILE None ref_type_id False"

definition btf__add_const :: "btf_envs \<Rightarrow> btf \<Rightarrow> u32 \<Rightarrow> u32 result \<times> btf" where
  "btf__add_const env btf ref_type_id = btf_add_ref_kind env btf BTF_KIND_CONST None ref_type_id False"

definition btf__add_restrict :: "btf_envs \<Rightarrow> btf \<Rightarrow> u32 \<Rightarrow> u32 result \<times> btf" where
  "btf__add_restrict env btf ref_type_id = btf_add_ref_kind env btf BTF_KIND_RESTRICT None ref_type_id False"

definition btf__add_type_tag :: "btf_envs \<Rightarrow> btf \<Rightarrow> bytes option \<Rightarrow> u32 \<Rightarrow> u32 result \<times> btf" where
  "btf__add_type_tag env btf v ref_type_id =
     (if str_is_empty v then (Inl EINVAL, btf) else btf_add_ref_kind env btf BTF_KIND_TYPE_TAG v ref_type_id False)"

definition btf__add_type_attr :: "btf_envs \<Rightarrow> btf \<Rightarrow> bytes option \<Rightarrow> u32 \<Rightarrow> u32 result \<times> btf" where
  "btf__add_type_attr env btf v ref_type_id =
     (if str_is_empty v then (Inl EINVAL, btf) else btf_add_ref_kind env btf BTF_KIND_TYPE_TAG v ref_type_id True)"

definition btf__add_func :: "btf_envs \<Rightarrow> btf \<Rightarrow> bytes option \<Rightarrow> u32 \<Rightarrow> u32 \<Rightarrow> u32 result \<times> btf" where
  "btf__add_func env btf name linkage proto_type_id =
     (if str_is_empty name then (Inl EINVAL, btf)
      else if linkage \<noteq> 0 \<and> linkage \<noteq> 1 \<and> linkage \<noteq> 2 then (Inl EINVAL, btf)
      else with_info (btf_type_info BTF_KIND_FUNC linkage False)
             (btf_add_ref_kind env btf BTF_KIND_FUNC name proto_type_id False))"

definition btf__add_func_proto :: "btf_envs \<Rightarrow> btf \<Rightarrow> u32 \<Rightarrow> u32 result \<times> btf" where
  "btf__add_func_proto env btf ret_type_id =
     (if validate_type_id ret_type_id \<noteq> None then (Inl EINVAL, btf)
      else append_type env btf 12 None (\<lambda>_. [0, btf_type_info BTF_KIND_FUNC_PROTO 0 False, ret_type_id]))"

definition btf__add_func_param :: "btf_envs \<Rightarrow> btf \<Rightarrow> bytes option \<Rightarrow> u32 \<Rightarrow> unit result \<times> btf" where
  "btf__add_func_param env btf name type_id =
     (if validate_type_id type_id \<noteq> None then (Inl EINVAL, btf)
      else if b_nr_types (own btf) = 0 then (Inl EINVAL, btf)
      else if \<not> btf_is_func_proto (btf_last_type btf) then (Inl EINVAL, btf)
      else append_member env btf 8 name (\<lambda>name_off. [name_off, type_id]) btf_type_inc_vlen)"

definition btf__add_var :: "btf_envs \<Rightarrow> btf \<Rightarrow> bytes option \<Rightarrow> u32 \<Rightarrow> u32 \<Rightarrow> u32 result \<times> btf" where
  "btf__add_var env btf name linkage type_id =
     (if str_is_empty name then (Inl EINVAL, btf)
      else if linkage \<noteq> 0 \<and> linkage \<noteq> 1 \<and> linkage \<noteq> 2 then (Inl EINVAL, btf)
      else if validate_type_id type_id \<noteq> None then (Inl EINVAL, btf)
      else append_type env btf 16 name (\<lambda>name_off. [name_off, btf_type_info BTF_KIND_VAR 0 False, type_id, linkage]))"

definition btf__add_datasec :: "btf_envs \<Rightarrow> btf \<Rightarrow> bytes option \<Rightarrow> u32 \<Rightarrow> u32 result \<times> btf" where
  "btf__add_datasec env btf name byte_sz =
     (if str_is_empty name then (Inl EINVAL, btf)
      else append_type env btf 12 name (\<lambda>name_off. [name_off, btf_type_info BTF_KIND_DATASEC 0 False, byte_sz]))"

definition btf__add_datasec_var_info :: "btf_envs \<Rightarrow> btf \<Rightarrow> u32 \<Rightarrow> u32 \<Rightarrow> u32 \<Rightarrow> unit result \<times> btf" where
  "btf__add_datasec_var_info env btf var_type_id offset byte_sz =
     (if b_nr_types (own btf) = 0 then (Inl EINVAL, btf)
      else if \<not> btf_is_datasec (btf_last_type btf) then (Inl EINVAL, btf)
      else if validate_type_id var_type_id \<noteq> None then (Inl EINVAL, btf)
      else append_member env btf 12 None (\<lambda>_. [var_type_id, offset, byte_sz]) btf_type_inc_vlen)"

definition btf_add_decl_tag :: "btf_envs \<Rightarrow> btf \<Rightarrow> bytes option \<Rightarrow> u32 \<Rightarrow> u32 \<Rightarrow> bool \<Rightarrow> u32 result \<times> btf" where
  "btf_add_decl_tag env btf v ref_type_id component_idx kflag =
     (if str_is_empty v \<or> sint component_idx < - 1 then (Inl EINVAL, btf)
      else if validate_type_id ref_type_id \<noteq> None then (Inl EINVAL, btf)
      else append_type env btf 16 v
             (\<lambda>value_off. [value_off, btf_type_info BTF_KIND_DECL_TAG 0 kflag, ref_type_id, component_idx]))"

definition btf__add_decl_tag :: "btf_envs \<Rightarrow> btf \<Rightarrow> bytes option \<Rightarrow> u32 \<Rightarrow> u32 \<Rightarrow> u32 result \<times> btf" where
  "btf__add_decl_tag env btf v ref_type_id component_idx = btf_add_decl_tag env btf v ref_type_id component_idx False"

definition btf__add_decl_attr :: "btf_envs \<Rightarrow> btf \<Rightarrow> bytes option \<Rightarrow> u32 \<Rightarrow> u32 \<Rightarrow> u32 result \<times> btf" where
  "btf__add_decl_attr env btf v ref_type_id component_idx = btf_add_decl_tag env btf v ref_type_id component_idx True"

definition btf__add_loc_param :: "btf_envs \<Rightarrow> btf \<Rightarrow> u32 \<Rightarrow> u32 \<Rightarrow> u32 result \<times> btf" where
  "btf__add_loc_param env btf byte_sz flags =
     (if byte_sz = 0 \<or> byte_sz > 16 then (Inl EINVAL, btf)
      else append_type env btf 16 None (\<lambda>_. [0, btf_type_info BTF_KIND_LOC_PARAM 0 False, byte_sz, flags]))"

definition btf__add_loc_param_value :: "btf_envs \<Rightarrow> btf \<Rightarrow> u32 \<Rightarrow> unit result \<times> btf" where
  "btf__add_loc_param_value env btf v =
     (if b_nr_types (own btf) = 0 then (Inl EINVAL, btf)
      else if \<not> btf_is_loc_param (btf_last_type btf) then (Inl EINVAL, btf)
      else append_member env btf 4 None (\<lambda>_. [v]) btf_type_inc_vlen)"

definition btf__add_loc_proto :: "btf_envs \<Rightarrow> btf \<Rightarrow> u32 result \<times> btf" where
  "btf__add_loc_proto env btf = append_type env btf 12 None (\<lambda>_. [0, btf_type_info BTF_KIND_LOC_PROTO 0 False, 0])"

definition btf__add_loc_proto_param :: "btf_envs \<Rightarrow> btf \<Rightarrow> u32 \<Rightarrow> unit result \<times> btf" where
  "btf__add_loc_proto_param env btf i =
     (if validate_type_id i \<noteq> None then (Inl EINVAL, btf)
      else if b_nr_types (own btf) = 0 then (Inl EINVAL, btf)
      else if \<not> btf_is_loc_proto (btf_last_type btf) then (Inl EINVAL, btf)
      else append_member env btf 4 None (\<lambda>_. [i]) btf_type_inc_vlen)"

definition btf__add_locsec :: "btf_envs \<Rightarrow> btf \<Rightarrow> bytes option \<Rightarrow> u32 result \<times> btf" where
  "btf__add_locsec env btf name =
     (if str_is_empty name then (Inl EINVAL, btf)
      else append_type env btf 12 name (\<lambda>name_off. [name_off, btf_type_info BTF_KIND_LOCSEC 0 False, 0]))"

definition btf__add_locsec_loc :: "btf_envs \<Rightarrow> btf \<Rightarrow> u32 \<Rightarrow> u32 \<Rightarrow> u32 \<Rightarrow> unit result \<times> btf" where
  "btf__add_locsec_loc env btf func loc_proto offset =
     (if validate_type_id func \<noteq> None \<or> validate_type_id loc_proto \<noteq> None then (Inl EINVAL, btf)
      else if b_nr_types (own btf) = 0 then (Inl EINVAL, btf)
      else if \<not> btf_is_locsec (btf_last_type btf) then (Inl EINVAL, btf)
      else append_member env btf 12 None (\<lambda>_. [func, loc_proto, offset]) btf_type_inc_vlen)"

end
