(* ===== verification/BtfBuild.thy ===== *)
theory BtfBuild
  imports BtfWrite
begin

text \<open>
  Building BTF keeps what is there: the strings of an object and of its bases are one
  table that only grows at its end, the types are a list of word lists to which a
  type is appended or whose last type grows.
\<close>

section \<open>The table of strings\<close>

text \<open>The strings in use of one part, and of an object with its bases.\<close>

definition part_strs :: "btf_part \<Rightarrow> bytes" where
  "part_strs b = take (unat (h_str_len (b_hdr b))) (btf_strs_data b)"

definition part_strs_wf :: "btf_part \<Rightarrow> bool" where
  "part_strs_wf b \<longleftrightarrow>
     (if b_modifiable b
      then \<exists>ss. b_strs_set b = Some ss \<and> strset_inv ss \<and> unat (h_str_len (b_hdr b)) = unat (strs_data_len ss)
      else b_strs_set b = None \<and> unat (h_str_len (b_hdr b)) \<le> length (b_strs b) \<and> unat (h_str_len (b_hdr b)) < 2 ^ 31 \<and>
           (h_str_len (b_hdr b) = 0 \<or> b_strs b ! (unat (h_str_len (b_hdr b)) - 1) = 0))"

fun all_strs :: "btf \<Rightarrow> bytes" where
  "all_strs (Btf base b) = (case base of None \<Rightarrow> [] | Some base' \<Rightarrow> all_strs base') @ part_strs b"

fun strs_wf :: "btf \<Rightarrow> bool" where
  "strs_wf (Btf base b) \<longleftrightarrow>
     part_strs_wf b \<and>
     (case base of None \<Rightarrow> b_start_str_off b = 0
      | Some base' \<Rightarrow> strs_wf base' \<and> unat (b_start_str_off b) = length (all_strs base') \<and> length (all_strs base') \<le> 2 ^ 31)"

lemma terminated_last:
  assumes "n \<le> length d" "0 < n" "d ! (n - 1) = 0"
  shows "last (take n d) = 0"
proof -
  have "take n d \<noteq> []" using assms by auto
  then show ?thesis using assms by (simp add: last_conv_nth min_def)
qed

lemma part_strs_facts:
  assumes "part_strs_wf b"
  shows "length (part_strs b) = unat (h_str_len (b_hdr b))" "unat (h_str_len (b_hdr b)) < 2 ^ 31"
    and "part_strs b \<noteq> [] \<Longrightarrow> last (part_strs b) = 0"
    and "\<exists>rest. btf_strs_data b = part_strs b @ rest"
proof -
  let ?n = "unat (h_str_len (b_hdr b))"
  have f: "?n \<le> length (btf_strs_data b) \<and> ?n < 2 ^ 31 \<and> (?n = 0 \<or> btf_strs_data b ! (?n - 1) = 0)"
  proof (cases "b_modifiable b")
    case True
    then obtain ss where "b_strs_set b = Some ss" "strset_buf ss" "?n = unat (strs_data_len ss)"
      using assms by (auto simp: part_strs_wf_def strset_inv_def)
    then show ?thesis by (auto simp: btf_strs_data_def strset__data_def strset_buf_def)
  next
    case False
    then show ?thesis using assms by (auto simp: part_strs_wf_def btf_strs_data_def)
  qed
  then show "length (part_strs b) = ?n" "?n < 2 ^ 31" by (simp_all add: part_strs_def)
  show "last (part_strs b) = 0" if "part_strs b \<noteq> []"
    using that f terminated_last [of ?n "btf_strs_data b"] by (cases "?n = 0") (simp_all add: part_strs_def)
  show "\<exists>rest. btf_strs_data b = part_strs b @ rest"
    unfolding part_strs_def by (metis append_take_drop_id)
qed

lemma part_strs_modifiable:
  assumes "part_strs_wf b" "b_strs_set b = Some ss"
  shows "strset_inv ss" "part_strs b = strset_used ss" "unat (h_str_len (b_hdr b)) = unat (strs_data_len ss)" "b_modifiable b"
  using assms by (auto simp: part_strs_wf_def part_strs_def strset_used_def btf_strs_data_def strset__data_def split: if_split_asm)

lemma zero_in_drop:
  assumes "k < length s" "last s = (0 :: 'a :: zero)"
  shows "0 \<in> set (drop k s)"
  using assms last_in_set [of "drop k s"] by (simp add: last_drop)

lemma all_strs_length:
  "strs_wf btf \<Longrightarrow> length (all_strs btf) = unat (b_start_str_off (own btf)) + unat (h_str_len (b_hdr (own btf)))"
  by (cases btf) (auto simp: part_strs_facts split: option.splits)

lemma all_strs_last: "strs_wf btf \<Longrightarrow> all_strs btf \<noteq> [] \<Longrightarrow> last (all_strs btf) = 0"
proof (induction btf rule: strs_wf.induct)
  case (1 base b)
  then show ?case
    using part_strs_facts(3) [of b] by (cases base; cases "part_strs b = []") auto
qed

lemma all_strs_drop: "strs_wf btf \<Longrightarrow> k < length (all_strs btf) \<Longrightarrow> 0 \<in> set (drop k (all_strs btf))"
  using all_strs_last [of btf] by (cases "all_strs btf = []") (simp_all add: zero_in_drop)

text \<open>The lookup by offset is the lookup in the table.\<close>

lemma str_by_offset_table:
  "strs_wf btf \<Longrightarrow> map_option cstr (btf__str_by_offset btf off) =
     (if unat off < length (all_strs btf) then Some (cstr (drop (unat off) (all_strs btf))) else None)"
proof (induction btf off rule: btf__str_by_offset.induct)
  case (1 base b off)
  define pre where "pre = (case base of None \<Rightarrow> [] | Some base' \<Rightarrow> all_strs base')"
  have wf: "part_strs_wf b" and st: "unat (b_start_str_off b) = length pre" "length pre \<le> 2 ^ 31"
    using "1.prems" by (auto simp: pre_def split: option.splits)
  obtain rest where rest: "btf_strs_data b = part_strs b @ rest" using part_strs_facts(4) [OF wf] by blast
  have own: "map_option cstr (if off - b_start_str_off b < h_str_len (b_hdr b)
        then Some (drop (unat (off - b_start_str_off b)) (btf_strs_data b)) else None) =
      (if unat off < length (pre @ part_strs b) then Some (cstr (drop (unat off) (pre @ part_strs b))) else None)"
    if le: "b_start_str_off b \<le> off"
  proof -
    have k: "unat (off - b_start_str_off b) = unat off - length pre" "length pre \<le> unat off"
      using le st by (simp_all add: unat_sub word_le_nat_alt)
    show ?thesis
    proof (cases "unat off < length (pre @ part_strs b)")
      case True
      then have "part_strs b \<noteq> []" using k by auto
      then have t: "0 \<in> set (drop (unat off - length pre) (part_strs b))"
        using True k part_strs_facts(3) [OF wf] by (intro zero_in_drop) simp_all
      have "unat off - length pre < length (part_strs b)" using True k by simp
      then have d: "drop (unat off - length pre) (part_strs b @ rest) = drop (unat off - length pre) (part_strs b) @ rest"
        by simp
      have "off - b_start_str_off b < h_str_len (b_hdr b)"
        using True k part_strs_facts(1) [OF wf] by (simp add: word_less_nat_alt)
      then show ?thesis using True k t rest d by (simp add: cstr_append)
    next
      case False
      then show ?thesis using k part_strs_facts(1) [OF wf] by (simp add: word_less_nat_alt)
    qed
  qed
  show ?case
  proof (cases base)
    case None
    then have "b_start_str_off b \<le> off" using "1.prems" by simp
    then show ?thesis using own None by (simp add: Let_def pre_def)
  next
    case (Some base')
    show ?thesis
    proof (cases "off < b_start_str_off b")
      case True
      then have lt: "unat off < length (all_strs base')" using st Some by (simp add: pre_def word_less_nat_alt)
      have wf': "strs_wf base'" using "1.prems" Some by simp
      then have "0 \<in> set (drop (unat off) (all_strs base'))" using lt by (rule all_strs_drop)
      then show ?thesis
        using "1.IH" [OF refl Some True wf'] lt True Some by (simp add: cstr_append)
    next
      case False
      then have "b_start_str_off b \<le> off" by simp
      from own [OF this] show ?thesis using Some False unfolding btf__str_by_offset.simps Let_def by (simp add: pre_def)
    qed
  qed
qed

text \<open>The offset in the table of an offset in the strings of the last part.\<close>

lemma table_offset:
  assumes "strs_wf (Btf base b)" "unat o' < unat (h_str_len (b_hdr b))"
  shows "unat (b_start_str_off b + o') < length (all_strs (Btf base b)) \<and>
    cstr (drop (unat (b_start_str_off b + o')) (all_strs (Btf base b))) = cstr (drop (unat o') (part_strs b))"
proof -
  define pre where "pre = (case base of None \<Rightarrow> [] | Some base' \<Rightarrow> all_strs base')"
  have wf: "part_strs_wf b" and st: "unat (b_start_str_off b) = length pre" "length pre \<le> 2 ^ 31"
    using assms(1) by (auto simp: pre_def split: option.splits)
  have "unat o' < 2 ^ 31" using assms(2) part_strs_facts(2) [OF wf] by simp
  then have "unat (b_start_str_off b + o') = length pre + unat o'"
    using st by (subst unat_add_u32) simp_all
  then show ?thesis using assms(2) part_strs_facts(1) [OF wf] by (simp add: pre_def [symmetric])
qed

section \<open>Changes that leave the types alone\<close>

text \<open>
  Two objects with the same types: the operations on strings change nothing else. The
  header is compared without the fields of the string section.
\<close>

definition hdr_types :: "btf_header \<Rightarrow> btf_header" where
  "hdr_types h = h\<lparr>h_str_len := 0\<rparr>"

fun same_types :: "btf \<Rightarrow> btf \<Rightarrow> bool" where
  "same_types (Btf base b) (Btf base' b') \<longleftrightarrow>
     b_types b' = b_types b \<and> b_type_offs b' = b_type_offs b \<and> b_nr_types b' = b_nr_types b \<and>
     b_start_id b' = b_start_id b \<and> b_start_str_off b' = b_start_str_off b \<and> b_layout b' = b_layout b \<and>
     hdr_types (b_hdr b') = hdr_types (b_hdr b) \<and>
     (case base of None \<Rightarrow> base' = None | Some x \<Rightarrow> (case base' of None \<Rightarrow> False | Some y \<Rightarrow> same_types x y))"

lemma same_types_refl [simp]: "same_types btf btf"
  by (induction btf rule: strs_wf.induct) (auto split: option.split)

lemma same_base [simp]:
  "case base of None \<Rightarrow> base = None | Some x \<Rightarrow> (case base of None \<Rightarrow> False | Some y \<Rightarrow> same_types x y)"
  by (cases base) simp_all

lemma hdr_types_eq:
  assumes "hdr_types h = hdr_types h'"
  shows "h_type_len h = h_type_len h'" "h_type_off h = h_type_off h'" "h_layout_len h = h_layout_len h'"
    "h_hdr_len h = h_hdr_len h'" "h_str_off h = h_str_off h'"
  using assms by (cases h; cases h'; simp add: hdr_types_def)+

lemma same_types_trans: "same_types x y \<Longrightarrow> same_types y z \<Longrightarrow> same_types x z"
proof (induction x y arbitrary: z rule: same_types.induct)
  case (1 base b base' b')
  then show ?case by (cases z) (auto split: option.splits)
qed

lemma same_types_by_id: "same_types x y \<Longrightarrow> btf_type_by_id y i = btf_type_by_id x i"
  by (induction x y rule: same_types.induct) (auto simp: type_in_part_def split: option.splits)

lemma same_types_cnt: "same_types x y \<Longrightarrow> btf__type_cnt y = btf__type_cnt x"
  by (cases x; cases y) (simp add: btf__type_cnt_def)

lemma same_types_own:
  assumes "same_types x y"
  shows "b_layout (own y) = b_layout (own x)" "h_layout_len (b_hdr (own y)) = h_layout_len (b_hdr (own x))"
    "h_type_len (b_hdr (own y)) = h_type_len (b_hdr (own x))" "h_type_off (b_hdr (own y)) = h_type_off (b_hdr (own x))"
    "b_types (own y) = b_types (own x)" "b_type_offs (own y) = b_type_offs (own x)" "b_nr_types (own y) = b_nr_types (own x)"
    "b_start_id (own y) = b_start_id (own x)" "b_start_str_off (own y) = b_start_str_off (own x)"
    "h_hdr_len (b_hdr (own y)) = h_hdr_len (b_hdr (own x))" "h_str_off (b_hdr (own y)) = h_str_off (b_hdr (own x))"
proof -
  have h: "hdr_types (b_hdr (own y)) = hdr_types (b_hdr (own x))" using assms by (cases x; cases y) simp
  note e = hdr_types_eq [OF h]
  show "h_layout_len (b_hdr (own y)) = h_layout_len (b_hdr (own x))" by (rule e)
  show "h_type_len (b_hdr (own y)) = h_type_len (b_hdr (own x))" by (rule e)
  show "h_type_off (b_hdr (own y)) = h_type_off (b_hdr (own x))" by (rule e)
  show "h_hdr_len (b_hdr (own y)) = h_hdr_len (b_hdr (own x))" by (rule e)
  show "h_str_off (b_hdr (own y)) = h_str_off (b_hdr (own x))" by (rule e)
qed (use assms in \<open>cases x; cases y; simp\<close>)+

lemma same_types_base:
  assumes "same_types x y"
  obtains "base_btf x = None" "base_btf y = None"
  | u v where "base_btf x = Some u" "base_btf y = Some v" "same_types u v"
  using assms by (cases x; cases y) (auto split: option.splits)

lemma same_types_unknown:
  assumes "same_types x y"
  shows "btf_type_size_unknown y t = btf_type_size_unknown x t"
  using assms
proof (cases rule: same_types_base)
  case 1
  show ?thesis unfolding btf_type_size_unknown_def Let_def 1 same_types_own(1,2) [OF assms] ..
next
  case (2 u v)
  show ?thesis
    unfolding btf_type_size_unknown_def Let_def 2(1,2) option.case same_types_own(1,2) [OF assms] same_types_own(1,2) [OF 2(3)] ..
qed

lemma same_types_size: "same_types x y \<Longrightarrow> btf_type_size y t = btf_type_size x t"
  by (simp only: btf_type_size_def same_types_unknown)

section \<open>Adding strings\<close>

text \<open>The strings that a lookup finds, those of the bases first.\<close>

fun known_strs :: "btf \<Rightarrow> bytes list" where
  "known_strs (Btf base b) = (case base of None \<Rightarrow> [] | Some base' \<Rightarrow> known_strs base') @ split_strs (part_strs b)"

text \<open>Nothing but the representation of the strings has changed.\<close>

definition same_content :: "btf \<Rightarrow> btf \<Rightarrow> bool" where
  "same_content x y \<longleftrightarrow> same_types x y \<and> strs_wf y \<and> all_strs y = all_strs x \<and> known_strs y = known_strs x"

lemma same_content_refl: "strs_wf x \<Longrightarrow> same_content x x"
  by (simp add: same_content_def)

lemma same_content_trans: "same_content x y \<Longrightarrow> same_content y z \<Longrightarrow> same_content x z"
  by (auto simp: same_content_def intro: same_types_trans)

lemma same_content_part:
  assumes "strs_wf (Btf base b)" "part_strs_wf b'" "part_strs b' = part_strs b" "same_types (Btf base b) (Btf base b')"
  shows "same_content (Btf base b) (Btf base b')"
  using assms by (auto simp: same_content_def split: option.splits)

lemma same_content_base:
  assumes "strs_wf (Btf (Some base) b)" "same_content base base'"
  shows "same_content (Btf (Some base) b) (Btf (Some base') b)"
  using assms by (auto simp: same_content_def)

text \<open>The string set of an object that has been parsed.\<close>

lemma raw_strset_new:
  assumes "part_strs_wf b" "\<not> b_modifiable b"
  shows "case strset__new c m k alloc (ucast BTF_MAX_STR_OFFSET) (Some (take (unat (h_str_len (b_hdr b))) (b_strs b))) of
      Inl e \<Rightarrow> e = ENOMEM
    | Inr ss \<Rightarrow> strset_inv ss \<and> strset_used ss = take (unat (h_str_len (b_hdr b))) (b_strs b)"
proof -
  let ?d = "take (unat (h_str_len (b_hdr b))) (b_strs b)"
  have mx: "unat (ucast BTF_MAX_STR_OFFSET :: u64) = 2 ^ 31 - 1" by (simp add: BTF_MAX_STR_OFFSET_def)
  have "part_strs b = ?d" using assms by (simp add: part_strs_def part_strs_wf_def btf_strs_data_def)
  then have "?d = [] \<or> last ?d = 0" "length ?d \<le> 2 ^ 31 - 1"
    using part_strs_facts [OF assms(1)] by auto
  then show ?thesis
    using strset_new_ok [of "ucast BTF_MAX_STR_OFFSET :: u64" ?d c m k alloc] mx by (auto split: sum.splits)
qed

lemma ensure_modifiable_ok:
  assumes "strs_wf btf" "btf_ensure_modifiable e btf = Inr btf'"
  shows "same_content btf btf'" "b_modifiable (own btf')" "b_strs_set (own btf') \<noteq> None" "base_btf btf' = base_btf btf"
    "b_hdr (own btf') = b_hdr (own btf)" "b_raw_null (own btf')" "b_raw_swapped (own btf') = None"
    "b_named_start_id (own btf') = 0" "part_strs (own btf') = part_strs (own btf)"
proof -
  obtain base b where btf: "btf = Btf base b" by (cases btf)
  have wf: "part_strs_wf b" using assms(1) by (simp add: btf)
  have "\<exists>b'. btf' = Btf base b' \<and> part_strs_wf b' \<and> part_strs b' = part_strs b \<and> b_modifiable b' \<and> b_strs_set b' \<noteq> None \<and>
      b_hdr b' = b_hdr b \<and> b_raw_null b' \<and> b_raw_swapped b' = None \<and> b_named_start_id b' = 0 \<and> same_types (Btf base b) (Btf base b')"
  proof (cases "b_modifiable b")
    case True
    then have "btf' = Btf base (btf_invalidate_raw_data b)"
      using assms(2) by (simp add: btf btf_ensure_modifiable_def)
    then show ?thesis
      using True wf same_types_refl [of "Btf base b"]
      by (auto simp: btf_invalidate_raw_data_def part_strs_wf_def part_strs_def btf_strs_data_def)
  next
    case False
    let ?d = "take (unat (h_str_len (b_hdr b))) (b_strs b)"
    obtain ss where n: "strset__new (ev_set_calloc e) (ev_set_malloc e) (ev_set_data e) (ev_set_index e)
        (ucast BTF_MAX_STR_OFFSET) (Some ?d) = Inr ss"
      and btf': "btf' = Btf base (btf_invalidate_raw_data (b\<lparr>b_strs := [], b_strs_set := Some ss,
          b_strs_deduped := (b_strs_deduped b \<or> h_str_len (b_hdr b) = 0 \<or> base = None \<and> h_str_len (b_hdr b) = 1),
          b_modifiable := True\<rparr>))"
      using assms(2) False by (auto simp: btf btf_ensure_modifiable_def Let_def split: if_split_asm sum.split_asm)
    have ps: "part_strs b = ?d" using False wf by (simp add: part_strs_def part_strs_wf_def btf_strs_data_def)
    have ln: "length ?d = unat (h_str_len (b_hdr b))" using False wf by (simp add: part_strs_wf_def)
    have ok: "strset_inv ss" "strset_used ss = ?d"
      using raw_strset_new [OF wf False, of "ev_set_calloc e" "ev_set_malloc e" "ev_set_data e" "ev_set_index e"] n by simp_all
    have "unat (strs_data_len ss) \<le> length (strs_data ss)" using ok(1) by (simp add: strset_inv_def strset_buf_def)
    then have "unat (h_str_len (b_hdr b)) = unat (strs_data_len ss)"
      using arg_cong [OF ok(2), of length] ln by (simp add: strset_used_def)
    then show ?thesis
      using ok ps same_types_refl [of "Btf base b"]
      by (auto simp: btf' btf_invalidate_raw_data_def part_strs_wf_def part_strs_def btf_strs_data_def strset__data_def strset_used_def)
  qed
  then obtain b' where b': "btf' = Btf base b'" "part_strs_wf b'" "part_strs b' = part_strs b" "b_modifiable b'" "b_strs_set b' \<noteq> None"
      "b_hdr b' = b_hdr b" "b_raw_null b'" "b_raw_swapped b' = None" "b_named_start_id b' = 0" "same_types (Btf base b) (Btf base b')" by blast
  show "same_content btf btf'"
    unfolding btf b'(1) using assms(1) b' by (intro same_content_part) (simp_all add: btf)
  show "b_modifiable (own btf')" "b_strs_set (own btf') \<noteq> None" "base_btf btf' = base_btf btf"
    "b_hdr (own btf') = b_hdr (own btf)" "b_raw_null (own btf')" "b_raw_swapped (own btf') = None" "b_named_start_id (own btf') = 0"
    "part_strs (own btf') = part_strs (own btf)"
    using b' by (simp_all add: btf)
qed

lemma ensure_modifiable_err:
  assumes "btf_ensure_modifiable e btf = Inl er" "strs_wf btf"
  shows "er = ENOMEM \<or> er = ENOTSUP"
proof (cases "b_modifiable (own btf)")
  case False
  have "part_strs_wf (own btf)" using assms(2) by (cases btf) simp
  from raw_strset_new [OF this False, of "ev_set_calloc e" "ev_set_malloc e" "ev_set_data e" "ev_set_index e"] assms(1) False show ?thesis
    by (auto simp: btf_ensure_modifiable_def Let_def split: if_split_asm sum.split_asm)
qed (use assms(1) in \<open>simp add: btf_ensure_modifiable_def\<close>)

lemma outside_arg_ok: "0 \<in> set s \<Longrightarrow> length s < 2 ^ 63 \<Longrightarrow> str_arg_ok ss (Outside s)"
  by (simp add: str_arg_ok_def)

lemma sint_nonneg_iff:
  fixes v :: u32
  shows "0 \<le> sint v \<longleftrightarrow> unat v < 2 ^ 31"
proof -
  have m: "(n + 2 ^ 31) mod 2 ^ 32 = (if n < 2 ^ 31 then n + 2 ^ 31 else n - 2 ^ 31)" if "0 \<le> n" "n < 2 ^ 32" for n :: int
    using that by (auto simp: mod_pos_pos_trivial mod_pos_geq)
  define n where "n = unat v"
  have n: "n < 2 ^ 32" using unat_less_u32 [of v] by (simp add: n_def)
  have "sint v = (int n + 2 ^ 31) mod 2 ^ 32 - 2 ^ 31" using int_word_sint [where 'a = 32, of "int (unat v)"] by (simp add: n_def)
  then show ?thesis using m [of "int n"] n by (auto simp: n_def [symmetric])
qed

lemma int_result_eq: "int_result v = (if unat v < 2 ^ 31 then Inr v else Inl (err_of_int (sint v)))"
  using sint_nonneg_iff [of v] by (auto simp: int_result_def)

lemma strs_find_ok:
  assumes "strs_wf btf" "b_strs_set (own btf) \<noteq> None" "0 \<in> set s" "length s < 2 ^ 63" "strs_find e btf s = (r, btf')"
    and small: "length (all_strs btf) \<le> 2 ^ 31"
  shows "same_content btf btf'" "b_hdr (own btf') = b_hdr (own btf)" "base_btf btf' = base_btf btf"
    "r = Inl ENOENT \<Longrightarrow> cstr s \<notin> set (split_strs (part_strs (own btf)))"
    "r = Inr off \<Longrightarrow> cstr s \<in> set (split_strs (part_strs (own btf))) \<and> unat off < length (all_strs btf) \<and>
       cstr (drop (unat off) (all_strs btf)) = cstr s"
proof -
  obtain base b where btf: "btf = Btf base b" by (cases btf)
  have wf: "part_strs_wf b" using assms(1) by (simp add: btf)
  obtain ss where ss: "b_strs_set b = Some ss" using assms(2) by (auto simp: btf)
  note m = part_strs_modifiable [OF wf ss]
  obtain r0 ss' where f: "strset__find_str (ev_str e) ss (Outside s) = Some (r0, ss')" "strset_inv ss'" "strset_used ss' = strset_used ss"
    and r0: "case r0 of Inl er \<Rightarrow> er = ENOENT \<and> cstr s \<notin> set (split_strs (strset_used ss)) \<or> er = ENOMEM
      | Inr off \<Rightarrow> cstr s \<in> set (split_strs (strset_used ss)) \<and> 0 \<le> sint off \<and>
          unat off < unat (strs_data_len ss') \<and> cstr (drop (unat off) (strs_data ss')) = cstr s"
    using find_str_refines [OF m(1) outside_arg_ok [OF assms(3,4)], of "ev_str e"]
    by (elim exE conjE) (auto split: sum.splits)
  have "r = res_bind r0 (\<lambda>off. int_result (b_start_str_off b + off))" and btf': "btf' = Btf base (b\<lparr>b_strs_set := Some ss'\<rparr>)"
    using assms(5) f(1) ss by (simp_all add: strs_find_def btf set_strs_set_def)
  have buf: "strset_buf ss" "strset_buf ss'" using m(1) f(2) by (simp_all add: strset_inv_def)
  then have l: "unat (strs_data_len ss') = unat (strs_data_len ss)"
    using arg_cong [OF f(3), of length] by (auto simp: strset_used_def strset_buf_def)
  then have ps: "part_strs (b\<lparr>b_strs_set := Some ss'\<rparr>) = part_strs b" "part_strs_wf (b\<lparr>b_strs_set := Some ss'\<rparr>)"
    using m f by (simp_all add: part_strs_def part_strs_wf_def btf_strs_data_def strset__data_def strset_used_def)
  have int: "int_result (b_start_str_off b + o') = Inr (b_start_str_off b + o')" if "r0 = Inr o'" for o'
  proof -
    have "unat (b_start_str_off b + o') < length (all_strs btf)"
      using table_offset [OF assms(1) [unfolded btf]] r0 that l m(3) by (simp add: btf)
    then show ?thesis using small by (simp add: int_result_eq)
  qed
  have res: "r = map_sum id (\<lambda>off. b_start_str_off b + off) r0"
    using int \<open>r = res_bind r0 (\<lambda>off. int_result (b_start_str_off b + off))\<close> by (cases r0) simp_all
  show "same_content btf btf'"
    unfolding btf btf' using assms(1) ps by (intro same_content_part) (simp_all add: btf)
  show "b_hdr (own btf') = b_hdr (own btf)" "base_btf btf' = base_btf btf" by (simp_all add: btf btf')
  show "r = Inl ENOENT \<Longrightarrow> cstr s \<notin> set (split_strs (part_strs (own btf)))"
    using r0 m(2) by (auto simp: res btf split: sum.split_asm)
  show "cstr s \<in> set (split_strs (part_strs (own btf))) \<and> unat off < length (all_strs btf) \<and> cstr (drop (unat off) (all_strs btf)) = cstr s"
    if inr: "r = Inr off"
  proof -
    obtain o' where o': "r0 = Inr o'" "off = b_start_str_off b + o'" using inr res by (cases r0) auto
    then have p: "cstr s \<in> set (split_strs (strset_used ss))" "unat o' < unat (strs_data_len ss)" "cstr (drop (unat o') (strs_data ss')) = cstr s"
      using r0 l by simp_all
    then have "cstr (drop (unat o') (part_strs b)) = cstr s"
      using strset_buf_str(1) [OF buf(2), of "unat o'"] l f(3) m(2) by simp
    then show ?thesis using table_offset [OF assms(1) [unfolded btf]] p(1,2) m(2,3) o'(2) by (simp add: btf)
  qed
qed

text \<open>What a lookup of a string in an object promises.\<close>

definition lookup_ok :: "btf \<Rightarrow> bytes \<Rightarrow> u32 result \<Rightarrow> btf \<Rightarrow> bool" where
  "lookup_ok btf x r btf' \<longleftrightarrow>
     same_content btf btf' \<and> b_hdr (own btf') = b_hdr (own btf) \<and> (r = Inl ENOENT \<longrightarrow> x \<notin> set (known_strs btf)) \<and>
     (\<forall>off. r = Inr off \<longrightarrow> x \<in> set (known_strs btf) \<and> unat off < length (all_strs btf) \<and>
        cstr (drop (unat off) (all_strs btf)) = x)"

lemma find_own_ok:
  assumes "strs_wf btf" "btf_ensure_modifiable e btf = Inr btf1" "strs_find e btf1 s = (r, btf')"
    and "0 \<in> set s" "length s < 2 ^ 63" "\<And>u. base_btf btf = Some u \<Longrightarrow> cstr s \<notin> set (known_strs u)"
    and small: "length (all_strs btf) \<le> 2 ^ 31"
  shows "lookup_ok btf (cstr s) r btf'"
proof -
  note m = ensure_modifiable_ok [OF assms(1,2)]
  have wf1: "strs_wf btf1" using m(1) by (simp add: same_content_def)
  have small1: "length (all_strs btf1) \<le> 2 ^ 31" using small m(1) by (simp add: same_content_def)
  note f = strs_find_ok [OF wf1 m(3) assms(4,5,3) small1]
  have "same_content btf btf'" using same_content_trans [OF m(1) f(1)] .
  moreover have "b_hdr (own btf') = b_hdr (own btf)" using f(2) m(5) by simp
  moreover have "all_strs btf1 = all_strs btf" using m(1) by (simp add: same_content_def)
  moreover have "cstr s \<in> set (known_strs btf) \<longleftrightarrow> cstr s \<in> set (split_strs (part_strs (own btf1)))"
    using assms(6) m(9) by (cases btf) (auto split: option.splits)
  ultimately show ?thesis using f(4,5) by (simp add: lookup_ok_def)
qed

lemma lookup_trans:
  assumes "same_content x y" "b_hdr (own y) = b_hdr (own x)" "lookup_ok y s r z"
  shows "lookup_ok x s r z"
  using assms same_content_trans [OF assms(1)] unfolding lookup_ok_def by (auto simp: same_content_def)

lemma lookup_base_ok:
  assumes "strs_wf (Btf (Some base) b)" "lookup_ok base x r base'"
  shows "same_content (Btf (Some base) b) (Btf (Some base') b)" "r \<noteq> Inl ENOENT \<Longrightarrow> lookup_ok (Btf (Some base) b) x r (Btf (Some base') b)"
proof -
  show s: "same_content (Btf (Some base) b) (Btf (Some base') b)"
    using assms by (intro same_content_base) (simp_all add: lookup_ok_def)
  have wf: "strs_wf base" using assms(1) by simp
  have "cstr (drop k (all_strs base @ y)) = cstr (drop k (all_strs base))" if "k < length (all_strs base)" for k y
  proof -
    have "0 \<in> set (drop k (all_strs base))" using wf that by (rule all_strs_drop)
    then show ?thesis using that by (simp add: cstr_append)
  qed
  then show "lookup_ok (Btf (Some base) b) x r (Btf (Some base') b)" if "r \<noteq> Inl ENOENT"
    using assms(2) s that unfolding lookup_ok_def by auto
qed

lemma find_str_ok:
  "strs_wf btf \<Longrightarrow> 0 \<in> set s \<Longrightarrow> length s < 2 ^ 63 \<Longrightarrow> length (all_strs btf) \<le> 2 ^ 31 \<Longrightarrow>
   btf__find_str env btf s = (r, btf') \<Longrightarrow> lookup_ok btf (cstr s) r btf'"
proof (induction env btf s arbitrary: r btf' rule: btf__find_str.induct)
  case (1 env base b s)
  obtain r0 base'' where rb: "(case base of None \<Rightarrow> (Inl ENOENT, None)
    | Some base' \<Rightarrow> (case btf__find_str (\<lambda>n. env (Suc n)) base' s of (r, base'') \<Rightarrow> (r, Some base''))) = (r0, base'')"
    by (cases "case base of None \<Rightarrow> (Inl ENOENT, None)
      | Some base' \<Rightarrow> (case btf__find_str (\<lambda>n. env (Suc n)) base' s of (r, base'') \<Rightarrow> (r, Some base''))")
  have step: "(if r0 \<noteq> Inl ENOENT then (r0, Btf base'' b) else case btf_ensure_modifiable (env 0) (Btf base'' b) of
      Inl e \<Rightarrow> (Inl e, Btf base'' b) | Inr btf \<Rightarrow> strs_find (env 0) btf s) = (r, btf')"
    using "1.prems"(5) by (simp add: rb)
  have sc: "same_content (Btf base b) (Btf base'' b)" and lk: "r0 \<noteq> Inl ENOENT \<Longrightarrow> lookup_ok (Btf base b) (cstr s) r0 (Btf base'' b)"
    and nb: "\<And>u. r0 = Inl ENOENT \<Longrightarrow> base'' = Some u \<Longrightarrow> cstr s \<notin> set (known_strs u)"
  proof -
    have wf: "strs_wf (Btf base b)" by (rule "1.prems")
    show "same_content (Btf base b) (Btf base'' b)" "r0 \<noteq> Inl ENOENT \<Longrightarrow> lookup_ok (Btf base b) (cstr s) r0 (Btf base'' b)"
      "\<And>u. r0 = Inl ENOENT \<Longrightarrow> base'' = Some u \<Longrightarrow> cstr s \<notin> set (known_strs u)"
    proof (atomize (full), cases base)
      case None
      then show "same_content (Btf base b) (Btf base'' b) \<and> (r0 \<noteq> Inl ENOENT \<longrightarrow> lookup_ok (Btf base b) (cstr s) r0 (Btf base'' b)) \<and>
        (\<forall>u. r0 = Inl ENOENT \<longrightarrow> base'' = Some u \<longrightarrow> cstr s \<notin> set (known_strs u))"
        using rb same_content_refl [OF wf] by auto
    next
      case (Some base')
      obtain u where u: "btf__find_str (\<lambda>n. env (Suc n)) base' s = (r0, u)" "base'' = Some u"
        using rb Some by (auto split: prod.splits)
      have "lookup_ok base' (cstr s) r0 u" using "1.IH" [OF Some _ _ _ _ u(1)] wf "1.prems" Some by simp
      then show "same_content (Btf base b) (Btf base'' b) \<and> (r0 \<noteq> Inl ENOENT \<longrightarrow> lookup_ok (Btf base b) (cstr s) r0 (Btf base'' b)) \<and>
        (\<forall>u. r0 = Inl ENOENT \<longrightarrow> base'' = Some u \<longrightarrow> cstr s \<notin> set (known_strs u))"
        using lookup_base_ok [OF wf [unfolded Some], of "cstr s" r0 u] u(2) Some
        by (auto simp: lookup_ok_def same_content_def)
    qed
  qed
  show ?case
  proof (cases "r0 = Inl ENOENT")
    case False
    then show ?thesis using step lk by auto
  next
    case True
    have wf: "strs_wf (Btf base'' b)" using sc by (simp add: same_content_def)
    show ?thesis
    proof (cases "btf_ensure_modifiable (env 0) (Btf base'' b)")
      case (Inl e)
      then show ?thesis using step True sc ensure_modifiable_err [OF Inl wf] by (auto simp: lookup_ok_def)
    next
      case (Inr btf1)
      have "lookup_ok (Btf base'' b) (cstr s) r btf'"
        using find_own_ok [OF wf Inr _ "1.prems"(2,3)] step True Inr nb "1.prems"(4) sc by (auto simp: same_content_def)
      then show ?thesis using lookup_trans [OF sc] by simp
    qed
  qed
qed

text \<open>
  What adding a string promises: the table of strings is extended if the string is not there yet. The string may have been
  added by a call that fails if its offset is no \<open>int\<close>.
\<close>

definition add_ok :: "btf \<Rightarrow> bytes \<Rightarrow> u32 result \<Rightarrow> btf \<Rightarrow> bool" where
  "add_ok btf x r btf' \<longleftrightarrow>
     same_types btf btf' \<and> strs_wf btf' \<and>
     (case r of
        Inl e \<Rightarrow> all_strs btf' = all_strs btf \<or> 2 ^ 31 \<le> length (all_strs btf') \<and> all_strs btf' = all_strs btf @ x @ [0]
      | Inr off \<Rightarrow> unat off < 2 ^ 31 \<and>
          all_strs btf' = all_strs btf @ (if x \<in> set (known_strs btf) then [] else x @ [0]) \<and>
          unat off < length (all_strs btf') \<and> cstr (drop (unat off) (all_strs btf')) = x)"

lemma same_content_add_ok: "same_content btf btf' \<Longrightarrow> add_ok btf x (Inl e) btf'"
  by (simp add: add_ok_def same_content_def)

lemma lookup_add_ok: "lookup_ok btf x r btf' \<Longrightarrow> (\<And>off. r = Inr off \<Longrightarrow> unat off < 2 ^ 31) \<Longrightarrow> add_ok btf x r btf'"
  by (cases r) (auto simp: add_ok_def lookup_ok_def same_content_def)

lemma strs_add_ok:
  assumes "strs_wf btf" "b_strs_set (own btf) \<noteq> None" "0 \<in> set s" "length s < 2 ^ 63" "strs_add e btf s = (r, btf')"
    and "\<And>u. base_btf btf = Some u \<Longrightarrow> cstr s \<notin> set (known_strs u)"
  shows "add_ok btf (cstr s) r btf'"
proof -
  obtain base b where btf: "btf = Btf base b" by (cases btf)
  have wf: "part_strs_wf b" using assms(1) by (simp add: btf)
  obtain ss where ss: "b_strs_set b = Some ss" using assms(2) by (auto simp: btf)
  note m = part_strs_modifiable [OF wf ss]
  let ?x = "cstr s"
  obtain r0 ss' where f: "strset__add_str (ev_str e) (ev_str_calloc e) (ev_str_malloc e) ss (Outside s) = Some (r0, ss')" "strset_inv ss'"
    and r0: "case r0 of Inl er \<Rightarrow> strset_used ss' = strset_used ss
      | Inr off \<Rightarrow> unat off < unat (strs_data_len ss') \<and> cstr (drop (unat off) (strs_data ss')) = ?x \<and>
          strset_used ss' = strset_used ss @ (if ?x \<in> set (split_strs (strset_used ss)) then [] else ?x @ [0])"
    using add_str_refines [OF m(1) outside_arg_ok [OF assms(3,4)], of "ev_str e" "ev_str_calloc e" "ev_str_malloc e"]
    by (elim exE conjE) (auto split: sum.splits if_splits)
  have buf: "strset_buf ss" "strset_buf ss'" using m(1) f(2) by (simp_all add: strset_inv_def)
  have lu: "length (strset_used ss') = unat (strs_data_len ss')" "length (strset_used ss) = unat (strs_data_len ss)"
    using buf by (auto simp: strset_used_def strset_buf_def)
  define b' where "b' = (case r0 of Inl er \<Rightarrow> b\<lparr>b_strs_set := Some ss'\<rparr>
    | Inr off \<Rightarrow> b\<lparr>b_strs_set := Some ss', b_hdr := (b_hdr b)\<lparr>h_str_len := ucast (strset__data_size ss')\<rparr>\<rparr>)"
  have res: "r = res_bind r0 (\<lambda>off. int_result (b_start_str_off b + off))" "btf' = Btf base b'"
    using assms(5) f(1) ss by (auto simp: strs_add_def btf set_strs_set_def b'_def split: sum.splits)
  have sl: "unat (h_str_len (b_hdr b')) = unat (strs_data_len ss')"
  proof (cases r0)
    case (Inl er)
    then show ?thesis using r0 lu m(3) by (simp add: b'_def)
  next
    case (Inr off)
    have "unat (strs_data_len ss') < 2 ^ 32" using buf(2) by (auto simp: strset_buf_def)
    then have "unat (ucast (strs_data_len ss') :: u32) = unat (strs_data_len ss')"
      by (simp add: unsigned_ucast_eq take_bit_eq_mod)
    then show ?thesis using Inr by (simp add: b'_def strset__data_size_def)
  qed
  have ps: "part_strs b' = strset_used ss'" "part_strs_wf b'"
    using sl f(2) m(4) by (auto simp: part_strs_def part_strs_wf_def btf_strs_data_def strset__data_def strset_used_def b'_def split: sum.split)
  have same: "same_types btf btf'"
    unfolding btf res(2) by (cases r0) (simp_all add: b'_def hdr_types_def)
  have st: "b_start_str_off b' = b_start_str_off b" by (cases r0) (simp_all add: b'_def)
  have wf': "strs_wf (Btf base b')" using assms(1) ps(2) st by (simp add: btf split: option.splits)
  have known: "?x \<in> set (known_strs btf) \<longleftrightarrow> ?x \<in> set (split_strs (strset_used ss))"
    using assms(6) m(2) by (auto simp: btf split: option.splits)
  show ?thesis
  proof (cases r0)
    case (Inl er)
    then show ?thesis using same wf' r0 ps(1) m(2) by (simp add: add_ok_def res btf)
  next
    case (Inr off)
    have u: "strset_used ss' = strset_used ss @ (if ?x \<in> set (known_strs btf) then [] else ?x @ [0])"
      and o: "unat off < unat (strs_data_len ss')" "cstr (drop (unat off) (strs_data ss')) = ?x"
      using r0 known Inr by simp_all
    have "cstr (drop (unat off) (part_strs b')) = ?x"
      using strset_buf_str(1) [OF buf(2) o(1)] o(2) ps(1) by simp
    then have "unat (b_start_str_off b + off) < length (all_strs btf')" "cstr (drop (unat (b_start_str_off b + off)) (all_strs btf')) = ?x"
      using table_offset [OF wf', of off] o(1) sl st unfolding res(2) by simp_all
    moreover have "all_strs btf' = all_strs btf @ (if ?x \<in> set (known_strs btf) then [] else ?x @ [0])"
      using u ps(1) m(2) by (simp add: res(2) btf)
    ultimately show ?thesis
      using same wf' Inr by (auto simp: add_ok_def res(1) int_result_eq btf [symmetric] res(2) [symmetric])
  qed
qed

lemma add_ok_trans:
  assumes "same_content x y" "add_ok y s r z"
  shows "add_ok x s r z"
proof -
  have e: "all_strs y = all_strs x" "known_strs y = known_strs x" and st: "same_types x y"
    using assms(1) by (simp_all add: same_content_def)
  have "same_types x z" using same_types_trans [OF st] assms(2) by (simp add: add_ok_def)
  then show ?thesis using assms(2) unfolding add_ok_def e by blast
qed

lemma add_str_ok:
  assumes "strs_wf btf" "0 \<in> set s" "length s < 2 ^ 63" "btf__add_str env btf s = (r, btf')"
  shows "add_ok btf (cstr s) r btf'"
proof -
  obtain base b where btf: "btf = Btf base b" by (cases btf)
  note wf = assms(1) [unfolded btf]
  obtain r0 base' where rb: "(case base of None \<Rightarrow> (Inl ENOENT, None)
    | Some u \<Rightarrow> (case btf__find_str (\<lambda>n. env (Suc n)) u s of (r, v) \<Rightarrow> (r, Some v))) = (r0, base')"
    by (cases "case base of None \<Rightarrow> (Inl ENOENT, None)
      | Some u \<Rightarrow> (case btf__find_str (\<lambda>n. env (Suc n)) u s of (r, v) \<Rightarrow> (r, Some v))")
  have step: "(if r0 \<noteq> Inl ENOENT then (r0, Btf base' b) else case btf_ensure_modifiable (env 0) (Btf base' b) of
      Inl e \<Rightarrow> (Inl e, Btf base' b) | Inr btf \<Rightarrow> strs_add (env 0) btf s) = (r, btf')"
    using assms(4) by (simp add: btf btf__add_str_def rb Let_def)
  have lk: "same_content btf (Btf base' b) \<and> (r0 \<noteq> Inl ENOENT \<longrightarrow> lookup_ok btf (cstr s) r0 (Btf base' b)) \<and>
    (\<forall>off. r0 = Inr off \<longrightarrow> unat off < 2 ^ 31) \<and>
    (\<forall>u. r0 = Inl ENOENT \<longrightarrow> base' = Some u \<longrightarrow> cstr s \<notin> set (known_strs u))"
  proof (cases base)
    case None
    then show ?thesis using rb same_content_refl [OF wf] by (auto simp: btf)
  next
    case (Some u)
    obtain v where v: "btf__find_str (\<lambda>n. env (Suc n)) u s = (r0, v)" "base' = Some v"
      using rb Some by (auto split: prod.splits)
    have "lookup_ok u (cstr s) r0 v" using find_str_ok [OF _ assms(2,3) _ v(1)] wf Some by simp
    moreover have "length (all_strs u) \<le> 2 ^ 31" using wf Some by simp
    ultimately show ?thesis
      using lookup_base_ok [OF wf [unfolded Some], of "cstr s" r0 v] v(2)
      by (auto simp: btf Some lookup_ok_def same_content_def)
  qed
  show ?thesis
  proof (cases "r0 = Inl ENOENT")
    case False
    then show ?thesis using step lk lookup_add_ok by auto
  next
    case True
    have wf': "strs_wf (Btf base' b)" using lk by (simp add: same_content_def)
    show ?thesis
    proof (cases "btf_ensure_modifiable (env 0) (Btf base' b)")
      case (Inl e)
      then show ?thesis using step True lk same_content_add_ok by auto
    next
      case (Inr btf1)
      note m = ensure_modifiable_ok [OF wf' Inr]
      have "strs_wf btf1" using m(1) by (simp add: same_content_def)
      then have "add_ok btf1 (cstr s) r btf'"
        using strs_add_ok [OF _ m(3) assms(2,3)] step True Inr lk m(4) by auto
      then show ?thesis using add_ok_trans lk m(1) same_content_trans by blast
    qed
  qed
qed

text \<open>
  C15. Adding a string to an object, split or not: on success the offset is an \<open>int\<close> and denotes the string, and
  the table of all strings has grown by the string if and only if it was in none of the parts. A failure changes no
  string, except that the string may have been added where the table reaches 2 GiB, since its offset is then negative as
  an \<open>int\<close>. Every offset that was valid still denotes the same string, and the types are not touched.
\<close>

theorem btf__add_str_correct:
  assumes "strs_wf btf" and "0 \<in> set s" and "length s < 2 ^ 63" and "btf__add_str env btf s = (r, btf')"
  shows "strs_wf btf' \<and> same_types btf btf' \<and>
    (\<forall>off str. btf__str_by_offset btf off = Some str \<longrightarrow>
       map_option cstr (btf__str_by_offset btf' off) = Some (cstr str)) \<and>
    (case r of
       Inl e \<Rightarrow> all_strs btf' = all_strs btf \<or>
         2 ^ 31 \<le> length (all_strs btf') \<and> all_strs btf' = all_strs btf @ cstr s @ [0]
     | Inr off \<Rightarrow> 0 \<le> sint off \<and> map_option cstr (btf__str_by_offset btf' off) = Some (cstr s) \<and>
         all_strs btf' = all_strs btf @ (if cstr s \<in> set (known_strs btf) then [] else cstr s @ [0]))"
proof -
  have ok: "add_ok btf (cstr s) r btf'" by (rule add_str_ok [OF assms])
  then have wf': "strs_wf btf'" "same_types btf btf'" by (simp_all add: add_ok_def)
  have grow: "\<exists>x. all_strs btf' = all_strs btf @ x" using ok by (cases r) (auto simp: add_ok_def)
  have "map_option cstr (btf__str_by_offset btf' off) = Some (cstr str)" if "btf__str_by_offset btf off = Some str" for off str
  proof -
    have "unat off < length (all_strs btf)" "cstr str = cstr (drop (unat off) (all_strs btf))"
      using str_by_offset_table [OF assms(1), of off] that by (auto split: if_splits)
    moreover then have "0 \<in> set (drop (unat off) (all_strs btf))" using all_strs_drop [OF assms(1)] by simp
    ultimately show ?thesis using grow unfolding str_by_offset_table [OF wf'(1)] by (auto simp: cstr_append)
  qed
  then show ?thesis
    using ok wf' by (cases r) (auto simp: add_ok_def str_by_offset_table [OF wf'(1)] sint_nonneg_iff)
qed

text \<open>Outcomes of allocations that all succeed, and an empty object.\<close>

definition all_ok :: btf_envs where
  "all_ok = (\<lambda>_. \<lparr>ev_types = True, ev_layout = True, ev_set_calloc = True, ev_set_malloc = True, ev_set_data = True,
     ev_set_index = (\<lambda>_. (True, True)), ev_str = realloc_env_ok, ev_str_calloc = True, ev_str_malloc = True,
     ev_type_mem = True, ev_idx = True\<rparr>)"

definition empty_btf :: btf where
  "empty_btf = projr (btf__new_empty True True)"

lemma empty_btf_eq: "Btf None (own empty_btf) = empty_btf"
  by (simp add: empty_btf_def btf__new_empty_def btf_new_empty_def Let_def)

lemma empty_btf_own:
  "b_strs (own empty_btf) = [0]" "h_str_len (b_hdr (own empty_btf)) = 1"
  "\<not> b_modifiable (own empty_btf)" "b_strs_set (own empty_btf) = None" "b_start_str_off (own empty_btf) = 0"
  "b_types (own empty_btf) = []" "b_type_offs (own empty_btf) = []" "b_nr_types (own empty_btf) = 0" "h_type_len (b_hdr (own empty_btf)) = 0"
  "b_layout (own empty_btf) = None" "b_start_id (own empty_btf) = 1" "h_type_off (b_hdr (own empty_btf)) = 0" "h_hdr_len (b_hdr (own empty_btf)) = 32"
  "\<not> b_has_hdr_extra (own empty_btf)" "h_layout_len (b_hdr (own empty_btf)) = 0"
  by (simp_all add: empty_btf_def btf__new_empty_def btf_new_empty_def btf_new_obj_def btf_hdr_zero_def btf_start_str_off_def btf_start_id_def Let_def)

lemma empty_btf_strs: "strs_wf empty_btf" "all_strs empty_btf = [0]"
proof -
  have "strs_wf (Btf None (own empty_btf))" "all_strs (Btf None (own empty_btf)) = [0]"
    by (simp_all add: part_strs_wf_def part_strs_def btf_strs_data_def empty_btf_own)
  then show "strs_wf empty_btf" "all_strs empty_btf = [0]" unfolding empty_btf_eq .
qed

lemma empty_btf_modifiable:
  obtains ss where "btf_ensure_modifiable (all_ok 0) empty_btf =
    Inr (Btf None (btf_invalidate_raw_data ((own empty_btf)\<lparr>b_strs := [], b_strs_set := Some ss, b_strs_deduped := True, b_modifiable := True\<rparr>)))"
    "cap_bits (strs_hash ss) \<noteq> 60" "strs_data_len ss = 1" "strs_data_max_len ss = 0x7fffffff"
proof -
  obtain ss where n: "strset__new True True True (\<lambda>_. (True, True)) (ucast BTF_MAX_STR_OFFSET) (Some [0]) = Inr ss"
    "cap_bits (strs_hash ss) \<noteq> 60" "strs_data_len ss = 1" "strs_data_max_len ss = 0x7fffffff"
    by (simp add: strset__new_def hashmap__new_def strset_index_loop.simps hm_eval strlen_def BTF_MAX_STR_OFFSET_def)
  have "base_btf empty_btf = None" by (metis empty_btf_eq btf.sel(1))
  then show ?thesis
    using n by (intro that [of ss]) (simp_all add: btf_ensure_modifiable_def empty_btf_own all_ok_def Let_def)
qed

lemma empty_btf_add_str: "fst (btf__add_str all_ok empty_btf [98, 112, 102, 0]) \<in> range Inr"
proof -
  obtain ss where ss: "btf_ensure_modifiable (all_ok 0) empty_btf =
    Inr (Btf None (btf_invalidate_raw_data ((own empty_btf)\<lparr>b_strs := [], b_strs_set := Some ss, b_strs_deduped := True, b_modifiable := True\<rparr>)))"
    "cap_bits (strs_hash ss) \<noteq> 60" "strs_data_len ss = 1" "strs_data_max_len ss = 0x7fffffff"
    by (rule empty_btf_modifiable)
  have "strs_wf (Btf None (btf_invalidate_raw_data ((own empty_btf)\<lparr>b_strs := [], b_strs_set := Some ss, b_strs_deduped := True, b_modifiable := True\<rparr>)))"
    using ensure_modifiable_ok(1) [OF empty_btf_strs(1) ss(1)] by (simp add: same_content_def)
  then have inv: "strset_inv ss" by (simp add: btf_invalidate_raw_data_def part_strs_wf_def)
  have c: "arg_str ss (Outside [98, 112, 102, 0]) = [98, 112, 102]" by (simp add: cstr_def)
  have arg: "str_arg_ok ss (Outside [98, 112, 102, 0])" by (simp add: outside_arg_ok)
  obtain r ss' where r: "strset__add_str realloc_env_ok True True ss (Outside [98, 112, 102, 0]) = Some (r, ss')"
    "case r of Inl e \<Rightarrow> False | Inr off \<Rightarrow> 0 \<le> sint off"
    using add_str_refines [OF inv arg, of realloc_env_ok True True] ss(2-4)
    by (elim exE conjE) (auto simp: c split: sum.splits)
  then obtain off where a: "strset__add_str realloc_env_ok True True ss (Outside [98, 112, 102, 0]) = Some (Inr off, ss')" "0 \<le> sint off"
    by (cases r) simp_all
  have "base_btf empty_btf = None" by (metis empty_btf_eq btf.sel(1))
  then show ?thesis
    using ss(1) a by (simp add: btf__add_str_def empty_btf_eq strs_add_def all_ok_def int_result_def set_strs_set_def Let_def
        btf_invalidate_raw_data_def empty_btf_own)
qed

theorem btf__add_str_correct_witness:
  "\<exists>off btf'. btf__add_str all_ok empty_btf [98, 112, 102, 0] = (Inr off, btf') \<and> strs_wf btf' \<and>
     all_strs btf' = [0, 98, 112, 102, 0] \<and> map_option cstr (btf__str_by_offset btf' off) = Some [98, 112, 102]"
proof -
  obtain off btf' where a: "btf__add_str all_ok empty_btf [98, 112, 102, 0] = (Inr off, btf')"
    using empty_btf_add_str by (cases "btf__add_str all_ok empty_btf [98, 112, 102, 0]") auto
  have k: "known_strs (Btf None (own empty_btf)) = [[]]"
    by (simp add: part_strs_def btf_strs_data_def empty_btf_own split_strs.simps)
  show ?thesis
    using btf__add_str_correct [OF empty_btf_strs(1) _ _ a] a k unfolding empty_btf_eq
    by (simp add: empty_btf_strs(2) cstr_def)
qed

end
