(* ===== verification/BtfAppend.thy ===== *)
theory BtfAppend
  imports BtfBuild
begin

text \<open>
  Appending types and members: the types of an object are a list of word lists, and the
  functions that build BTF append a type to this list or extend its last type.
\<close>

section \<open>The types as a list\<close>

abbreviation size_at :: "btf \<Rightarrow> nat \<Rightarrow> int" where
  "size_at btf n \<equiv> btf_type_size btf (type_at btf n)"

text \<open>Consecutive tiles of the given sizes from \<open>n\<close> to \<open>m\<close>.\<close>

fun tiles_to :: "(nat \<Rightarrow> int) \<Rightarrow> nat \<Rightarrow> u32 list \<Rightarrow> nat \<Rightarrow> bool" where
  "tiles_to f n [] m \<longleftrightarrow> n = m"
| "tiles_to f n (off # offs) m \<longleftrightarrow> unat off = n \<and> 12 \<le> f n \<and> tiles_to f (n + nat (f n)) offs m"

lemma tiles_to_le: "tiles_to f n offs m \<Longrightarrow> n \<le> m"
  by (induction offs arbitrary: n) (auto intro: add_leD1)

lemma tiles_to_iff: "type_tiles btf n offs \<longleftrightarrow> tiles_to (size_at btf) n offs (unat (h_type_len (b_hdr (own btf))))"
  by (induction offs arbitrary: n) (auto dest: tiles_to_le)

lemma tiles_to_append: "tiles_to f n (xs @ ys) m \<longleftrightarrow> (\<exists>k. tiles_to f n xs k \<and> tiles_to f k ys m)"
  by (induction xs arbitrary: n) auto

lemma tiles_to_snoc: "tiles_to f n (xs @ [x]) m \<longleftrightarrow> tiles_to f n xs (unat x) \<and> 12 \<le> f (unat x) \<and> m = unat x + nat (f (unat x))"
  by (auto simp: tiles_to_append)

lemma tiles_to_cong: "(\<And>off. off \<in> set offs \<Longrightarrow> f (unat off) = g (unat off)) \<Longrightarrow> tiles_to f n offs m = tiles_to g n offs m"
  by (induction offs arbitrary: n) auto

lemma tiles_to_bound: "tiles_to f n offs m \<Longrightarrow> off \<in> set offs \<Longrightarrow> n \<le> unat off \<and> unat off + 12 \<le> m \<and> unat off + nat (f (unat off)) \<le> m"
proof (induction offs arbitrary: n)
  case (Cons o' os)
  have "o' = off \<or> off \<in> set os" using Cons.prems(2) by auto
  then show ?case using Cons.IH [of "n + nat (f n)"] Cons.prems(1) tiles_to_le [of f "n + nat (f n)" os m] by auto
qed simp

lemma tiles_to_size: "tiles_to f n offs m \<Longrightarrow> off \<in> set offs \<Longrightarrow> 12 \<le> f (unat off)"
  by (induction offs arbitrary: n) auto

lemma tiles_to_distinct: "tiles_to f n offs m \<Longrightarrow> distinct offs"
proof (induction offs arbitrary: n)
  case (Cons o' os)
  have "o' \<notin> set os" using Cons.prems tiles_to_bound [of f "n + nat (f n)" os m o'] by auto
  then show ?case using Cons by auto
qed simp

definition type_words :: "btf \<Rightarrow> nat \<Rightarrow> u32 list" where
  "type_words btf n = take (nat (size_at btf n) div 4) (drop (n div 4) (b_types (own btf)))"

definition type_list :: "btf \<Rightarrow> u32 list list" where
  "type_list btf = map (\<lambda>off. type_words btf (unat off)) (b_type_offs (own btf))"

definition types_wf :: "btf \<Rightarrow> bool" where
  "types_wf btf \<longleftrightarrow>
     (let b = own btf in
      unat (b_nr_types b) = length (b_type_offs b) \<and> length (b_type_offs b) < 2 ^ 31 \<and>
      unat (h_type_len (b_hdr b)) = 4 * length (b_types b) \<and>
      tiles_to (size_at btf) 0 (b_type_offs b) (unat (h_type_len (b_hdr b))))"

lemma types_wfD:
  assumes "types_wf btf"
  shows "unat (b_nr_types (own btf)) = length (b_type_offs (own btf))" "length (b_type_offs (own btf)) < 2 ^ 31"
    "unat (h_type_len (b_hdr (own btf))) = 4 * length (b_types (own btf))"
    "tiles_to (size_at btf) 0 (b_type_offs (own btf)) (unat (h_type_len (b_hdr (own btf))))"
  using assms unfolding types_wf_def Let_def by blast+

lemma size_at_dvd4: "12 \<le> size_at btf n \<Longrightarrow> 4 dvd nat (size_at btf n)"
proof -
  assume "12 \<le> size_at btf n"
  then have "4 dvd size_at btf n" by (intro type_size_dvd4) simp
  then have "int 4 dvd int (nat (size_at btf n))" using \<open>12 \<le> size_at btf n\<close> by simp
  then show ?thesis by (simp only: of_nat_dvd_iff)
qed

lemma tiles_aligned:
  "tiles_to (size_at btf) n offs m \<Longrightarrow> 4 dvd n \<Longrightarrow> off \<in> set offs \<Longrightarrow> 4 dvd unat off"
proof (induction offs arbitrary: n)
  case (Cons o' os)
  have "4 dvd n + nat (size_at btf n)" using Cons.prems size_at_dvd4 by simp
  then show ?case using Cons.IH [of "n + nat (size_at btf n)"] Cons.prems by auto
qed simp

text \<open>The list of types is a partition of the words.\<close>

lemma type_list_concat:
  assumes "types_wf btf"
  shows "concat (type_list btf) = b_types (own btf)"
proof -
  let ?ts = "b_types (own btf)"
  have "concat (map (\<lambda>off. type_words btf (unat off)) offs) = drop (n div 4) ?ts"
    if "tiles_to (size_at btf) n offs (4 * length ?ts)" "4 dvd n" for n offs
    using that
  proof (induction offs arbitrary: n)
    case Nil
    then show ?case by simp
  next
    case (Cons o' os)
    define k where "k = nat (size_at btf n)"
    have k: "4 dvd k" using Cons.prems(1) size_at_dvd4 by (simp add: k_def)
    have IH: "concat (map (\<lambda>off. type_words btf (unat off)) os) = drop ((n + k) div 4) ?ts"
      using Cons.IH [of "n + k"] Cons.prems k by (simp add: k_def)
    have "(n + k) div 4 = n div 4 + k div 4" using Cons.prems(2) by (simp add: div_plus_div_distrib_dvd_left)
    then have "concat (map (\<lambda>off. type_words btf (unat off)) os) = drop (k div 4) (drop (n div 4) ?ts)"
      using IH by (simp add: add.commute)
    moreover have "type_words btf (unat o') = take (k div 4) (drop (n div 4) ?ts)"
      using Cons.prems(1) by (simp add: type_words_def k_def)
    ultimately show ?case by (simp del: drop_drop)
  qed
  from this [OF types_wfD(4) [OF assms, unfolded types_wfD(3) [OF assms]]] show ?thesis
    by (simp add: type_list_def)
qed

text \<open>The size of a type depends on its \<open>info\<close> word and on the layouts only.\<close>

lemma type_size_layouts:
  assumes "base_btf a = base_btf b" "b_layout (own a) = b_layout (own b)"
    and "h_layout_len (b_hdr (own a)) = h_layout_len (b_hdr (own b))" "t_info s = t_info t"
  shows "btf_type_size a s = btf_type_size b t"
proof -
  have kv: "btf_kind s = btf_kind t" "btf_vlen s = btf_vlen t" using assms(4) by (simp_all add: btf_kind_def btf_vlen_def)
  then have l: "btf_layout_size l n s = btf_layout_size l n t" for l n by (simp only: btf_layout_size_def)
  have "btf_type_size_unknown a s = btf_type_size_unknown b t"
    by (simp only: btf_type_size_unknown_def Let_def assms(1-3) l)
  then show ?thesis by (simp only: btf_type_size_def kv)
qed

text \<open>Two objects with the same base and layouts.\<close>

definition same_layouts :: "btf \<Rightarrow> btf \<Rightarrow> bool" where
  "same_layouts a b \<longleftrightarrow> base_btf b = base_btf a \<and> b_layout (own b) = b_layout (own a) \<and>
     h_layout_len (b_hdr (own b)) = h_layout_len (b_hdr (own a))"

lemma same_layouts_size: "same_layouts a b \<Longrightarrow> t_info s = t_info t \<Longrightarrow> btf_type_size b s = btf_type_size a t"
  by (rule type_size_layouts) (simp_all add: same_layouts_def)

text \<open>A type appended to the words.\<close>

lemma append_type_list:
  assumes wf: "types_wf a" and l: "same_layouts a b" and ws: "btf_type_size a (type_of_words ws) = 4 * int (length ws)" "3 \<le> length ws"
    and b: "b_types (own b) = b_types (own a) @ ws" "b_type_offs (own b) = b_type_offs (own a) @ [h_type_len (b_hdr (own a))]"
      "unat (h_type_len (b_hdr (own b))) = unat (h_type_len (b_hdr (own a))) + 4 * length ws"
      "unat (b_nr_types (own b)) = unat (b_nr_types (own a)) + 1" "unat (b_nr_types (own a)) + 1 < 2 ^ 31"
  shows "types_wf b" "type_list b = type_list a @ [ws]"
proof -
  let ?T = "unat (h_type_len (b_hdr (own a)))"
  have tl: "?T = 4 * length (b_types (own a))" "tiles_to (size_at a) 0 (b_type_offs (own a)) ?T"
    "unat (b_nr_types (own a)) = length (b_type_offs (own a))"
    using types_wfD [OF wf] by blast+
  have old: "size_at b (unat off) = size_at a (unat off)" "type_words b (unat off) = type_words a (unat off)"
    if off: "off \<in> set (b_type_offs (own a))" for off
  proof -
    have bd: "unat off + 12 \<le> ?T" "unat off + nat (size_at a (unat off)) \<le> ?T"
      using tiles_to_bound [OF tl(2) off] by simp_all
    have i: "unat off div 4 + 3 \<le> length (b_types (own a))" by (rule words_fit [OF bd(1)]) (simp add: tl(1))
    then have "t_info (type_at b (unat off)) = t_info (type_at a (unat off))" by (auto simp: b(1) nth_append)
    then show s: "size_at b (unat off) = size_at a (unat off)" by (rule same_layouts_size [OF l])
    have "4 dvd unat off" by (rule tiles_aligned [OF tl(2) _ off]) simp
    then have "nat (size_at a (unat off)) div 4 \<le> length (b_types (own a)) - unat off div 4"
      using bd(2) tl(1) by (auto elim!: dvdE)
    then show "type_words b (unat off) = type_words a (unat off)"
      using s i by (simp add: type_words_def b(1))
  qed
  have d: "drop (?T div 4) (b_types (own b)) = ws" by (simp add: b(1) tl(1))
  then have "t_info (type_at b ?T) = t_info (type_of_words ws)" by simp
  then have "size_at b ?T = btf_type_size a (type_of_words ws)" by (rule same_layouts_size [OF l])
  then have s: "size_at b ?T = 4 * int (length ws)" using ws(1) by simp
  have "tiles_to (size_at b) 0 (b_type_offs (own a)) ?T"
    using tl(2) old(1) tiles_to_cong [of "b_type_offs (own a)" "size_at b" "size_at a"] by simp
  then have "tiles_to (size_at b) 0 (b_type_offs (own b)) (unat (h_type_len (b_hdr (own b))))"
    using s ws(2) by (simp add: b(2,3) tiles_to_snoc nat_mult_distrib)
  then show "types_wf b" using b tl by (simp add: types_wf_def Let_def)
  have "type_words b ?T = ws" using d s by (simp add: type_words_def nat_mult_distrib)
  then show "type_list b = type_list a @ [ws]" using old(2) by (simp add: type_list_def b(2))
qed

lemma room_left: "m \<le> n - k \<Longrightarrow> k + 3 \<le> n \<Longrightarrow> n + 3 \<le> l \<Longrightarrow> m \<le> Suc n - k \<and> m \<le> l - k" for m n k l :: nat
  by linarith

text \<open>The last type extended by an element.\<close>

lemma append_member_list:
  assumes wf: "types_wf a" and l: "same_layouts a b" and ne: "b_type_offs (own a) = offs @ [off]"
    and b: "b_types (own b) = (b_types (own a))[unat off div 4 + 1 := info] @ ws" "b_type_offs (own b) = b_type_offs (own a)"
      "unat (h_type_len (b_hdr (own b))) = unat (h_type_len (b_hdr (own a))) + 4 * length ws"
      "b_nr_types (own b) = b_nr_types (own a)"
    and sz: "btf_type_size a ((type_at a (unat off))\<lparr>t_info := info\<rparr>) = size_at a (unat off) + 4 * int (length ws)"
  shows "types_wf b" "type_list b = butlast (type_list a) @ [(last (type_list a))[1 := info] @ ws]"
proof -
  let ?T = "unat (h_type_len (b_hdr (own a)))" and ?n = "unat off"
  note tl = types_wfD [OF wf]
  have sn: "tiles_to (size_at a) 0 offs ?n" "12 \<le> size_at a ?n" "?T = ?n + nat (size_at a ?n)"
    using tl(4) unfolding ne tiles_to_snoc by simp_all
  have n4: "4 dvd ?n" using tiles_aligned [OF tl(4), of off] ne by simp
  have old: "size_at b (unat o') = size_at a (unat o')" "type_words b (unat o') = type_words a (unat o')"
    if o': "o' \<in> set offs" for o'
  proof -
    have bd: "unat o' + 12 \<le> ?n" "unat o' + nat (size_at a (unat o')) \<le> ?n"
      using tiles_to_bound [OF sn(1) o'] by simp_all
    have o4: "4 dvd unat o'" using tiles_aligned [OF sn(1) _ o'] by simp
    have i: "unat o' div 4 + 3 \<le> ?n div 4" by (rule words_fit [OF bd(1)]) simp
    have nT: "?n div 4 + 3 \<le> length (b_types (own a))"
      by (rule words_fit [of ?n ?T]) (use sn tl(3) in auto)
    have "t_info (type_at b (unat o')) = t_info (type_at a (unat o'))"
      using i nT by (auto simp: b(1) nth_append)
    then show s: "size_at b (unat o') = size_at a (unat o')" by (rule same_layouts_size [OF l])
    have "nat (size_at a (unat o')) div 4 \<le> ?n div 4 - unat o' div 4"
      using bd(2) o4 n4 by (auto elim!: dvdE)
    then have "nat (size_at a (unat o')) div 4 \<le> Suc (?n div 4) - unat o' div 4"
      "nat (size_at a (unat o')) div 4 \<le> length (b_types (own a)) - unat o' div 4" using room_left [OF _ i nT] by blast+
    then show "type_words b (unat o') = type_words a (unat o')"
      unfolding type_words_def s using i nT by (simp add: b(1) drop_update_swap)
  qed
  define k where "k = nat (size_at a ?n) div 4"
  have k: "nat (size_at a ?n) = 4 * k" using size_at_dvd4 [OF sn(2)] by (auto simp: k_def)
  have len: "length (b_types (own a)) = ?n div 4 + k" "3 \<le> k"
    using tl(3) sn(2,3) k n4 by (auto elim!: dvdE)
  have dr: "drop (?n div 4) (b_types (own b)) = (drop (?n div 4) (b_types (own a)))[1 := info] @ ws"
    using len by (simp add: b(1) drop_update_swap)
  have "t_info (type_at b ?n) = info" using dr len by (simp add: nth_append)
  then have "btf_type_size b (type_at b ?n) = btf_type_size a ((type_at a ?n)\<lparr>t_info := info\<rparr>)"
    by (intro same_layouts_size [OF l]) simp
  then have s: "size_at b ?n = 4 * int (k + length ws)" using sz k sn(2) by simp
  have "tiles_to (size_at b) 0 offs ?n"
    using sn(1) old(1) tiles_to_cong [of offs "size_at b" "size_at a"] by simp
  then have "tiles_to (size_at b) 0 (offs @ [off]) (unat (h_type_len (b_hdr (own b))))"
    unfolding tiles_to_snoc using s len(2) sn(3) k by (simp add: b(3) nat_mult_distrib)
  then show "types_wf b" using b tl ne by (simp add: types_wf_def Let_def)
  have "type_words b ?n = (type_words a ?n)[1 := info] @ ws"
    using dr s len k by (simp add: type_words_def nat_mult_distrib)
  then show "type_list b = butlast (type_list a) @ [(last (type_list a))[1 := info] @ ws]"
    using old(2) by (simp add: type_list_def b(2) ne)
qed

section \<open>The steps shared by the functions\<close>

text \<open>
  A well-formed object, and what every function keeps: offsets keep denoting the same strings,
  and the ids of the object start where they did.
\<close>

definition build_wf :: "btf \<Rightarrow> bool" where
  "build_wf btf \<longleftrightarrow> strs_wf btf \<and> types_wf btf \<and> b_start_id (own btf) \<noteq> 0 \<and> unat (b_start_id (own btf)) \<le> 2 ^ 31"

text \<open>The sections of an object without gaps between them.\<close>

definition packed :: "btf_part \<Rightarrow> bool" where
  "packed b \<longleftrightarrow>
     (let h = b_hdr b in
      h_magic h = BTF_MAGIC \<and> h_hdr_len h = 32 \<and> h_type_off h = 0 \<and>
      (case b_layout b of
         None \<Rightarrow> h_layout_len h = 0 \<and> h_str_off h = h_type_len h
       | Some l \<Rightarrow> l \<noteq> [] \<and> unat (h_layout_len h) = 4 * length l \<and> h_layout_off h = h_type_len h \<and>
           h_str_off h = h_type_len h + h_layout_len h))"

definition kept :: "btf \<Rightarrow> btf \<Rightarrow> bool" where
  "kept a b \<longleftrightarrow> b_start_id (own b) = b_start_id (own a) \<and> btf_start_id (base_btf b) = btf_start_id (base_btf a) \<and>
     (packed (own a) \<longrightarrow> packed (own b))"

lemma kept_refl [simp]: "kept a a"
  by (simp add: kept_def)

lemma hdr_types_magic: "hdr_types h = hdr_types h' \<Longrightarrow> h_magic h = h_magic h' \<and> h_layout_off h = h_layout_off h'"
  by (cases h; cases h'; simp add: hdr_types_def)

lemma same_types_kept:
  assumes "same_types a b"
  shows "kept a b"
proof -
  have "hdr_types (b_hdr (own b)) = hdr_types (b_hdr (own a))" using assms by (cases a; cases b) simp
  note h = hdr_types_magic [OF this, THEN conjunct1] hdr_types_magic [OF this, THEN conjunct2]
  have "btf_start_id (base_btf b) = btf_start_id (base_btf a)"
    using assms by (cases rule: same_types_base) (simp_all add: btf_start_id_def same_types_cnt)
  then show ?thesis unfolding kept_def packed_def Let_def same_types_own [OF assms] h by simp
qed

definition grown :: "btf \<Rightarrow> btf \<Rightarrow> bool" where
  "grown a b \<longleftrightarrow> (\<exists>x. all_strs b = all_strs a @ x) \<and> kept a b"

lemma grown_refl [simp]: "grown a a"
  by (simp add: grown_def)

lemma grown_trans: "grown a b \<Longrightarrow> grown b c \<Longrightarrow> grown a c"
  by (auto simp: grown_def kept_def)

lemma same_types_wf:
  assumes "same_types a b" "types_wf a"
  shows "types_wf b" "type_list b = type_list a"
proof -
  note o = same_types_own [OF assms(1)]
  have s: "size_at b n = size_at a n" for n using same_types_size [OF assms(1)] o(5) by simp
  have e: "(\<lambda>n. btf_type_size b (type_at a n)) = size_at a" using s unfolding o(5) by (rule ext)
  show "types_wf b" using assms(2) unfolding types_wf_def Let_def o e .
  show "type_list b = type_list a" unfolding type_list_def type_words_def o using s unfolding o(5) by simp
qed

lemma same_content_build:
  assumes "same_content a b" "build_wf a"
  shows "build_wf b" "grown a b" "type_list b = type_list a" "same_types a b"
proof -
  show st: "same_types a b" using assms(1) by (simp add: same_content_def)
  have w: "types_wf a" using assms(2) by (simp add: build_wf_def)
  show "build_wf b" using assms same_types_wf(1) [OF st w] same_types_own(8) [OF st] by (simp add: same_content_def build_wf_def)
  show "grown a b" using assms(1) same_types_kept [OF st] by (simp add: same_content_def grown_def)
  show "type_list b = type_list a" by (rule same_types_wf(2) [OF st w])
qed

text \<open>The name that an offset stands for; no name is the offset 0.\<close>

definition names :: "btf \<Rightarrow> u32 \<Rightarrow> bytes option \<Rightarrow> bool" where
  "names btf off name \<longleftrightarrow>
     (if str_is_empty name then off = 0 else map_option cstr (btf__str_by_offset btf off) = Some (cstr (the name)))"

definition name_arg :: "bytes option \<Rightarrow> bool" where
  "name_arg name \<longleftrightarrow> (\<forall>s. name = Some s \<longrightarrow> 0 \<in> set s \<and> length s < 2 ^ 63)"

lemma add_str_build:
  assumes "build_wf btf" "0 \<in> set s" "length s < 2 ^ 63" "btf__add_str env btf s = (r, btf')"
  shows "build_wf btf'" "grown btf btf'" "type_list btf' = type_list btf" "same_types btf btf'"
    and "r = Inr off \<Longrightarrow> map_option cstr (btf__str_by_offset btf' off) = Some (cstr s)"
proof -
  have ok: "add_ok btf (cstr s) r btf'"
    using assms by (intro add_str_ok [of btf s env]) (simp_all add: build_wf_def)
  then show st: "same_types btf btf'" by (simp add: add_ok_def)
  have wf: "strs_wf btf'" using ok by (simp add: add_ok_def)
  have g: "\<exists>x. all_strs btf' = all_strs btf @ x" using ok by (cases r) (auto simp: add_ok_def)
  show "map_option cstr (btf__str_by_offset btf' off) = Some (cstr s)" if "r = Inr off"
  proof -
    have "unat off < length (all_strs btf')" "cstr (drop (unat off) (all_strs btf')) = cstr s"
      using ok unfolding add_ok_def that sum.case by blast+
    then show ?thesis by (simp add: str_by_offset_table [OF wf])
  qed
  have tw: "types_wf btf" using assms(1) by (simp add: build_wf_def)
  show "type_list btf' = type_list btf" by (rule same_types_wf(2) [OF st tw])
  show "build_wf btf'" "grown btf btf'"
    using wf g same_types_own(8) [OF st] same_types_kept [OF st] assms(1) same_types_wf(1) [OF st tw] by (simp_all add: build_wf_def grown_def)
qed

lemma add_name_ok:
  assumes "build_wf btf" "name_arg name" "add_name env btf name = (r, btf')"
  shows "build_wf btf'" "grown btf btf'" "type_list btf' = type_list btf" "same_types btf btf'"
    and "r = Inr off \<Longrightarrow> names btf' off name"
proof -
  have "build_wf btf' \<and> grown btf btf' \<and> type_list btf' = type_list btf \<and> same_types btf btf' \<and> (\<forall>off. r = Inr off \<longrightarrow> names btf' off name)"
  proof (cases "str_is_empty name")
    case True
    then show ?thesis using assms by (auto simp: add_name_def names_def)
  next
    case False
    then obtain s where s: "name = Some s" by (cases name) (auto simp: str_is_empty_def)
    have a: "btf__add_str env btf s = (r, btf')" "0 \<in> set s" "length s < 2 ^ 63"
      using assms False s by (simp_all add: add_name_def name_arg_def)
    show ?thesis using add_str_build [OF assms(1) a(2,3,1)] False s by (simp add: names_def)
  qed
  then show "build_wf btf'" "grown btf btf'" "type_list btf' = type_list btf" "same_types btf btf'"
    "r = Inr off \<Longrightarrow> names btf' off name" by blast+
qed

lemma names_mono:
  assumes "strs_wf a" "strs_wf b" "all_strs b = all_strs a" "names a off name"
  shows "names b off name"
  using assms by (simp add: names_def str_by_offset_table split: if_splits)

text \<open>Changes of the types leave the strings alone.\<close>

lemma strs_wf_types:
  assumes "strs_wf (Btf base b)" "part_strs b' = part_strs b" "part_strs_wf b'" "b_start_str_off b' = b_start_str_off b"
  shows "strs_wf (Btf base b')" "all_strs (Btf base b') = all_strs (Btf base b)"
  using assms by (simp_all split: option.splits)

lemma part_strs_types:
  assumes "b_modifiable b' = b_modifiable b" "b_strs_set b' = b_strs_set b" "b_strs b' = b_strs b"
    "h_str_len (b_hdr b') = h_str_len (b_hdr b)"
  shows "part_strs b' = part_strs b" "part_strs_wf b' = part_strs_wf b"
  using assms by (simp_all add: part_strs_def part_strs_wf_def btf_strs_data_def split: option.split)

lemma update_type_len_simps:
  "b_types (btf_hdr_update_type_len b n) = b_types b" "b_type_offs (btf_hdr_update_type_len b n) = b_type_offs b"
  "b_nr_types (btf_hdr_update_type_len b n) = b_nr_types b" "b_layout (btf_hdr_update_type_len b n) = b_layout b"
  "b_start_id (btf_hdr_update_type_len b n) = b_start_id b" "b_start_str_off (btf_hdr_update_type_len b n) = b_start_str_off b"
  "b_modifiable (btf_hdr_update_type_len b n) = b_modifiable b" "b_strs_set (btf_hdr_update_type_len b n) = b_strs_set b"
  "b_strs (btf_hdr_update_type_len b n) = b_strs b"
  "h_type_len (b_hdr (btf_hdr_update_type_len b n)) = n" "h_str_len (b_hdr (btf_hdr_update_type_len b n)) = h_str_len (b_hdr b)"
  "h_layout_len (b_hdr (btf_hdr_update_type_len b n)) = h_layout_len (b_hdr b)"
  "h_magic (b_hdr (btf_hdr_update_type_len b n)) = h_magic (b_hdr b)"
  "h_hdr_len (b_hdr (btf_hdr_update_type_len b n)) = h_hdr_len (b_hdr b)"
  "h_type_off (b_hdr (btf_hdr_update_type_len b n)) = h_type_off (b_hdr b)"
  "h_str_off (b_hdr (btf_hdr_update_type_len b n)) = h_type_off (b_hdr b) + n + (if b_layout b = None then 0 else h_layout_len (b_hdr b))"
  "h_layout_off (b_hdr (btf_hdr_update_type_len b n)) = (if b_layout b = None then h_layout_off (b_hdr b) else h_type_off (b_hdr b) + n)"
  by (simp_all add: btf_hdr_update_type_len_def Let_def split: option.split)

lemma commit_type_ok:
  assumes "build_wf btf" "btf_type_size btf (type_of_words ws) = 4 * int (length ws)" "3 \<le> length ws"
    and "unat (h_type_len (b_hdr (own btf))) + 4 * length ws < 2 ^ 32" "btf_commit_type e btf ws = (r, btf')"
  shows "build_wf btf'" "all_strs btf' = all_strs btf" "kept btf btf'"
    "r = Inl er \<Longrightarrow> type_list btf' = type_list btf"
    "r = Inr i \<Longrightarrow> type_list btf' = type_list btf @ [ws] \<and> i = b_start_id (own btf) + of_nat (length (type_list btf))"
proof -
  have "build_wf btf' \<and> all_strs btf' = all_strs btf \<and> kept btf btf' \<and>
    (r \<in> range Inl \<and> type_list btf' = type_list btf \<or>
     type_list btf' = type_list btf @ [ws] \<and> r = Inr (b_start_id (own btf) + of_nat (length (type_list btf))))"
  proof (cases "btf_add_type_idx_entry (ev_idx e) (own btf) (h_type_len (b_hdr (own btf)))")
    case (Inl er)
    then show ?thesis using assms(1,5) by (auto simp: btf_commit_type_def)
  next
    case (Inr b1)
    obtain base b where btf: "btf = Btf base b" by (cases btf)
    have wf: "types_wf btf" "strs_wf (Btf base b)" using assms(1) by (simp_all add: build_wf_def btf)
    note t = types_wfD [OF wf(1), unfolded btf btf.sel]
    have nr: "unat (b_nr_types b) + 1 \<le> 2 ^ 31 - 1"
      and b1: "b1 = b\<lparr>b_type_offs := b_type_offs b @ [h_type_len (b_hdr b)]\<rparr>"
      using Inr t(1) by (auto simp: btf btf_add_type_idx_entry_def BTF_MAX_NR_TYPES_unat split: if_split_asm)
    define b' where "b' = (btf_hdr_update_type_len (b1\<lparr>b_types := b_types b1 @ ws\<rparr>) (h_type_len (b_hdr b) + of_nat (4 * length ws)))
      \<lparr>b_nr_types := b_nr_types b + 1\<rparr>"
    have res: "btf' = Btf base b'" "r = Inr (b_start_id b + b_nr_types b)"
      using assms(5) Inr by (auto simp: btf_commit_type_def Let_def btf b'_def b1 update_type_len_simps)
    have n4: "unat (of_nat (4 * length ws) :: u32) = 4 * length ws" using assms(4) by (intro unat_of_nat_u32) simp
    have len: "unat (h_type_len (b_hdr b) + of_nat (4 * length ws)) = unat (h_type_len (b_hdr b)) + 4 * length ws"
      using assms(4) n4 by (simp add: unat_add_u32 btf)
    have nr1: "unat (b_nr_types b + 1) = unat (b_nr_types b) + 1" using nr by (simp add: unat_add_u32)
    have sl: "same_layouts btf btf'" by (simp add: same_layouts_def btf res b'_def b1 update_type_len_simps)
    have bf: "b_types (own btf') = b_types (own btf) @ ws" "b_type_offs (own btf') = b_type_offs (own btf) @ [h_type_len (b_hdr (own btf))]"
      "unat (h_type_len (b_hdr (own btf'))) = unat (h_type_len (b_hdr (own btf))) + 4 * length ws"
      "unat (b_nr_types (own btf')) = unat (b_nr_types (own btf)) + 1" "unat (b_nr_types (own btf)) + 1 < 2 ^ 31"
      using nr len by (simp_all add: btf res b'_def b1 update_type_len_simps nr1)
    note tl = append_type_list [OF wf(1) sl assms(2,3) bf]
    have ps: "part_strs b' = part_strs b" "part_strs_wf b' = part_strs_wf b"
      by (rule part_strs_types; simp add: b'_def b1 update_type_len_simps)+
    have st: "b_start_str_off b' = b_start_str_off b" by (simp add: b'_def b1 update_type_len_simps)
    have pw: "part_strs_wf b'" using wf(2) ps(2) by simp
    note s' = strs_wf_types [OF wf(2) ps(1) pw st]
    have "of_nat (length (type_list btf)) = b_nr_types b"
      using t(1) [symmetric] by (simp add: type_list_def btf)
    moreover have "kept btf btf'"
      by (auto simp: kept_def packed_def res btf b'_def b1 update_type_len_simps Let_def split: option.split)
    ultimately show ?thesis
      using tl s' assms(1) by (simp add: build_wf_def res btf b'_def b1 update_type_len_simps)
  qed
  then show "build_wf btf'" "all_strs btf' = all_strs btf" "kept btf btf'"
    "r = Inl er \<Longrightarrow> type_list btf' = type_list btf"
    "r = Inr i \<Longrightarrow> type_list btf' = type_list btf @ [ws] \<and> i = b_start_id (own btf) + of_nat (length (type_list btf))"
    by auto
qed

text \<open>
  What appending a type promises. \<open>fill\<close> gives the words of the type for the offset of its name.
\<close>

definition appended :: "btf \<Rightarrow> bytes option \<Rightarrow> (u32 \<Rightarrow> u32 list) \<Rightarrow> u32 result \<Rightarrow> btf \<Rightarrow> bool" where
  "appended btf name fill r btf' \<longleftrightarrow>
     build_wf btf' \<and> grown btf btf' \<and>
     (case r of
        Inl e \<Rightarrow> type_list btf' = type_list btf
      | Inr i \<Rightarrow> i = b_start_id (own btf) + of_nat (length (type_list btf)) \<and>
          (\<exists>off. names btf' off name \<and> type_list btf' = type_list btf @ [fill off]))"

definition fills_type :: "btf \<Rightarrow> nat \<Rightarrow> (u32 \<Rightarrow> u32 list) \<Rightarrow> bool" where
  "fills_type btf n fill \<longleftrightarrow> 3 \<le> n \<and> (\<forall>off. length (fill off) = n \<and> btf_type_size btf (type_of_words (fill off)) = 4 * int n)"

lemma append_type_ok:
  assumes wf: "build_wf btf" "name_arg name" "fills_type btf n fill" and r: "append_type env btf (4 * n) name fill = (r, btf')"
  shows "appended btf name fill r btf'"
proof (cases "btf_ensure_modifiable (env 0) btf")
  case (Inl e)
  then show ?thesis using wf r by (auto simp: append_type_def appended_def)
next
  case (Inr btf1)
  have "same_content btf btf1" using ensure_modifiable_ok(1) [OF _ Inr] wf(1) by (simp add: build_wf_def)
  note m = same_content_build [OF this wf(1)]
  show ?thesis
  proof (cases "btf_add_type_mem (env 0) btf1 (4 * n)")
    case False
    then show ?thesis using r Inr m by (auto simp: append_type_def appended_def)
  next
    case True
    obtain r2 btf2 where a: "add_name env btf1 name = (r2, btf2)" by fastforce
    note s = add_name_ok(1-4) [OF m(1) wf(2) a]
    have st: "same_types btf btf2" by (rule same_types_trans [OF m(4) s(4)])
    show ?thesis
    proof (cases r2)
      case (Inl e)
      then show ?thesis using r Inr True a m s grown_trans [OF m(2) s(2)]
        by (auto simp: append_type_def st_bind_def appended_def)
    next
      case (Inr off)
      have nm: "names btf2 off name" using add_name_ok(5) [OF m(1) wf(2) a] Inr by blast
      have c: "btf_commit_type (env 0) btf2 (fill off) = (r, btf')"
        using r \<open>btf_ensure_modifiable (env 0) btf = Inr btf1\<close> True a Inr by (simp add: append_type_def st_bind_def)
      have f: "length (fill off) = n" "3 \<le> n" "btf_type_size btf2 (type_of_words (fill off)) = 4 * int (length (fill off))"
        using wf(3) same_types_size [OF st] by (simp_all add: fills_type_def)
      have "unat (h_type_len (b_hdr (own btf2))) + 4 * length (fill off) < 2 ^ 32"
        using True same_types_own(3) [OF s(4)] f(1) by (simp add: btf_add_type_mem_def)
      note k = commit_type_ok [OF s(1) f(3) _ this c]
      have l3: "3 \<le> length (fill off)" using f by simp
      have id0: "b_start_id (own btf2) = b_start_id (own btf)" by (rule same_types_own(8) [OF st])
      have g: "grown btf btf'" using grown_trans [OF m(2) s(2)] k(2,3) [OF l3] id0 by (auto simp: grown_def kept_def)
      have tl: "type_list btf2 = type_list btf" using m(3) s(3) by simp
      show ?thesis
      proof (cases r)
        case (Inl e)
        then show ?thesis using k(1,4) [OF l3] g tl by (simp add: appended_def)
      next
        case (Inr i)
        have "names btf' off name"
          by (rule names_mono [OF _ _ _ nm]) (use s(1) k(1,2) [OF l3] in \<open>simp_all add: build_wf_def\<close>)
        then show ?thesis using Inr k(1,5) [OF l3] g tl id0 by (auto simp: appended_def)
      qed
    qed
  qed
qed

text \<open>The last type.\<close>

lemma last_type_words:
  assumes "build_wf btf" "b_nr_types (own btf) \<noteq> 0"
  obtains offs off where "b_type_offs (own btf) = offs @ [off]" "btf_last_type btf = type_of_words (last (type_list btf))"
    "unat (btf__type_cnt btf - 1 - b_start_id (own btf)) = length offs" "type_at btf (unat off) = btf_last_type btf"
proof -
  obtain base b where btf: "btf = Btf base b" by (cases btf)
  have wf: "types_wf btf" and st: "b_start_id b \<noteq> 0" "unat (b_start_id b) \<le> 2 ^ 31" using assms(1) by (simp_all add: build_wf_def btf)
  note t = types_wfD [OF wf]
  have nr: "0 < unat (b_nr_types b)" using assms(2) by (simp add: btf unat_gt_0)
  then have "b_type_offs b \<noteq> []" using t(1) by (auto simp: btf)
  then obtain offs off where o: "b_type_offs b = offs @ [off]" by (metis append_butlast_last_id)
  have n: "unat (b_nr_types b) = Suc (length offs)" using t(1) o by (simp add: btf)
  define l where "l = btf__type_cnt btf - 1"
  have l: "l = b_start_id b + (b_nr_types b - 1)" by (simp add: l_def btf__type_cnt_def btf)
  have un: "unat (b_nr_types b - 1) = length offs" using n nr by (simp add: unat_sub word_le_nat_alt)
  then have ul: "unat (l - b_start_id b) = length offs" by (simp add: l)
  have b31: "unat (b_nr_types b) < 2 ^ 31" using t(1,2) by (simp add: btf)
  have "unat l = unat (b_start_id b) + length offs"
    unfolding l using un st b31 n by (subst unat_add_u32) simp_all
  moreover have "0 < unat (b_start_id b)" using st(1) by (simp add: unat_gt_0)
  ultimately have ge: "\<not> l < b_start_id b" "unat l \<noteq> 0" by (simp_all add: word_less_nat_alt)
  then have "l \<noteq> 0" by auto
  then have "btf_type_by_id (Btf base b) l = type_in_part b l" using ge(1) by (simp split: option.split)
  then have ty: "btf_last_type btf = type_of_words (drop (unat off div 4) (b_types b))"
    unfolding btf_last_type_def l_def [symmetric] using ul o by (simp add: btf type_in_part_def nth_append)
  have sn: "12 \<le> size_at btf (unat off)" "4 * length (b_types b) = unat off + nat (size_at btf (unat off))"
    using t(3,4) o unfolding btf btf.sel by (simp_all add: tiles_to_snoc)
  have "4 dvd unat off" using tiles_aligned [OF t(4), of off] o by (simp add: btf)
  then have "length (drop (unat off div 4) (b_types b)) \<le> nat (size_at btf (unat off)) div 4"
    using sn(2) size_at_dvd4 [OF sn(1)] by (auto elim!: dvdE)
  then have "last (type_list btf) = drop (unat off div 4) (b_types b)"
    using o by (simp add: type_list_def type_words_def btf)
  then show ?thesis using that [of offs off] o ty ul unfolding l_def btf by simp
qed

definition extended ::
  "btf \<Rightarrow> bytes option \<Rightarrow> (u32 \<Rightarrow> u32 list) \<Rightarrow> (btf_type \<Rightarrow> u32 result) \<Rightarrow> unit result \<Rightarrow> btf \<Rightarrow> bool" where
  "extended btf name fill upd r btf' \<longleftrightarrow>
     build_wf btf' \<and> grown btf btf' \<and>
     (case r of
        Inl e \<Rightarrow> type_list btf' = type_list btf
      | Inr u \<Rightarrow>
          \<exists>off info. names btf' off name \<and> upd (btf_last_type btf) = Inr info \<and>
            type_list btf' = butlast (type_list btf) @ [(last (type_list btf))[1 := info] @ fill off])"

definition fills_member :: "btf \<Rightarrow> nat \<Rightarrow> (u32 \<Rightarrow> u32 list) \<Rightarrow> (btf_type \<Rightarrow> u32 result) \<Rightarrow> bool" where
  "fills_member btf n fill upd \<longleftrightarrow> (\<forall>off. length (fill off) = n) \<and>
     (\<forall>info. upd (btf_last_type btf) = Inr info \<longrightarrow>
        btf_type_size btf ((btf_last_type btf)\<lparr>t_info := info\<rparr>) = btf_type_size btf (btf_last_type btf) + 4 * int n)"

lemma extend_last_ok:
  assumes wf: "build_wf btf" and nz: "b_nr_types (own btf) \<noteq> 0" and f: "fills_member btf (length ws) (\<lambda>_. ws) upd"
    and u: "upd (btf_last_type btf) = Inr info" and len: "unat (h_type_len (b_hdr (own btf))) + 4 * length ws < 2 ^ 32"
  defines "b1 \<equiv> own (set_type_info btf (btf__type_cnt btf - 1) info)"
  defines "btf' \<equiv> Btf (base_btf btf) (btf_hdr_update_type_len (b1\<lparr>b_types := b_types b1 @ ws\<rparr>)
      (h_type_len (b_hdr b1) + of_nat (4 * length ws)))"
  shows "build_wf btf'" "all_strs btf' = all_strs btf" "kept btf btf'"
    "type_list btf' = butlast (type_list btf) @ [(last (type_list btf))[1 := info] @ ws]"
proof -
  obtain base b where btf: "btf = Btf base b" by (cases btf)
  have tw: "types_wf btf" and sw: "strs_wf (Btf base b)" using wf by (simp_all add: build_wf_def btf)
  obtain offs off where o: "b_type_offs (own btf) = offs @ [off]" "btf_last_type btf = type_of_words (last (type_list btf))"
    "unat (btf__type_cnt btf - 1 - b_start_id (own btf)) = length offs" "type_at btf (unat off) = btf_last_type btf"
    by (rule last_type_words [OF wf nz])
  have b1: "b1 = b\<lparr>b_types := (b_types b)[unat off div 4 + 1 := info]\<rparr>"
    using o(1,3) by (simp add: b1_def set_type_info_def btf Let_def nth_append)
  have n4: "unat (of_nat (4 * length ws) :: u32) = 4 * length ws" using len by (intro unat_of_nat_u32) simp
  have ln: "unat (h_type_len (b_hdr b) + of_nat (4 * length ws)) = unat (h_type_len (b_hdr b)) + 4 * length ws"
    using len n4 by (simp add: unat_add_u32 btf)
  have sl: "same_layouts btf btf'" by (simp add: same_layouts_def btf btf'_def b1 update_type_len_simps)
  have bf: "b_types (own btf') = (b_types (own btf))[unat off div 4 + 1 := info] @ ws" "b_type_offs (own btf') = b_type_offs (own btf)"
    "unat (h_type_len (b_hdr (own btf'))) = unat (h_type_len (b_hdr (own btf))) + 4 * length ws"
    "b_nr_types (own btf') = b_nr_types (own btf)"
    using ln by (simp_all add: btf btf'_def b1 update_type_len_simps)
  have sz: "btf_type_size btf ((type_at btf (unat off))\<lparr>t_info := info\<rparr>) = size_at btf (unat off) + 4 * int (length ws)"
    using f u unfolding o(4) by (simp add: fills_member_def)
  note tl = append_member_list [OF tw sl o(1) bf sz]
  have ps: "part_strs (own btf') = part_strs b" "part_strs_wf (own btf') = part_strs_wf b"
    by (rule part_strs_types; simp add: btf'_def b1 update_type_len_simps)+
  have pw: "part_strs_wf (own btf')" using sw ps(2) by simp
  have st: "b_start_str_off (own btf') = b_start_str_off b" by (simp add: btf'_def b1 update_type_len_simps)
  have eq: "btf' = Btf base (own btf')" by (simp add: btf'_def btf)
  note s' = strs_wf_types [OF sw ps(1) pw st, folded eq]
  have id: "b_start_id (own btf') = b_start_id (own btf)" by (simp add: btf'_def b1 btf update_type_len_simps)
  then show "kept btf btf'"
    by (auto simp: kept_def packed_def btf btf'_def b1 update_type_len_simps Let_def split: option.split)
  show "build_wf btf'" using wf tl(1) s'(1) id by (simp add: build_wf_def)
  show "all_strs btf' = all_strs btf" using s'(2) by (simp add: btf)
  show "type_list btf' = butlast (type_list btf) @ [(last (type_list btf))[1 := info] @ ws]" by (rule tl(2))
qed

lemma append_member_ok:
  assumes wf: "build_wf btf" "name_arg name" "b_nr_types (own btf) \<noteq> 0" "fills_member btf n fill upd"
    and r: "append_member env btf (4 * n) name fill upd = (r, btf')"
  shows "extended btf name fill upd r btf'"
proof (cases "btf_ensure_modifiable (env 0) btf")
  case (Inl e)
  then show ?thesis using wf r by (auto simp: append_member_def extended_def)
next
  case (Inr btf1)
  note em = Inr
  have "same_content btf btf1" using ensure_modifiable_ok(1) [OF _ Inr] wf(1) by (simp add: build_wf_def)
  note m = same_content_build [OF this wf(1)]
  show ?thesis
  proof (cases "btf_add_type_mem (env 0) btf1 (4 * n)")
    case False
    then show ?thesis using r Inr m by (auto simp: append_member_def extended_def)
  next
    case True
    obtain r2 btf2 where a: "add_name env btf1 name = (r2, btf2)" by fastforce
    note s = add_name_ok(1-4) [OF m(1) wf(2) a]
    have st: "same_types btf btf2" by (rule same_types_trans [OF m(4) s(4)])
    have lt: "btf_last_type btf2 = btf_last_type btf"
      by (simp add: btf_last_type_def same_types_by_id [OF st] same_types_cnt [OF st])
    have tl: "type_list btf2 = type_list btf" "b_start_id (own btf2) = b_start_id (own btf)" "b_nr_types (own btf2) \<noteq> 0"
      using m(3) s(3) wf(3) same_types_own(7,8) [OF st] by simp_all
    note g = grown_trans [OF m(2) s(2)]
    show ?thesis
    proof (cases r2)
      case (Inl e)
      then show ?thesis using r Inr True a m s g by (auto simp: append_member_def st_bind_def extended_def)
    next
      case (Inr off)
      have nm: "names btf2 off name" using add_name_ok(5) [OF m(1) wf(2) a] Inr by blast
      have step: "(case upd (btf_last_type btf) of Inl e \<Rightarrow> (Inl e, btf2)
          | Inr info \<Rightarrow> let btf = set_type_info btf2 (btf__type_cnt btf2 - 1) info; b = own btf
              in (Inr (), Btf (base_btf btf) (btf_hdr_update_type_len (b\<lparr>b_types := b_types b @ fill off\<rparr>)
                   (h_type_len (b_hdr b) + of_nat (4 * n))))) = (r, btf')"
        using r em True a Inr by (simp add: append_member_def st_bind_def lt)
      show ?thesis
      proof (cases "upd (btf_last_type btf)")
        case (Inl e)
        then show ?thesis using step s(1) g tl(1) by (auto simp: extended_def)
      next
        case (Inr info)
        have f: "length (fill off) = n" using wf(4) by (simp add: fills_member_def)
        have "fills_member btf2 (length (fill off)) (\<lambda>_. fill off) upd"
          using wf(4) f by (simp add: fills_member_def lt same_types_size [OF st])
        moreover have "unat (h_type_len (b_hdr (own btf2))) + 4 * length (fill off) < 2 ^ 32"
          using True same_types_own(3) [OF s(4)] f by (simp add: btf_add_type_mem_def)
        moreover have "upd (btf_last_type btf2) = Inr info" using Inr lt by simp
        ultimately have e: "build_wf btf'" "all_strs btf' = all_strs btf2" "kept btf2 btf'"
            "type_list btf' = butlast (type_list btf2) @ [(last (type_list btf2))[1 := info] @ fill off]"
          and ru: "r = Inr ()"
          using extend_last_ok [OF s(1) tl(3), of "fill off" upd info] step Inr f by (auto simp: Let_def set_type_info_def)
        have "names btf' off name" by (rule names_mono [OF _ _ _ nm]) (use s(1) e in \<open>simp_all add: build_wf_def\<close>)
        moreover have "grown btf btf'" using g e(2,3) by (simp add: grown_def kept_def)
        ultimately show ?thesis using e ru tl Inr by (auto simp: extended_def)
      qed
    qed
  qed
qed

section \<open>The info word\<close>

lemma bit_above:
  fixes v :: u32
  assumes "unat v < 2 ^ k" "k \<le> n"
  shows "\<not> bit v n"
proof -
  have "unat v < 2 ^ n" by (rule less_le_trans [OF assms(1)]) (use assms(2) in simp)
  then have "unat v div 2 ^ n = 0" by simp
  then have "\<not> bit (unat v) n" unfolding bit_iff_odd by simp
  then show ?thesis by (simp add: bit_unsigned_iff bit_imp_le_length)
qed

lemma type_info_fields:
  assumes "unat kind < 2 ^ 7" "unat vlen < 2 ^ 24"
  shows "BTF_INFO_KIND (btf_type_info kind vlen kflag) = kind" "BTF_INFO_VLEN (btf_type_info kind vlen kflag) = vlen"
    "BTF_INFO_KFLAG (btf_type_info kind vlen kflag) \<noteq> 0 \<longleftrightarrow> kflag"
proof -
  have m: "(0x7f :: u32) = mask 7" "(0xffffff :: u32) = mask 24" by (simp_all add: mask_eq_exp_minus_1)
  show "BTF_INFO_KIND (btf_type_info kind vlen kflag) = kind"
    unfolding BTF_INFO_KIND_def btf_type_info_def m
    using bit_above [OF assms(1)] bit_above [OF assms(2)]
    by (intro bit_word_eqI) (auto simp: bit_simps not_less intro: not_le_imp_less)
  show "BTF_INFO_VLEN (btf_type_info kind vlen kflag) = vlen"
    unfolding BTF_INFO_VLEN_def btf_type_info_def m
    using bit_above [OF assms(2)]
    by (intro bit_word_eqI) (auto simp: bit_simps not_less intro: not_le_imp_less)
  have "BTF_INFO_KFLAG (btf_type_info kind vlen kflag) = of_bool kflag"
    unfolding BTF_INFO_KFLAG_def btf_type_info_def
    using bit_above [OF assms(1)] bit_above [OF assms(2)]
    by (intro bit_word_eqI) (auto simp: bit_simps not_less)
  then show "BTF_INFO_KFLAG (btf_type_info kind vlen kflag) \<noteq> 0 \<longleftrightarrow> kflag" by simp
qed

lemma type_info_kind [simp]:
  assumes "unat kind < 2 ^ 7" "unat vlen < 2 ^ 24"
  shows "btf_kind (type_of_words (x # btf_type_info kind vlen kflag # ws)) = kind"
    "btf_vlen (type_of_words (x # btf_type_info kind vlen kflag # ws)) = vlen"
    "btf_kflag (type_of_words (x # btf_type_info kind vlen kflag # ws)) = kflag"
    "btf_kind (t\<lparr>t_info := btf_type_info kind vlen kflag\<rparr>) = kind"
    "btf_vlen (t\<lparr>t_info := btf_type_info kind vlen kflag\<rparr>) = vlen"
    "btf_kflag (t\<lparr>t_info := btf_type_info kind vlen kflag\<rparr>) = kflag"
  using type_info_fields [OF assms, of kflag] by (simp_all add: btf_kind_def btf_vlen_def btf_kflag_def)

text \<open>The functions that append a type fill in a type of the size they have reserved.\<close>

lemma fills_plain:
  "k \<in> {2, 4, 5, 6, 7, 8, 9, 10, 11, 12, 13, 15, 16, 18, 19, 21, 22} \<Longrightarrow> fills_type btf 3 (\<lambda>off. [f off, btf_type_info k 0 kf, x])"
  "k \<in> {1, 14, 17, 20} \<Longrightarrow> fills_type btf 4 (\<lambda>off. [f off, btf_type_info k 0 kf, x, y])"
  "fills_type btf 6 (\<lambda>off. [f off, btf_type_info 3 0 kf, x, y, z, u])"
  by (auto simp: fills_type_def btf_type_size_def)

text \<open>The number of elements of the last type goes up by one; the size of an element is that of its kind.\<close>

definition elem_size :: "u32 \<Rightarrow> nat" where
  "elem_size k = (if k = BTF_KIND_STRUCT \<or> k = BTF_KIND_UNION \<or> k = BTF_KIND_ENUM64 \<or> k = BTF_KIND_DATASEC \<or> k = BTF_KIND_LOCSEC then 3
     else if k = BTF_KIND_ENUM \<or> k = BTF_KIND_FUNC_PROTO then 2 else 1)"

lemma inc_vlen_size:
  assumes "btf_kind t \<in> {4, 5, 6, 13, 15, 19, 20, 21, 22}" "btf_vlen t \<noteq> BTF_MAX_VLEN"
  shows "btf_type_size btf (t\<lparr>t_info := btf_type_info (btf_kind t) (btf_vlen t + 1) kf\<rparr>) =
    btf_type_size btf t + 4 * int (elem_size (btf_kind t))"
proof -
  have "unat (btf_vlen t) \<noteq> 0xffffff" using assms(2) by (auto simp: BTF_MAX_VLEN_def word_unat_eq_iff)
  then have lt: "unat (btf_vlen t) + 1 < 2 ^ 24" using unat_vlen_less [of t] by simp
  then have n: "unat (btf_vlen t + 1) = unat (btf_vlen t) + 1" by (simp add: unat_add_u32)
  then have "unat (btf_vlen t + 1) < 2 ^ 24" using lt by simp
  note k = type_info_kind(4,5) [OF unat_kind_less [of t] this, where kflag = kf]
  let ?t = "t\<lparr>t_info := btf_type_info (btf_kind t) (btf_vlen t + 1) kf\<rparr>"
  have v: "unat (btf_vlen ?t) = unat (btf_vlen t) + 1" using k(2) n by simp
  note sz = type_size_kind [OF v, of btf, unfolded k(1)] type_size_kind [OF refl, of t btf]
  consider "btf_kind t \<in> {19, 4, 5, 15, 22}" | "btf_kind t \<in> {6, 13}" | "btf_kind t = 20" | "btf_kind t = 21"
    using assms(1) by auto
  then show ?thesis
    by cases (use sz in \<open>auto simp: elem_size_def algebra_simps\<close>)
qed

text \<open>Rewriting the \<open>info\<close> word of the last type.\<close>

lemma set_last_info_ok:
  assumes wf: "build_wf btf" and nz: "b_nr_types (own btf) \<noteq> 0"
    and sz: "btf_type_size btf ((btf_last_type btf)\<lparr>t_info := info\<rparr>) = btf_type_size btf (btf_last_type btf)"
  defines "btf' \<equiv> set_type_info btf (btf__type_cnt btf - 1) info"
  shows "build_wf btf'" "all_strs btf' = all_strs btf" "kept btf btf'"
    "type_list btf' = butlast (type_list btf) @ [(last (type_list btf))[1 := info]]"
proof -
  obtain base b where btf: "btf = Btf base b" by (cases btf)
  have tw: "types_wf btf" and sw: "strs_wf (Btf base b)" using wf by (simp_all add: build_wf_def btf)
  obtain offs off where o: "b_type_offs (own btf) = offs @ [off]" "btf_last_type btf = type_of_words (last (type_list btf))"
    "unat (btf__type_cnt btf - 1 - b_start_id (own btf)) = length offs" "type_at btf (unat off) = btf_last_type btf"
    by (rule last_type_words [OF wf nz])
  define b' where "b' = b\<lparr>b_types := (b_types b)[unat off div 4 + 1 := info]\<rparr>"
  have eq: "btf' = Btf base b'"
    using o(1,3) by (simp add: btf'_def b'_def set_type_info_def btf Let_def nth_append)
  have sl: "same_layouts btf btf'" by (simp add: same_layouts_def btf eq b'_def)
  have bf: "b_types (own btf') = (b_types (own btf))[unat off div 4 + 1 := info] @ []" "b_type_offs (own btf') = b_type_offs (own btf)"
    "unat (h_type_len (b_hdr (own btf'))) = unat (h_type_len (b_hdr (own btf))) + 4 * length ([] :: u32 list)"
    "b_nr_types (own btf') = b_nr_types (own btf)"
    by (simp_all add: btf eq b'_def)
  have "btf_type_size btf ((type_at btf (unat off))\<lparr>t_info := info\<rparr>) = size_at btf (unat off) + 4 * int (length ([] :: u32 list))"
    using sz unfolding o(4) by simp
  note tl = append_member_list [OF tw sl o(1) bf this]
  have ps: "part_strs b' = part_strs b" "part_strs_wf b' = part_strs_wf b"
    by (rule part_strs_types; simp add: b'_def)+
  have pw: "part_strs_wf b'" "b_start_str_off b' = b_start_str_off b" using sw ps(2) by (simp_all add: b'_def)
  note s' = strs_wf_types [OF sw ps(1) pw]
  have id: "b_start_id (own btf') = b_start_id (own btf)" by (simp add: eq b'_def btf)
  then show "kept btf btf'" by (simp add: kept_def packed_def eq b'_def btf)
  show "build_wf btf'" using id wf tl(1) s'(1) by (simp add: build_wf_def eq)
  show "all_strs btf' = all_strs btf" using s'(2) by (simp add: btf eq)
  show "type_list btf' = butlast (type_list btf) @ [(last (type_list btf))[1 := info]]" using tl(2) by simp
qed

lemma with_info_set:
  assumes wf: "build_wf btf" and r: "appended btf name (\<lambda>off. [off, btf_type_info k 0 kf, x]) (Inr i) btf1"
    and w: "with_info (btf_type_info k v kf') (Inr i, btf1) = (r, btf')"
    and k: "k \<in> {7, 12}" "unat v < 2 ^ 24" and pos: "\<not> sint i \<le> 0"
  shows "appended btf name (\<lambda>off. [off, btf_type_info k v kf', x]) r btf'"
proof -
  have e: "r = Inr i" "btf' = set_type_info btf1 i (btf_type_info k v kf')" using w pos by (simp_all add: with_info_def)
  have a: "build_wf btf1" "grown btf btf1" "i = b_start_id (own btf) + of_nat (length (type_list btf))"
    and "\<exists>off. names btf1 off name \<and> type_list btf1 = type_list btf @ [[off, btf_type_info k 0 kf, x]]"
    using r by (simp_all add: appended_def)
  then obtain off where off: "names btf1 off name" "type_list btf1 = type_list btf @ [[off, btf_type_info k 0 kf, x]]" by blast
  have len: "unat (b_nr_types (own btf1)) = length (type_list btf) + 1" "length (type_list btf) + 1 < 2 ^ 31"
    using types_wfD(1,2) [of btf1] a(1) arg_cong [OF off(2), of length] by (simp_all add: build_wf_def type_list_def)
  then have nz: "b_nr_types (own btf1) \<noteq> 0" by auto
  have "unat (b_nr_types (own btf1) - 1) = length (type_list btf)" using len nz by (simp add: unat_sub word_le_nat_alt unat_gt_0 Suc_le_eq)
  then have "b_nr_types (own btf1) - 1 = of_nat (length (type_list btf))" by (metis of_nat_unat ucast_id)
  then have li: "i = btf__type_cnt btf1 - 1"
    using a(2,3) by (simp add: btf__type_cnt_def grown_def kept_def)
  obtain os' o' where lt: "btf_last_type btf1 = type_of_words (last (type_list btf1))" by (rule last_type_words [OF a(1) nz])
  have kd: "unat k < 2 ^ 7" "unat (0 :: u32) < 2 ^ 24" using k(1) by auto
  have lt': "btf_last_type btf1 = type_of_words [off, btf_type_info k 0 kf, x]" using lt off(2) by simp
  have "btf_type_size btf1 ((btf_last_type btf1)\<lparr>t_info := btf_type_info k v kf'\<rparr>) = btf_type_size btf1 (btf_last_type btf1)"
    unfolding lt' using k type_info_kind(1) [OF kd] type_info_kind(4) [OF kd(1) k(2)] type_size_kind(1) [OF refl] by auto
  note s = set_last_info_ok [OF a(1) nz this, folded li, folded e(2)]
  have "names btf' off name" by (rule names_mono [OF _ _ _ off(1)]) (use s a(1) in \<open>simp_all add: build_wf_def\<close>)
  then show ?thesis using s a off(2) e(1) by (auto simp: appended_def grown_def kept_def)
qed

lemma with_info_ok:
  assumes "build_wf btf" and r: "appended btf name (\<lambda>off. [off, btf_type_info k 0 kf, x]) r1 btf1"
    and w: "with_info (btf_type_info k v kf') (r1, btf1) = (r, btf')"
    and k: "k \<in> {7, 12}" "unat v < 2 ^ 24"
  shows "appended btf name (\<lambda>off. [off, btf_type_info k v kf', x]) r btf' \<or>
    appended btf name (\<lambda>off. [off, btf_type_info k 0 kf, x]) r btf'"
proof (cases "\<exists>i. r1 = Inr i \<and> \<not> sint i \<le> 0")
  case True
  then show ?thesis using with_info_set [OF assms(1) _ _ k] r w by blast
next
  case False
  then show ?thesis using r w by (auto simp: with_info_def split: sum.splits if_splits)
qed

end
