(* ===== verification/BtfCalls.thy ===== *)
theory BtfCalls
  imports BtfAppend
begin

text \<open>
  Sequences of calls that build an object: every call is executed by the function of its name,
  and has the effect on the list of types and the strings that its arguments describe.
\<close>

section \<open>Sequences of calls\<close>

text \<open>The calls that change an object under construction.\<close>

datatype btf_call =
    AddStr bytes
  | AddInt "bytes option" u64 u32
  | AddFloat "bytes option" u64
  | AddPtr u32
  | AddArray u32 u32 u32
  | AddStruct "bytes option" u32
  | AddUnion "bytes option" u32
  | AddField "bytes option" u32 u32 u32
  | AddEnum "bytes option" u32
  | AddEnumValue "bytes option" u64
  | AddEnum64 "bytes option" u32 bool
  | AddEnum64Value "bytes option" u64
  | AddFwd "bytes option" btf_fwd_kind
  | AddTypedef "bytes option" u32
  | AddVolatile u32
  | AddConst u32
  | AddRestrict u32
  | AddTypeTag "bytes option" u32
  | AddTypeAttr "bytes option" u32
  | AddFunc "bytes option" u32 u32
  | AddFuncProto u32
  | AddFuncParam "bytes option" u32
  | AddVar "bytes option" u32 u32
  | AddDatasec "bytes option" u32
  | AddDatasecVarInfo u32 u32 u32
  | AddDeclTag "bytes option" u32 u32
  | AddDeclAttr "bytes option" u32 u32
  | AddLocParam u32 u32
  | AddLocParamValue u32
  | AddLocProto
  | AddLocProtoParam u32
  | AddLocsec "bytes option"
  | AddLocsecLoc u32 u32 u32

text \<open>A call returns an id or an offset, or 0 where the function returns no number.\<close>

definition no_value :: "unit result \<times> btf \<Rightarrow> u32 result \<times> btf" where
  "no_value r = (case r of (Inl e, btf) \<Rightarrow> (Inl e, btf) | (Inr u, btf) \<Rightarrow> (Inr 0, btf))"

fun exec_call :: "btf_envs \<Rightarrow> btf \<Rightarrow> btf_call \<Rightarrow> u32 result \<times> btf" where
  "exec_call env btf (AddStr s) = btf__add_str env btf s"
| "exec_call env btf (AddInt name byte_sz encoding) = btf__add_int env btf name byte_sz encoding"
| "exec_call env btf (AddFloat name byte_sz) = btf__add_float env btf name byte_sz"
| "exec_call env btf (AddPtr i) = btf__add_ptr env btf i"
| "exec_call env btf (AddArray i j n) = btf__add_array env btf i j n"
| "exec_call env btf (AddStruct name byte_sz) = btf__add_struct env btf name byte_sz"
| "exec_call env btf (AddUnion name byte_sz) = btf__add_union env btf name byte_sz"
| "exec_call env btf (AddField name i off bits) = no_value (btf__add_field env btf name i off bits)"
| "exec_call env btf (AddEnum name byte_sz) = btf__add_enum env btf name byte_sz"
| "exec_call env btf (AddEnumValue name v) = no_value (btf__add_enum_value env btf name v)"
| "exec_call env btf (AddEnum64 name byte_sz is_signed) = btf__add_enum64 env btf name byte_sz is_signed"
| "exec_call env btf (AddEnum64Value name v) = no_value (btf__add_enum64_value env btf name v)"
| "exec_call env btf (AddFwd name k) = btf__add_fwd env btf name k"
| "exec_call env btf (AddTypedef name i) = btf__add_typedef env btf name i"
| "exec_call env btf (AddVolatile i) = btf__add_volatile env btf i"
| "exec_call env btf (AddConst i) = btf__add_const env btf i"
| "exec_call env btf (AddRestrict i) = btf__add_restrict env btf i"
| "exec_call env btf (AddTypeTag v i) = btf__add_type_tag env btf v i"
| "exec_call env btf (AddTypeAttr v i) = btf__add_type_attr env btf v i"
| "exec_call env btf (AddFunc name linkage i) = btf__add_func env btf name linkage i"
| "exec_call env btf (AddFuncProto i) = btf__add_func_proto env btf i"
| "exec_call env btf (AddFuncParam name i) = no_value (btf__add_func_param env btf name i)"
| "exec_call env btf (AddVar name linkage i) = btf__add_var env btf name linkage i"
| "exec_call env btf (AddDatasec name byte_sz) = btf__add_datasec env btf name byte_sz"
| "exec_call env btf (AddDatasecVarInfo i off byte_sz) = no_value (btf__add_datasec_var_info env btf i off byte_sz)"
| "exec_call env btf (AddDeclTag v i c) = btf__add_decl_tag env btf v i c"
| "exec_call env btf (AddDeclAttr v i c) = btf__add_decl_attr env btf v i c"
| "exec_call env btf (AddLocParam byte_sz flags) = btf__add_loc_param env btf byte_sz flags"
| "exec_call env btf (AddLocParamValue v) = no_value (btf__add_loc_param_value env btf v)"
| "exec_call env btf AddLocProto = btf__add_loc_proto env btf"
| "exec_call env btf (AddLocProtoParam i) = no_value (btf__add_loc_proto_param env btf i)"
| "exec_call env btf (AddLocsec name) = btf__add_locsec env btf name"
| "exec_call env btf (AddLocsecLoc f p off) = no_value (btf__add_locsec_loc env btf f p off)"

text \<open>
  What the calls promise: the name and the words after it of the type that a call appends; the
  kinds of types that a call extends, with the name, the words of the new element and whether
  the kind flag gets set.
\<close>

fun call_type :: "btf_call \<Rightarrow> (bytes option \<times> u32 list) option" where
  "call_type (AddInt name byte_sz encoding) =
     Some (name, [btf_type_info BTF_KIND_INT 0 False, ucast byte_sz, push_bit 24 encoding OR ucast (byte_sz * 8)])"
| "call_type (AddFloat name byte_sz) = Some (name, [btf_type_info BTF_KIND_FLOAT 0 False, ucast byte_sz])"
| "call_type (AddPtr i) = Some (None, [btf_type_info BTF_KIND_PTR 0 False, i])"
| "call_type (AddArray i j n) = Some (None, [btf_type_info BTF_KIND_ARRAY 0 False, 0, j, i, n])"
| "call_type (AddStruct name byte_sz) = Some (name, [btf_type_info BTF_KIND_STRUCT 0 False, byte_sz])"
| "call_type (AddUnion name byte_sz) = Some (name, [btf_type_info BTF_KIND_UNION 0 False, byte_sz])"
| "call_type (AddEnum name byte_sz) = Some (name, [btf_type_info BTF_KIND_ENUM 0 False, byte_sz])"
| "call_type (AddEnum64 name byte_sz is_signed) = Some (name, [btf_type_info BTF_KIND_ENUM64 0 is_signed, byte_sz])"
| "call_type (AddFwd name k) = Some (name,
     if k = BTF_FWD_ENUM then [btf_type_info BTF_KIND_ENUM 0 False, 4] else [btf_type_info BTF_KIND_FWD 0 (k = BTF_FWD_UNION), 0])"
| "call_type (AddTypedef name i) = Some (name, [btf_type_info BTF_KIND_TYPEDEF 0 False, i])"
| "call_type (AddVolatile i) = Some (None, [btf_type_info BTF_KIND_VOLATILE 0 False, i])"
| "call_type (AddConst i) = Some (None, [btf_type_info BTF_KIND_CONST 0 False, i])"
| "call_type (AddRestrict i) = Some (None, [btf_type_info BTF_KIND_RESTRICT 0 False, i])"
| "call_type (AddTypeTag v i) = Some (v, [btf_type_info BTF_KIND_TYPE_TAG 0 False, i])"
| "call_type (AddTypeAttr v i) = Some (v, [btf_type_info BTF_KIND_TYPE_TAG 0 True, i])"
| "call_type (AddFunc name linkage i) = Some (name, [btf_type_info BTF_KIND_FUNC linkage False, i])"
| "call_type (AddFuncProto i) = Some (None, [btf_type_info BTF_KIND_FUNC_PROTO 0 False, i])"
| "call_type (AddVar name linkage i) = Some (name, [btf_type_info BTF_KIND_VAR 0 False, i, linkage])"
| "call_type (AddDatasec name byte_sz) = Some (name, [btf_type_info BTF_KIND_DATASEC 0 False, byte_sz])"
| "call_type (AddDeclTag v i c) = Some (v, [btf_type_info BTF_KIND_DECL_TAG 0 False, i, c])"
| "call_type (AddDeclAttr v i c) = Some (v, [btf_type_info BTF_KIND_DECL_TAG 0 True, i, c])"
| "call_type (AddLocParam byte_sz flags) = Some (None, [btf_type_info BTF_KIND_LOC_PARAM 0 False, byte_sz, flags])"
| "call_type AddLocProto = Some (None, [btf_type_info BTF_KIND_LOC_PROTO 0 False, 0])"
| "call_type (AddLocsec name) = Some (name, [btf_type_info BTF_KIND_LOCSEC 0 False, 0])"
| "call_type _ = None"

fun call_elem :: "btf_call \<Rightarrow> (u32 set \<times> bytes option \<times> (u32 \<Rightarrow> u32 list) \<times> bool) option" where
  "call_elem (AddField name i off bits) =
     Some ({BTF_KIND_STRUCT, BTF_KIND_UNION}, name, (\<lambda>n. [n, i, off OR push_bit 24 bits]), bits \<noteq> 0 \<or> off mod 8 \<noteq> 0)"
| "call_elem (AddEnumValue name v) = Some ({BTF_KIND_ENUM}, name, (\<lambda>n. [n, ucast v]), sint v < 0)"
| "call_elem (AddEnum64Value name v) = Some ({BTF_KIND_ENUM64}, name, (\<lambda>n. [n, ucast v, ucast (drop_bit 32 v)]), False)"
| "call_elem (AddFuncParam name i) = Some ({BTF_KIND_FUNC_PROTO}, name, (\<lambda>n. [n, i]), False)"
| "call_elem (AddDatasecVarInfo i off byte_sz) = Some ({BTF_KIND_DATASEC}, None, (\<lambda>_. [i, off, byte_sz]), False)"
| "call_elem (AddLocParamValue v) = Some ({BTF_KIND_LOC_PARAM}, None, (\<lambda>_. [v]), False)"
| "call_elem (AddLocProtoParam i) = Some ({BTF_KIND_LOC_PROTO}, None, (\<lambda>_. [i]), False)"
| "call_elem (AddLocsecLoc f p off) = Some ({BTF_KIND_LOCSEC}, None, (\<lambda>_. [f, p, off]), False)"
| "call_elem _ = None"

definition call_name :: "btf_call \<Rightarrow> bytes option" where
  "call_name c = (case c of AddStr s \<Rightarrow> Some s
     | _ \<Rightarrow> (case call_type c of Some (name, ws) \<Rightarrow> name | None \<Rightarrow> (case call_elem c of Some (k, name, _) \<Rightarrow> name | None \<Rightarrow> None)))"

text \<open>
  The result of one call. An id that is not positive as an \<open>int\<close>, which needs more than 2 ^ 31 types,
  makes the functions for forward declarations and functions leave the \<open>info\<close> word as it is.
\<close>

definition call_effect :: "btf \<Rightarrow> btf_call \<Rightarrow> u32 \<Rightarrow> btf \<Rightarrow> bool" where
  "call_effect btf c i btf' \<longleftrightarrow>
     (case call_type c of
        Some (name, ws) \<Rightarrow>
          i = b_start_id (own btf) + of_nat (length (type_list btf)) \<and>
          (\<exists>off ws'. names btf' off name \<and> type_list btf' = type_list btf @ [off # ws'] \<and>
             (ws' = ws \<or> sint i \<le> 0 \<and> ws' = btf_type_info (btf_kind (type_of_words (off # ws))) 0 False # tl ws))
      | None \<Rightarrow>
          (case call_elem c of
             Some (kinds, name, fill, kf) \<Rightarrow>
               \<exists>off ts ws. let t = type_of_words ws in
                 names btf' off name \<and> type_list btf = ts @ [ws] \<and> btf_kind t \<in> kinds \<and> btf_vlen t < BTF_MAX_VLEN \<and>
                 type_list btf' = ts @ [ws[1 := btf_type_info (btf_kind t) (btf_vlen t + 1) (btf_kflag t \<or> kf)] @ fill off]
           | None \<Rightarrow>
               map_option cstr (btf__str_by_offset btf' i) = Some (cstr (the (call_name c))) \<and>
               type_list btf' = type_list btf))"

lemma append_kind_ok:
  assumes "build_wf btf" "name_arg name"
  shows "append_type env btf 12 name (\<lambda>off. [f off, btf_type_info k 0 kf, x]) = (r, btf') \<Longrightarrow>
      k \<in> {2, 4, 5, 6, 7, 8, 9, 10, 11, 12, 13, 15, 16, 18, 19, 21, 22} \<Longrightarrow> appended btf name (\<lambda>off. [f off, btf_type_info k 0 kf, x]) r btf'"
    and "append_type env btf 16 name (\<lambda>off. [f off, btf_type_info k 0 kf, x, y]) = (r, btf') \<Longrightarrow>
      k \<in> {1, 14, 17, 20} \<Longrightarrow> appended btf name (\<lambda>off. [f off, btf_type_info k 0 kf, x, y]) r btf'"
    and "append_type env btf 24 name (\<lambda>off. [f off, btf_type_info 3 0 kf, x, y, z, u]) = (r, btf') \<Longrightarrow>
      appended btf name (\<lambda>off. [f off, btf_type_info 3 0 kf, x, y, z, u]) r btf'"
  using append_type_ok [OF assms fills_plain(1), where btf' = btf' and r = r and env = env]
    append_type_ok [OF assms fills_plain(2), where btf' = btf' and r = r and env = env]
    append_type_ok [OF assms fills_plain(3), where btf' = btf' and r = r and env = env]
  by simp_all

lemma appended_error: "build_wf btf \<Longrightarrow> appended btf name fill (Inl e) btf"
  by (simp add: appended_def)

lemma appended_effect:
  assumes "call_type c = Some (name, ws)" "appended btf name (\<lambda>off. off # ws) r btf'"
  shows "build_wf btf' \<and> grown btf btf' \<and> (case r of Inl e \<Rightarrow> type_list btf' = type_list btf | Inr i \<Rightarrow> call_effect btf c i btf')"
  using assms by (auto simp: appended_def call_effect_def split: sum.splits)

lemma appended_unnamed: "appended btf None (\<lambda>off. 0 # ws) r btf' \<Longrightarrow> appended btf None (\<lambda>off. off # ws) r btf'"
  by (auto simp: appended_def names_def str_is_empty_def split: sum.splits)

lemmas add_type_defs =
  btf__add_int_def btf__add_float_def btf_add_ref_kind_def btf__add_ptr_def btf__add_array_def btf_add_composite_def
  btf__add_struct_def btf__add_union_def btf_add_enum_common_def btf__add_enum_def btf__add_enum64_def
  btf__add_typedef_def btf__add_volatile_def btf__add_const_def btf__add_restrict_def btf__add_type_tag_def
  btf__add_type_attr_def btf__add_func_proto_def btf__add_var_def btf__add_datasec_def btf_add_decl_tag_def
  btf__add_decl_tag_def btf__add_decl_attr_def btf__add_loc_param_def btf__add_loc_proto_def btf__add_locsec_def

lemma name_arg_None [simp]: "name_arg None"
  by (simp add: name_arg_def)

lemma exec_type_ok:
  assumes "build_wf btf" "name_arg name" "exec_call env btf c = (r, btf')" "call_type c = Some (name, ws)"
    and "\<And>n k. c \<noteq> AddFwd n k" "\<And>n l i. c \<noteq> AddFunc n l i"
  shows "appended btf name (\<lambda>off. off # ws) r btf'"
  using assms
  by (cases c) (auto simp: add_type_defs appended_error append_kind_ok appended_unnamed split: if_splits)

text \<open>Forward declarations and functions are appended first and then get their \<open>info\<close> word.\<close>

definition call_ok :: "btf \<Rightarrow> btf_call \<Rightarrow> u32 result \<Rightarrow> btf \<Rightarrow> bool" where
  "call_ok btf c r btf' \<longleftrightarrow> build_wf btf' \<and> grown btf btf' \<and>
     (case r of Inl e \<Rightarrow> type_list btf' = type_list btf | Inr i \<Rightarrow> call_effect btf c i btf')"

lemma call_ok_error: "build_wf btf \<Longrightarrow> call_ok btf c (Inl e) btf"
  by (simp add: call_ok_def)

lemma with_info_effect:
  assumes wf: "build_wf btf" "name_arg name" and v: "unat v < 2 ^ 24" "k \<in> {7, 12}"
    and c: "call_type c = Some (name, [btf_type_info k v kf, x])"
    and r: "with_info (btf_type_info k v kf) (btf_add_ref_kind env btf k name x False) = (r, btf')"
  shows "call_ok btf c r btf'"
proof -
  obtain r1 btf1 where a: "btf_add_ref_kind env btf k name x False = (r1, btf1)" by fastforce
  have ap: "appended btf name (\<lambda>off. [off, btf_type_info k 0 False, x]) r1 btf1"
    using a wf v(2) by (auto simp: btf_add_ref_kind_def appended_error append_kind_ok split: if_splits)
  note w = with_info_ok [OF wf(1) ap r [unfolded a] v(2,1)]
  show ?thesis
  proof (cases "\<exists>i. r = Inr i \<and> sint i \<le> 0")
    case True
    have "unat k < 2 ^ 7" using v(2) by auto
    then have "btf_kind (type_of_words (off # [btf_type_info k v kf, x])) = k" for off using v(1) by simp
    then show ?thesis using True w c by (auto simp: call_ok_def call_effect_def appended_def)
  next
    case False
    have "appended btf name (\<lambda>off. [off, btf_type_info k v kf, x]) r btf'"
    proof (cases r1)
      case (Inl e)
      then show ?thesis using r ap a by (auto simp: with_info_def appended_def)
    next
      case (Inr i)
      then have "\<not> sint i \<le> 0" using False r a by (auto simp: with_info_def split: if_splits)
      then show ?thesis by (rule with_info_set [OF wf(1) ap [unfolded Inr] r [unfolded a Inr] v(2,1)])
    qed
    then show ?thesis using appended_effect [OF c] by (simp add: call_ok_def)
  qed
qed

text \<open>Elements.\<close>

lemma append_elem_ok:
  assumes wf: "build_wf btf" "name_arg name" "b_nr_types (own btf) \<noteq> 0"
    and c: "call_type c = None" "call_elem c = Some (kinds, name, fill, kf)"
    and k: "btf_kind (btf_last_type btf) \<in> kinds" "kinds \<subseteq> {4, 5, 6, 13, 15, 19, 20, 21, 22}" "\<And>k. k \<in> kinds \<Longrightarrow> elem_size k = n"
    and f: "\<And>off. length (fill off) = n"
    and u: "\<And>info. upd (btf_last_type btf) = Inr info \<Longrightarrow> btf_vlen (btf_last_type btf) \<noteq> BTF_MAX_VLEN \<and>
      info = btf_type_info (btf_kind (btf_last_type btf)) (btf_vlen (btf_last_type btf) + 1) (btf_kflag (btf_last_type btf) \<or> kf)"
    and r: "no_value (append_member env btf m name fill upd) = (r, btf')" "m = 4 * n"
  shows "call_ok btf c r btf'"
proof -
  let ?t = "btf_last_type btf"
  obtain r1 btf1 where a: "append_member env btf (4 * n) name fill upd = (r1, btf1)" by fastforce
  note r = r(1) [unfolded r(2)]
  have k': "btf_kind ?t \<in> {4, 5, 6, 13, 15, 19, 20, 21, 22}" using k(1,2) by blast
  have fm: "fills_member btf n fill upd" unfolding fills_member_def
  proof (intro conjI allI impI f)
    fix info
    assume "upd ?t = Inr info"
    note i = u [OF this]
    show "btf_type_size btf (?t\<lparr>t_info := info\<rparr>) = btf_type_size btf ?t + 4 * int n"
      using inc_vlen_size [OF k' conjunct1 [OF i]] unfolding conjunct2 [OF i] k(3) [OF k(1)] .
  qed
  note e = append_member_ok [OF wf fm a]
  obtain offs off where o: "b_type_offs (own btf) = offs @ [off]" "?t = type_of_words (last (type_list btf))"
    by (rule last_type_words [OF wf(1,3)])
  then have ne: "type_list btf = butlast (type_list btf) @ [last (type_list btf)]" by (simp add: type_list_def)
  show ?thesis
  proof (cases r1)
    case (Inl err)
    then show ?thesis using e a r by (auto simp: call_ok_def extended_def no_value_def)
  next
    case (Inr w)
    then obtain n' info where i: "names btf1 n' name" "upd ?t = Inr info" "build_wf btf1" "grown btf btf1"
      "type_list btf1 = butlast (type_list btf) @ [(last (type_list btf))[1 := info] @ fill n']"
      using e by (auto simp: extended_def)
    have eq: "r = Inr 0" "btf' = btf1" using r a Inr by (auto simp: no_value_def)
    have "btf_vlen ?t \<le> BTF_MAX_VLEN" using unat_vlen_less [of ?t] by (simp add: word_le_nat_alt BTF_MAX_VLEN_def)
    then have "btf_vlen ?t < BTF_MAX_VLEN" using u [OF i(2)] by (simp add: order.strict_iff_order)
    then show ?thesis using i eq c k(1) u [OF i(2)] o(2) ne
      by (auto simp: call_ok_def call_effect_def Let_def intro!: exI [of _ n'] exI [of _ "butlast (type_list btf)"] exI [of _ "last (type_list btf)"])
  qed
qed

lemma inc_vlen_info:
  "btf_type_inc_vlen t = Inr info \<Longrightarrow> btf_vlen t \<noteq> BTF_MAX_VLEN \<and> info = btf_type_info (btf_kind t) (btf_vlen t + 1) (btf_kflag t \<or> False)"
  by (simp add: btf_type_inc_vlen_def split: if_splits)

lemma enum_value_info_eq:
  assumes "enum_value_info v t = Inr info"
  shows "btf_vlen t \<noteq> BTF_MAX_VLEN \<and> info = btf_type_info (btf_kind t) (btf_vlen t + 1) (btf_kflag t \<or> sint v < 0)"
proof -
  obtain i where i: "btf_type_inc_vlen t = Inr i" "btf_vlen t \<noteq> BTF_MAX_VLEN" "i = btf_type_info (btf_kind t) (btf_vlen t + 1) (btf_kflag t)"
    using assms by (auto simp: enum_value_info_def btf_type_inc_vlen_def split: if_splits)
  have "unat (btf_vlen t) \<noteq> 0xffffff" using i(2) by (auto simp: BTF_MAX_VLEN_def word_unat_eq_iff)
  then have "unat (btf_vlen t + 1) < 2 ^ 24" using unat_vlen_less [of t] by (simp add: unat_add_u32)
  note k = type_info_kind(4,5) [OF unat_kind_less [of t] this, where t = t and kflag = "btf_kflag t"]
  show ?thesis using assms i k by (auto simp: enum_value_info_def Let_def)
qed

lemmas add_elem_defs =
  btf__add_field_def btf__add_enum_value_def btf__add_enum64_value_def btf__add_func_param_def
  btf__add_datasec_var_info_def btf__add_loc_param_value_def btf__add_loc_proto_param_def btf__add_locsec_loc_def

lemma no_value_error [simp]: "no_value (Inl e, btf) = (Inl e, btf)"
  by (simp add: no_value_def)

text \<open>A function that checks its arguments before it appends an element.\<close>

lemma guarded_elem_ok:
  assumes wf: "build_wf btf" "name_arg name" and r: "exec_call env btf c = (r, btf')"
    and c: "call_elem c = Some (kinds, name, fill, kf)" "call_type c = None"
    and k: "kinds \<subseteq> {4, 5, 6, 13, 15, 19, 20, 21, 22}" "\<And>k. k \<in> kinds \<Longrightarrow> elem_size k = n" "\<And>off. length (fill off) = n"
    and g: "(\<exists>e. exec_call env btf c = (Inl e, btf)) \<or>
      (exec_call env btf c = no_value (append_member env btf (4 * n) name fill upd) \<and>
       b_nr_types (own btf) \<noteq> 0 \<and> btf_kind (btf_last_type btf) \<in> kinds \<and>
       (\<forall>info t. t = btf_last_type btf \<longrightarrow> upd t = Inr info \<longrightarrow> btf_vlen t \<noteq> BTF_MAX_VLEN \<and>
          info = btf_type_info (btf_kind t) (btf_vlen t + 1) (btf_kflag t \<or> kf)))"
  shows "call_ok btf c r btf'"
proof -
  from g consider e where "exec_call env btf c = (Inl e, btf)"
    | "exec_call env btf c = no_value (append_member env btf (4 * n) name fill upd)"
      "b_nr_types (own btf) \<noteq> 0" "btf_kind (btf_last_type btf) \<in> kinds"
      "\<And>info. upd (btf_last_type btf) = Inr info \<Longrightarrow> btf_vlen (btf_last_type btf) \<noteq> BTF_MAX_VLEN \<and>
          info = btf_type_info (btf_kind (btf_last_type btf)) (btf_vlen (btf_last_type btf) + 1) (btf_kflag (btf_last_type btf) \<or> kf)"
    by blast
  then show ?thesis
  proof cases
    case 1
    then show ?thesis using r wf by (auto intro: call_ok_error)
  next
    case 2
    show ?thesis by (rule append_elem_ok [OF wf 2(2) c(2,1) 2(3) k(1,2,3) 2(4) r [unfolded 2(1)] refl])
  qed
qed

lemmas is_kind_defs = btf_is_composite_def btf_is_enum_def btf_is_enum64_def btf_is_func_proto_def btf_is_datasec_def
  btf_is_loc_param_def btf_is_loc_proto_def btf_is_locsec_def

lemma exec_elem_ok:
  assumes wf: "build_wf btf" "name_arg name" and r: "exec_call env btf c = (r, btf')" and c: "call_elem c = Some (kinds, name, fill, kf)"
  shows "call_ok btf c r btf'"
proof -
  note rule1 = guarded_elem_ok [OF wf r c, where upd = btf_type_inc_vlen]
  note simps = is_kind_defs elem_size_def add_elem_defs Let_def
  show ?thesis
  proof (cases c)
    case (AddFuncParam n i)
    show ?thesis by (rule rule1 [where n = 2]) (use c AddFuncParam in \<open>auto simp: simps dest: inc_vlen_info\<close>)
  next
    case (AddEnum64Value n i)
    show ?thesis by (rule rule1 [where n = 3]) (use c AddEnum64Value in \<open>auto simp: simps dest: inc_vlen_info\<close>)
  next
    case (AddDatasecVarInfo a b d)
    show ?thesis by (rule rule1 [where n = 3]) (use c AddDatasecVarInfo in \<open>auto simp: simps dest: inc_vlen_info\<close>)
  next
    case (AddLocParamValue a)
    show ?thesis by (rule rule1 [where n = 1]) (use c AddLocParamValue in \<open>auto simp: simps dest: inc_vlen_info\<close>)
  next
    case (AddLocProtoParam a)
    show ?thesis by (rule rule1 [where n = 1]) (use c AddLocProtoParam in \<open>auto simp: simps dest: inc_vlen_info\<close>)
  next
    case (AddLocsecLoc a b d)
    show ?thesis by (rule rule1 [where n = 3]) (use c AddLocsecLoc in \<open>auto simp: simps dest: inc_vlen_info\<close>)
  next
    case (AddEnumValue n v)
    show ?thesis by (rule guarded_elem_ok [OF wf r c, where upd = "enum_value_info v" and n = 2])
      (use c AddEnumValue in \<open>auto simp: simps dest: enum_value_info_eq\<close>)
  next
    case (AddField n i off bits)
    define bf where "bf \<longleftrightarrow> bits \<noteq> 0 \<or> off mod 8 \<noteq> 0"
    have e: "exec_call env btf c = no_value (btf__add_field env btf n i off bits)" "kf = bf" "n = name" "kinds = {4, 5}"
      "fill = (\<lambda>m. [m, i, off OR push_bit 24 bits])"
      using c unfolding AddField by (simp_all add: bf_def)
    show ?thesis
      by (rule guarded_elem_ok [OF wf r c, where n = 3 and upd = "\<lambda>t. Inr (btf_type_info (btf_kind t) (btf_vlen t + 1) (bf \<or> btf_kflag t))"])
        (unfold e btf__add_field_def Let_def bf_def [symmetric],
         auto simp: AddField btf_is_composite_def elem_size_def disj_commute)
  qed (use c in simp_all)
qed

lemma exec_call_ok:
  assumes "build_wf btf" "name_arg (call_name c)" "exec_call env btf c = (r, btf')"
  shows "call_ok btf c r btf'"
proof (cases "call_type c")
  case None
  show ?thesis
  proof (cases "call_elem c")
    case (Some x)
    then obtain kinds name fill kf where x: "call_elem c = Some (kinds, name, fill, kf)" by (cases x) auto
    then have "call_name c = name" using None by (auto simp: call_name_def split: btf_call.split)
    then show ?thesis using exec_elem_ok [OF assms(1) _ assms(3) x] assms(2) by simp
  next
    case e: None
    then obtain s where "c = AddStr s" using None by (cases c) auto
    then have s: "btf__add_str env btf s = (r, btf')" "0 \<in> set s" "length s < 2 ^ 63" "call_name c = Some s"
      using assms by (simp_all add: call_name_def name_arg_def)
    note a = add_str_build [OF assms(1) s(2,3,1)]
    show ?thesis using a s(4) None e by (auto simp: call_ok_def call_effect_def split: sum.splits)
  qed
next
  case (Some x)
  then obtain name ws where x: "call_type c = Some (name, ws)" by (cases x) auto
  then have n: "call_name c = name" by (auto simp: call_name_def split: btf_call.split)
  show ?thesis
  proof (cases "(\<exists>n k. c = AddFwd n k \<and> k \<noteq> BTF_FWD_ENUM) \<or> (\<exists>n l i. c = AddFunc n l i)")
    case True
    have na: "name_arg name" using assms(2) n by simp
    from True consider k where "c = AddFwd name k" "k \<noteq> BTF_FWD_ENUM" | l i where "c = AddFunc name l i" using x by auto
    then show ?thesis
    proof cases
      case 1
      then have x': "call_type c = Some (name, [btf_type_info 7 0 (k = BTF_FWD_UNION), 0])" by simp
      show ?thesis using assms(1,3) 1 with_info_effect [OF assms(1) na _ _ x', of env r btf']
        by (auto simp: btf__add_fwd_def call_ok_error split: if_splits btf_fwd_kind.splits)
    next
      case 2
      then have x': "call_type c = Some (name, [btf_type_info 12 l False, i])" by simp
      show ?thesis using assms(1,3) 2 with_info_effect [OF assms(1) na _ _ x', of env r btf']
        by (auto simp: btf__add_func_def call_ok_error split: if_splits)
    qed
  next
    case False
    have "appended btf name (\<lambda>off. off # ws) r btf'"
    proof (cases "\<exists>n. c = AddFwd n BTF_FWD_ENUM")
      case True
      then show ?thesis using assms n x
        by (auto simp: btf__add_fwd_def add_type_defs appended_error append_kind_ok split: if_splits)
    next
      case no: False
      show ?thesis by (rule exec_type_ok [OF assms(1) _ assms(3) x]) (use False no n assms(2) in auto)
    qed
    then show ?thesis using appended_effect [OF x] by (simp add: call_ok_def)
  qed
qed

text \<open>
  C10. Every call on a well-formed object, under any outcome of the allocations, leaves a well-formed object
  in which every string offset denotes what it did. A failure leaves the types as they were. On success a
  function that adds a type returns the next id and appends exactly the type that its
  arguments describe, under a name that reads back as the one given; a function that adds an element
  requires that the last type is of its kind, adds one to the number of its elements and
  appends exactly that element; nothing else changes.
\<close>

theorem btf_call_effect:
  assumes "build_wf btf" and "name_arg (call_name c)" and "exec_call env btf c = (r, btf')"
  shows "build_wf btf' \<and> grown btf btf' \<and>
    (case r of Inl e \<Rightarrow> type_list btf' = type_list btf | Inr i \<Rightarrow> call_effect btf c i btf')"
  using exec_call_ok [OF assms] by (simp add: call_ok_def)

lemma empty_btf_build: "build_wf empty_btf" "type_list empty_btf = []"
  using empty_btf_strs
  by (simp_all add: build_wf_def types_wf_def type_list_def empty_btf_own Let_def)

lemma add_ptr_result: "fst (exec_call all_ok empty_btf (AddPtr 0)) = Inr 1"
proof -
  obtain ss where "btf_ensure_modifiable (all_ok 0) empty_btf =
      Inr (Btf None (btf_invalidate_raw_data ((own empty_btf)\<lparr>b_strs := [], b_strs_set := Some ss, b_strs_deduped := True, b_modifiable := True\<rparr>)))"
    by (rule empty_btf_modifiable)
  then show ?thesis
    by (simp add: btf__add_ptr_def btf_add_ref_kind_def validate_type_id_def append_type_def add_name_def str_is_empty_def
        st_bind_def btf_commit_type_def btf_add_type_idx_entry_def btf_add_type_mem_def all_ok_def Let_def
        btf_invalidate_raw_data_def empty_btf_own BTF_MAX_NR_TYPES_def update_type_len_simps)
qed

lemma add_ptr_run: "type_list (snd (exec_call all_ok empty_btf (AddPtr 0))) = [[0, 0x02000000, 0]]"
proof -
  obtain r btf' where r: "exec_call all_ok empty_btf (AddPtr 0) = (r, btf')" by fastforce
  then show ?thesis using exec_call_ok [OF empty_btf_build(1) _ r] add_ptr_result
    by (simp add: call_ok_def call_name_def call_effect_def empty_btf_build empty_btf_own names_def str_is_empty_def btf_type_info_def)
qed

theorem btf_call_effect_witness:
  "fst (exec_call all_ok empty_btf (AddPtr 0)) = Inr 1 \<and>
   type_list (snd (exec_call all_ok empty_btf (AddPtr 0))) = [[0, 0x02000000, 0]]"
proof -
  obtain r btf' where r: "exec_call all_ok empty_btf (AddPtr 0) = (r, btf')" by fastforce
  then have "r = Inr 1" using add_ptr_result by simp
  then show ?thesis using btf_call_effect [OF empty_btf_build(1) _ r] r
    by (simp add: call_name_def call_effect_def empty_btf_build empty_btf_own names_def str_is_empty_def btf_type_info_def)
qed

section \<open>Built objects\<close>

text \<open>
  The objects that calls build from empty ones, split or not. The strings and types below a split
  object must leave room for the 32-bit offsets and ids of the object itself.
\<close>

inductive built :: "btf \<Rightarrow> bool" where
  new: "btf_new_empty c r None add_layout = Inr btf \<Longrightarrow> built btf"
| new_split: "built base \<Longrightarrow> unat (btf__type_cnt base) \<le> 2 ^ 31 \<Longrightarrow> length (all_strs base) \<le> 2 ^ 31 \<Longrightarrow>
    btf_new_empty c r (Some base) add_layout = Inr btf \<Longrightarrow> built btf"
| call: "built btf \<Longrightarrow> name_arg (call_name c) \<Longrightarrow> exec_call env btf c = (r, btf') \<Longrightarrow> built btf'"

lemma new_empty_build:
  assumes "btf_new_empty c r base add_layout = Inr btf"
    and "case base of None \<Rightarrow> True | Some b \<Rightarrow> build_wf b \<and> unat (btf__type_cnt b) \<le> 2 ^ 31 \<and> btf__type_cnt b \<noteq> 0 \<and> length (all_strs b) \<le> 2 ^ 31"
  shows "build_wf btf" "type_list btf = []"
proof -
  define b where "b = own btf"
  have ok: "c" "r" using assms(1) by (auto simp: btf_new_empty_def split: if_split_asm)
  note n = assms(1) [unfolded btf_new_empty_def Let_def, simplified ok, simplified, symmetric]
  have b: "btf = Btf base b" "b_types b = []" "b_type_offs b = []" "b_nr_types b = 0" "h_type_len (b_hdr b) = 0"
    "b_start_id b = btf_start_id base" "b_start_str_off b = btf_start_str_off base" "\<not> b_modifiable b" "b_strs_set b = None"
    "h_str_len (b_hdr b) = (if base = None then 1 else 0)" "b_strs b = (if base = None then [0] else [])"
    by (simp_all add: b_def n btf_new_obj_def btf_hdr_zero_def)
  have "strs_wf btf" using assms(2) b
    by (auto simp: part_strs_wf_def btf_start_str_off_def all_strs_length build_wf_def unat_add_u32 add.commute split: option.splits)
  then show "build_wf btf" using assms(2) b by (auto simp: build_wf_def types_wf_def Let_def btf_start_id_def split: option.splits)
  show "type_list btf = []" using b by (simp add: type_list_def)
qed

lemma type_cnt_nonzero: "build_wf btf \<Longrightarrow> btf__type_cnt btf \<noteq> 0"
proof -
  assume wf: "build_wf btf"
  then have "unat (b_start_id (own btf)) + unat (b_nr_types (own btf)) < 2 ^ 32" "0 < unat (b_start_id (own btf))"
    using types_wfD(1,2) [of btf] by (auto simp: build_wf_def unat_gt_0)
  then have "unat (btf__type_cnt btf) \<noteq> 0" by (simp add: btf__type_cnt_def unat_add_u32)
  then show ?thesis by auto
qed

definition known_kind :: "u32 list \<Rightarrow> bool" where
  "known_kind ws \<longleftrightarrow> btf_kind (type_of_words ws) \<in> {1..22}"

lemma known_kind_info: "unat v < 2 ^ 24 \<Longrightarrow> k \<in> {1..22} \<Longrightarrow> known_kind (off # btf_type_info k v kf # ws)"
proof -
  assume a: "unat v < 2 ^ 24" "k \<in> {1..22}"
  then have "unat k < 2 ^ 7" by (simp add: word_le_nat_alt)
  then show ?thesis using a by (simp add: known_kind_def)
qed

lemma call_type_kind:
  assumes "exec_call env btf c = (Inr i, btf')" "call_type c = Some (name, ws)"
  shows "known_kind (off # ws)"
proof (cases "\<exists>n l i. c = AddFunc n l i")
  case True
  then show ?thesis using assms
    by (auto simp: btf__add_func_def split: if_splits intro!: known_kind_info)
next
  case False
  then show ?thesis using assms(2) by (cases c) (auto intro!: known_kind_info)
qed

lemma type_list_sizes:
  assumes "types_wf btf" "ws \<in> set (type_list btf)"
  shows "3 \<le> length ws" "btf_type_size btf (type_of_words ws) = 4 * int (length ws)"
proof -
  obtain off where off: "off \<in> set (b_type_offs (own btf))" "ws = type_words btf (unat off)"
    using assms(2) by (auto simp: type_list_def)
  define n where "n = unat off div 4"
  define k where "k = nat (size_at btf (unat off)) div 4"
  note t = types_wfD [OF assms(1)]
  have al: "unat off = 4 * n" using tiles_aligned [OF t(4) _ off(1)] by (simp add: n_def)
  have s12: "12 \<le> size_at btf (unat off)" by (rule tiles_to_size [OF t(4) off(1)])
  then have k: "nat (size_at btf (unat off)) = 4 * k" using size_at_dvd4 by (simp add: k_def)
  have "unat off + nat (size_at btf (unat off)) \<le> 4 * length (b_types (own btf))"
    using tiles_to_bound [OF t(4) off(1)] t(3) by simp
  then have le: "n + k \<le> length (b_types (own btf))" using al k by simp
  have k3: "3 \<le> k" using s12 k by simp
  have ws: "ws = take k (drop n (b_types (own btf)))" using off(2) by (simp add: type_words_def k_def n_def)
  then have len: "length ws = k" using le by simp
  then show "3 \<le> length ws" using k3 by simp
  have "t_info (type_of_words ws) = t_info (type_at btf (unat off))"
    using k3 le by (simp add: ws type_of_words_def n_def)
  then have "btf_type_size btf (type_of_words ws) = size_at btf (unat off)"
    by (intro type_size_layouts) simp_all
  then show "btf_type_size btf (type_of_words ws) = 4 * int (length ws)" using k s12 len by simp
qed

lemma known_kind_update:
  assumes "known_kind ws" "3 \<le> length ws" "btf_vlen (type_of_words ws) < BTF_MAX_VLEN"
  shows "known_kind (ws[1 := btf_type_info (btf_kind (type_of_words ws)) (btf_vlen (type_of_words ws) + 1) kf] @ xs)"
proof -
  let ?v = "btf_vlen (type_of_words ws)"
  have "unat ?v + 1 < 2 ^ 24" using assms(3) by (simp add: word_less_nat_alt BTF_MAX_VLEN_def)
  then have v: "unat (?v + 1) < 2 ^ 24" by (simp add: unat_add_u32)
  obtain a b c where ws: "ws = a # b # c" using assms(2) by (cases ws; cases "tl ws") auto
  show ?thesis using known_kind_info [OF v] assms(1) by (simp add: ws known_kind_def)
qed

lemma call_known_kinds:
  assumes wf: "build_wf btf" "name_arg (call_name c)" and r: "exec_call env btf c = (r, btf')"
    and k: "\<forall>ws \<in> set (type_list btf). known_kind ws"
  shows "\<forall>ws \<in> set (type_list btf'). known_kind ws"
proof -
  note ok = exec_call_ok [OF wf r]
  show ?thesis
  proof (cases r)
    case (Inl e)
    then show ?thesis using ok k by (simp add: call_ok_def)
  next
    case (Inr i)
    have ef: "call_effect btf c i btf'" using ok Inr by (simp add: call_ok_def)
    show ?thesis
    proof (cases "call_type c")
      case (Some x)
      obtain name ws where x: "call_type c = Some (name, ws)" using Some by (cases x) auto
      then obtain off ws' where o: "type_list btf' = type_list btf @ [off # ws']"
        "ws' = ws \<or> ws' = btf_type_info (btf_kind (type_of_words (off # ws))) 0 False # tl ws"
        using ef by (auto simp: call_effect_def)
      note kk = call_type_kind [OF r [unfolded Inr] x, of off]
      have "known_kind (off # ws')" using o(2) kk known_kind_info [of 0] by (auto simp: known_kind_def)
      then show ?thesis using o(1) k by auto
    next
      case None
      show ?thesis
      proof (cases "call_elem c")
        case (Some x)
        obtain kinds name fill kf where x: "call_elem c = Some (kinds, name, fill, kf)" using Some by (cases x) auto
        from ef obtain off ts ws where o: "type_list btf = ts @ [ws]" "btf_vlen (type_of_words ws) < BTF_MAX_VLEN"
          "type_list btf' = ts @ [ws[1 := btf_type_info (btf_kind (type_of_words ws)) (btf_vlen (type_of_words ws) + 1)
              (btf_kflag (type_of_words ws) \<or> kf)] @ fill off]"
          using None x by (auto simp: call_effect_def Let_def)
        have "known_kind ws" "3 \<le> length ws" using k o(1) wf type_list_sizes(1) [of btf ws] by (simp_all add: build_wf_def)
        then have "known_kind (ws[1 := btf_type_info (btf_kind (type_of_words ws)) (btf_vlen (type_of_words ws) + 1)
            (btf_kflag (type_of_words ws) \<or> kf)] @ fill off)"
          using o(2) by (intro known_kind_update)
        then show ?thesis using o k by auto
      next
        case e: None
        then show ?thesis using ef None k by (simp add: call_effect_def)
      qed
    qed
  qed
qed

lemma built_ok: "built btf \<Longrightarrow> build_wf btf \<and> (\<forall>ws \<in> set (type_list btf). known_kind ws)"
proof (induction rule: built.induct)
  case (new c r add_layout btf)
  then show ?case using new_empty_build [OF new] by simp
next
  case (new_split base c r add_layout btf)
  then show ?case using new_empty_build [OF new_split(4)] type_cnt_nonzero by simp
next
  case (call btf c env r btf')
  then show ?case using exec_call_ok [of btf c env r btf'] call_known_kinds [of btf c env r btf'] by (simp add: call_ok_def)
qed

text \<open>
  C11. Every object that calls build from an empty one, on top of a base or not, with any failures on the
  way, is well typed: it consists of the types of its list one after the other, with nothing in between, each
  of one of the 22 kinds and exactly as long as the size that its \<open>info\<close> word gives; there are as many
  as the object counts, and the table of strings is well formed.
\<close>

theorem built_well_typed:
  assumes "built btf"
  shows "concat (type_list btf) = b_types (own btf) \<and> unat (h_type_len (b_hdr (own btf))) = 4 * length (b_types (own btf)) \<and>
    length (type_list btf) = unat (b_nr_types (own btf)) \<and> strs_wf btf \<and>
    (\<forall>ws \<in> set (type_list btf). btf_kind (type_of_words ws) \<in> {1..22} \<and>
       btf_type_size btf (type_of_words ws) = 4 * int (length ws))"
proof -
  have wf: "strs_wf btf" "types_wf btf" and k: "\<forall>ws \<in> set (type_list btf). known_kind ws"
    using built_ok [OF assms] by (simp_all add: build_wf_def)
  have "length (type_list btf) = unat (b_nr_types (own btf))" using types_wfD(1) [OF wf(2)] by (simp add: type_list_def)
  then show ?thesis using wf k type_list_concat [OF wf(2)] type_list_sizes(2) [OF wf(2)] types_wfD(3) [OF wf(2)]
    by (auto simp: known_kind_def)
qed

theorem built_well_typed_witness:
  "\<exists>btf. built btf \<and> type_list btf = [[0, 0x02000000, 0]] \<and> b_types (own btf) = [0, 0x02000000, 0]"
proof -
  obtain r btf where r: "exec_call all_ok empty_btf (AddPtr 0) = (r, btf)" by fastforce
  have e: "built empty_btf" by (rule built.new [of True True False]) (simp add: empty_btf_def btf__new_empty_def btf_new_empty_def Let_def)
  have b: "built btf" by (rule built.call [OF e _ r]) (simp add: call_name_def)
  have "type_list btf = [[0, 0x02000000, 0]]" using add_ptr_run r by simp
  then show ?thesis using b built_well_typed [OF b] by auto
qed

end
