(* ===== verification/BtfRoundtrip.thy ===== *)
theory BtfRoundtrip
  imports BtfCalls
begin

text \<open>
  The raw data of an object, in either byte order, parses to the same object: the header,
  the words of the types and the strings are written and read back section by section.
\<close>

section \<open>Words and layouts in memory\<close>

lemma words_le_le32: "words_le (concat (map le32 ws) @ rest) = ws @ words_le rest"
proof (induction ws)
  case (Cons w ws)
  obtain a b c d where "le32 w = [a, b, c, d]" by (simp add: le32_def)
  then show ?case using Cons rd32_le32 [of w] by simp
qed simp

lemma words_le_concat [simp]: "words_le (concat (map le32 ws)) = ws"
  using words_le_le32 [of ws "[]"] by simp

lemma length_concat_le32 [simp]: "length (concat (map le32 ws)) = 4 * length ws"
  by (induction ws) simp_all

lemma layouts_of_to_bytes [simp]: "layouts_of_bytes (layouts_to_bytes ls) = ls"
proof (induction ls)
  case (Cons l ls)
  obtain c d where "le16 (lay_flags l) = [c, d]" by (simp add: le16_def)
  then show ?case using Cons rd16_le16 [of "lay_flags l"] by (simp add: layouts_to_bytes_def)
qed (simp add: layouts_to_bytes_def)

lemma length_layouts_to_bytes [simp]: "length (layouts_to_bytes ls) = 4 * length ls"
  by (induction ls) (simp_all add: layouts_to_bytes_def)

lemma rd_append:
  "rd16 (le16 w @ b) 0 = w" "rd32 (le32 v @ b) 0 = v"
  "0 < i \<Longrightarrow> rd32 (x # b) i = rd32 b (i - 1)"
  "length a \<le> i \<Longrightarrow> rd32 (a @ b) i = rd32 b (i - length a)" "length a \<le> i \<Longrightarrow> (a @ b) ! i = b ! (i - length a)"
proof -
  show "rd16 (le16 w @ b) 0 = w" using rd16_le16 [of w] by (simp add: rd16_def le16_def)
  show "rd32 (le32 v @ b) 0 = v" using rd32_le32 [of v] by (simp add: rd32_def le32_def)
  show "0 < i \<Longrightarrow> rd32 (x # b) i = rd32 b (i - 1)" by (simp add: rd32_def nth_Cons' Suc_diff_le)
  show "length a \<le> i \<Longrightarrow> rd32 (a @ b) i = rd32 b (i - length a)" by (simp add: rd32_def nth_append Suc_diff_le)
  show "length a \<le> i \<Longrightarrow> (a @ b) ! i = b ! (i - length a)" by (simp add: nth_append)
qed

lemma hdr_of_to_bytes: "hdr_of_bytes (hdr_to_bytes h @ rest) = h"
  unfolding hdr_of_bytes_def hdr_to_bytes_def append_assoc
  by (simp add: rd_append)

section \<open>Byte swaps of types\<close>

lemma kind_cases:
  "k \<in> {1..22} \<Longrightarrow> k \<in> {1, 2, 3, 4, 5, 6, 7, 8, 9, 10, 11, 12, 13, 14, 15, 16, 17, 18, 19, 20, 21, 22}" for k :: u32
proof -
  assume "k \<in> {1..22}"
  then have "1 \<le> unat k \<and> unat k \<le> 22" by (auto simp: word_le_nat_alt)
  then have "unat k \<in> {1, 2, 3, 4, 5, 6, 7, 8, 9, 10, 11, 12, 13, 14, 15, 16, 17, 18, 19, 20, 21, 22}"
    unfolding insert_iff empty_iff by presburger
  then show ?thesis by (simp add: word_unat_eq_iff)
qed

lemma bswap_rest_eq:
  assumes "known_kind ws" "btf_type_size btf (type_of_words ws) = 4 * int j"
  shows "btf_bswap_type_rest ws = Inr (take 3 ws @ bswap_words (j - 3) (drop 3 ws))"
proof -
  have k: "btf_kind (type_of_words ws) \<in> {1, 2, 3, 4, 5, 6, 7, 8, 9, 10, 11, 12, 13, 14, 15, 16, 17, 18, 19, 20, 21, 22}"
    using assms(1) unfolding known_kind_def by (rule kind_cases)
  define v where "v = unat (btf_vlen (type_of_words ws))"
  have u: "uint (btf_vlen (type_of_words ws)) = int v" by (simp add: v_def)
  have e: "12 = 4 * int j \<Longrightarrow> j - 3 = 0" "16 = 4 * int j \<Longrightarrow> j - 3 = 1" "24 = 4 * int j \<Longrightarrow> j - 3 = 3"
    "12 + int v * 12 = 4 * int j \<Longrightarrow> j - 3 = 3 * v" "12 + int v * 8 = 4 * int j \<Longrightarrow> j - 3 = 2 * v"
    "12 + int v * 4 = 4 * int j \<Longrightarrow> j - 3 = v" "16 + int v * 4 = 4 * int j \<Longrightarrow> j - 3 = 1 + v"
    by linarith+
  have z: "Inr ws = Inr (take 3 ws @ bswap_words 0 (drop 3 ws))" by (simp add: bswap_words_def)
  note sz = assms(2) [unfolded btf_type_size_def Let_def u]
  show ?thesis
    using k unfolding insert_iff empty_iff
    by (elim disjE; use sz e z in \<open>simp add: btf_bswap_type_rest_def Let_def v_def [symmetric]\<close>)
qed

text \<open>Tiles of known kinds over a list of words.\<close>

definition known_tiles :: "btf \<Rightarrow> u32 list \<Rightarrow> nat \<Rightarrow> u32 list \<Rightarrow> bool" where
  "known_tiles btf ws n offs \<longleftrightarrow> 4 dvd n \<and>
     tiles_to (\<lambda>m. btf_type_size btf (type_of_words (drop (m div 4) ws))) n offs (4 * length ws) \<and>
     (\<forall>off \<in> set offs. known_kind (drop (unat off div 4) ws))"

lemma known_tiles_Cons:
  assumes "known_tiles btf ws n (off # offs)"
  obtains k j where "n = 4 * k" "unat off = n" "3 \<le> j" "k + j \<le> length ws"
    "btf_type_size btf (type_of_words (drop k ws)) = 4 * int j" "known_kind (drop k ws)" "known_tiles btf ws (4 * (k + j)) offs"
proof -
  define k where "k = n div 4"
  define f where "f = (\<lambda>m. btf_type_size btf (type_of_words (drop (m div 4) ws)))"
  have n: "n = 4 * k" using assms by (simp add: known_tiles_def k_def)
  have t: "unat off = n" "12 \<le> f n" "tiles_to f (n + nat (f n)) offs (4 * length ws)"
    using assms by (simp_all add: known_tiles_def f_def)
  obtain j where j: "f n = 4 * int j"
  proof -
    have "4 dvd f n" using t(2) unfolding f_def by (intro type_size_dvd4) simp
    then obtain i where "f n = 4 * i" by blast
    then show ?thesis using t(2) that [of "nat i"] by simp
  qed
  have nn: "n + nat (f n) = 4 * (k + j)" using n j by simp
  have "4 * (k + j) \<le> 4 * length ws" using tiles_to_le [OF t(3)] nn by simp
  then have kj: "k + j \<le> length ws" "3 \<le> j" using t(2) j by simp_all
  have kt: "known_tiles btf ws (4 * (k + j)) offs" "known_kind (drop k ws)"
    using assms t(1,3) nn n by (simp_all add: known_tiles_def f_def)
  show ?thesis by (rule that [of k j]) (use n t(1) kj j kt in \<open>simp_all add: f_def\<close>)
qed

text \<open>Writing in the other byte order swaps every word.\<close>

lemma swap_types_eq:
  assumes "known_tiles btf ws (4 * k) offs" "k \<le> length ws"
  shows "swap_types offs (map bswap_32 (take k ws) @ drop k ws) = Inr (map bswap_32 ws)"
  using assms
proof (induction offs arbitrary: k)
  case Nil
  then have "k = length ws" by (simp add: known_tiles_def)
  then show ?case by simp
next
  case (Cons off offs)
  obtain j where j: "unat off = 4 * k" "3 \<le> j" "k + j \<le> length ws" "btf_type_size btf (type_of_words (drop k ws)) = 4 * int j"
    "known_kind (drop k ws)" "known_tiles btf ws (4 * (k + j)) offs"
    using known_tiles_Cons [OF Cons.prems(1)] by fastforce
  let ?cur = "map bswap_32 (take k ws) @ drop k ws"
  have d: "drop k ?cur = drop k ws" "take k ?cur = map bswap_32 (take k ws)" using Cons.prems(2) by simp_all
  have "take 3 (take j (drop k ws)) = take 3 (drop k ws)" using j(2) by (simp add: min_def)
  have sw: "btf_bswap_type_base (take 3 (drop k ws) @ bswap_words (j - 3) (drop 3 (drop k ws))) =
      map bswap_32 (take j (drop k ws)) @ drop j (drop k ws)"
  proof -
    have "take j (drop k ws) = take 3 (drop k ws) @ take (j - 3) (drop 3 (drop k ws))"
      using j(2) take_add [of 3 "j - 3" "drop k ws"] by simp
    moreover have "drop j (drop k ws) = drop (j - 3) (drop 3 (drop k ws))" using j(2) by simp
    moreover have "length (take 3 (drop k ws)) = 3" using j(2,3) by simp
    ultimately show ?thesis by (simp add: btf_bswap_type_base_def bswap_words_def)
  qed
  have "map bswap_32 (take k ws) @ map bswap_32 (take j (drop k ws)) @ drop j (drop k ws) =
      map bswap_32 (take (k + j) ws) @ drop (k + j) ws"
    unfolding take_add map_append drop_drop append_assoc by (simp only: add.commute)
  note cat = this
  have off: "unat off div 4 = k" using j(1) by simp
  show ?case
    unfolding swap_types.simps Let_def off d bswap_rest_eq [OF j(5,4)] res_bind_Inr sw cat by (rule Cons.IH [OF j(6,3)])
qed

lemma swap_types_all: "known_tiles btf ws 0 offs \<Longrightarrow> swap_types offs ws = Inr (map bswap_32 ws)"
  using swap_types_eq [of btf ws 0 offs] by simp

text \<open>Parsing finds the types back.\<close>

definition words_upto :: "bool \<Rightarrow> nat \<Rightarrow> u32 list \<Rightarrow> u32 list" where
  "words_upto swapped k ws = take k ws @ (if swapped then map bswap_32 (drop k ws) else drop k ws)"

lemma three_words: "3 \<le> length ws \<Longrightarrow> \<exists>x y z r. ws = x # y # z # r"
  by (cases ws; cases "tl ws"; cases "tl (tl ws)") auto

lemma drop_words_upto:
  "k + j \<le> length ws \<Longrightarrow> drop k (words_upto swapped (k + j) ws) =
     take j (drop k ws) @ (if swapped then map bswap_32 (drop j (drop k ws)) else drop j (drop k ws))"
  by (auto simp: words_upto_def take_drop add.commute)

lemma parse_step_words:
  fixes swapped :: bool
  assumes "3 \<le> j" "k + j \<le> length ws" "btf_type_size btf (type_of_words (drop k ws)) = 4 * int j" "known_kind (drop k ws)"
  defines "w \<equiv> (\<lambda>w. if swapped then btf_bswap_type_base w else w) (drop k (words_upto swapped k ws))"
  shows "t_info (type_of_words w) = t_info (type_of_words (drop k ws))"
    "(if swapped then btf_bswap_type_rest w else Inr w) = Inr (drop k (words_upto swapped (k + j) ws))"
proof -
  have "3 \<le> length (drop k ws)" using assms(1,2) by simp
  then obtain x y z r where d: "drop k ws = x # y # z # r" using three_words by blast
  have w: "w = x # y # z # (if swapped then map bswap_32 r else r)"
    using assms(2) unfolding w_def words_upto_def by (auto simp: d btf_bswap_type_base_def bswap_words_def)
  show i: "t_info (type_of_words w) = t_info (type_of_words (drop k ws))" by (simp add: w d)
  have sz: "btf_type_size btf (type_of_words w) = 4 * int j" using assms(3) type_size_layouts [OF refl refl refl i] by simp
  have kk: "known_kind w" using assms(4) i by (simp add: known_kind_def btf_kind_def)
  have "take 3 w @ bswap_words (j - 3) (drop 3 w) = drop k (words_upto swapped (k + j) ws)" if swapped
  proof -
    have "take j (drop k ws) = x # y # z # take (j - 3) r" "drop j (drop k ws) = drop (j - 3) r"
      using assms(1) d by (simp_all add: take_Cons' drop_Cons' numeral_3_eq_3)
    then show ?thesis using that by (simp add: w drop_words_upto [OF assms(2)] bswap_words_def drop_map take_map o_def)
  qed
  then show "(if swapped then btf_bswap_type_rest w else Inr w) = Inr (drop k (words_upto swapped (k + j) ws))"
    using bswap_rest_eq [OF kk sz] append_take_drop_id [of j "drop k ws"] w d
    by (cases swapped) (simp_all only: drop_words_upto [OF assms(2)] if_True if_False)
qed

lemma parse_types_complete:
  assumes "known_tiles btf ws (4 * k) offs" "k \<le> length ws"
    and "h_type_len (b_hdr (own btf)) = of_nat (4 * length ws)" "4 * length ws < 2 ^ 32"
    and "b_types (own btf) = words_upto (b_swapped_endian (own btf)) k ws"
    and "unat (b_nr_types (own btf)) = length (b_type_offs (own btf))" "length (b_type_offs (own btf)) + length offs < 2 ^ 31"
  shows "btf_parse_types (\<lambda>_. True) btf (4 * k) =
    Inr (Btf (base_btf btf) ((own btf)\<lparr>b_types := ws, b_type_offs := b_type_offs (own btf) @ offs,
      b_nr_types := of_nat (length (b_type_offs (own btf)) + length offs)\<rparr>))"
  using assms
proof (induction offs arbitrary: k btf)
  case Nil
  have k: "k = length ws" using Nil.prems(1) by (simp add: known_tiles_def)
  have "unat (h_type_len (b_hdr (own btf))) = 4 * k" using Nil.prems(3,4) k by (simp only: unat_of_nat_u32)
  moreover have "b_nr_types (own btf) = of_nat (length (b_type_offs (own btf)))" using Nil.prems(6) by (metis of_nat_unat ucast_id)
  ultimately show ?case using Nil.prems(5) k
    by (subst btf_parse_types.simps) (cases btf, simp add: Let_def words_upto_def)
next
  case (Cons off offs)
  let ?b = "own btf"
  obtain j where j: "unat off = 4 * k" "3 \<le> j" "k + j \<le> length ws" "btf_type_size btf (type_of_words (drop k ws)) = 4 * int j"
    "known_kind (drop k ws)" "known_tiles btf ws (4 * (k + j)) offs"
    using known_tiles_Cons [OF Cons.prems(1)] by fastforce
  have tl: "unat (h_type_len (b_hdr ?b)) = 4 * length ws" using Cons.prems(3,4) by (simp only: unat_of_nat_u32)
  note w = parse_step_words [OF j(2-5), of "b_swapped_endian ?b"]
  define w' where "w' = (if b_swapped_endian ?b then btf_bswap_type_base (drop k (b_types ?b)) else drop k (b_types ?b))"
  have w1: "btf_type_size btf (type_of_words w') = 4 * int j"
    unfolding w'_def Cons.prems(5) using type_size_layouts [OF refl refl refl w(1)] j(4) by simp
  have w2: "(if b_swapped_endian ?b then btf_bswap_type_rest w' else Inr w') = Inr (drop k (words_upto (b_swapped_endian ?b) (k + j) ws))"
    unfolding w'_def Cons.prems(5) using w(2) by simp
  define b1 where "b1 = ?b\<lparr>b_types := words_upto (b_swapped_endian ?b) (k + j) ws,
    b_type_offs := b_type_offs ?b @ [of_nat (4 * k)], b_nr_types := b_nr_types ?b + 1\<rparr>"
  have nr: "unat (b_nr_types ?b + 1) = length (b_type_offs ?b) + 1"
    using Cons.prems(6,7) by (simp add: unat_add_u32)
  have tk: "take k (b_types ?b) @ drop k (words_upto (b_swapped_endian ?b) (k + j) ws) = words_upto (b_swapped_endian ?b) (k + j) ws"
    using j(3) append_take_drop_id [of k "take (k + j) ws"] by (simp add: Cons.prems(5) words_upto_def)
  have add: "btf_add_type_idx_entry True (?b\<lparr>b_types := words_upto (b_swapped_endian ?b) (k + j) ws\<rparr>) (of_nat (4 * k)) =
      Inr (?b\<lparr>b_types := words_upto (b_swapped_endian ?b) (k + j) ws, b_type_offs := b_type_offs ?b @ [of_nat (4 * k)]\<rparr>)"
    using Cons.prems(6,7) by (simp add: btf_add_type_idx_entry_def BTF_MAX_NR_TYPES_unat)
  have "btf_parse_types (\<lambda>_. True) btf (4 * k) = btf_parse_types (\<lambda>_. True) (Btf (base_btf btf) b1) (4 * (k + j))"
  proof -
    have c: "4 * k div 4 = k" "4 * k + 12 \<le> unat (h_type_len (b_hdr ?b))" "\<not> 4 * int j < 0" "nat (4 * int j) = 4 * j"
      "\<not> unat (h_type_len (b_hdr ?b)) < 4 * k + 4 * j" using tl j(2,3) by simp_all
    show ?thesis
      by (subst btf_parse_types.simps)
        (simp only: Let_def c w'_def [symmetric] w1 w2 tk add if_True if_False sum.case b1_def distrib_left, simp)
  qed
  also have "\<dots> = Inr (Btf (base_btf btf) (b1\<lparr>b_types := ws, b_type_offs := b_type_offs b1 @ offs,
      b_nr_types := of_nat (length (b_type_offs b1) + length offs)\<rparr>))"
  proof -
    have "btf_type_size (Btf (base_btf btf) b1) t = btf_type_size btf t" for t
      by (rule type_size_layouts) (simp_all add: b1_def)
    then have "known_tiles (Btf (base_btf btf) b1) ws (4 * (k + j)) offs" using j(6) by (simp add: known_tiles_def)
    then show ?thesis
      using Cons.IH [of "Btf (base_btf btf) b1" "k + j"] j(3) Cons.prems(3,4,7) nr by (simp add: b1_def)
  qed
  also have "\<dots> = Inr (Btf (base_btf btf) (?b\<lparr>b_types := ws, b_type_offs := b_type_offs ?b @ off # offs,
      b_nr_types := of_nat (length (b_type_offs ?b) + length (off # offs))\<rparr>))"
  proof -
    have "of_nat (4 * k) = off" using j(1) by (metis of_nat_unat ucast_id)
    then show ?thesis by (simp add: b1_def)
  qed
  finally show ?case .
qed

section \<open>The header\<close>

lemma bswap_hdr_bswap: "btf_bswap_hdr (btf_bswap_hdr h 32) 32 = h"
  by (simp add: btf_bswap_hdr_def Let_def)

lemma hdr_prefix_bytes: "32 \<le> n \<Longrightarrow> hdr_prefix n (hdr_to_bytes h @ rest) = h"
  by (simp add: hdr_prefix_def hdr_of_to_bytes)

lemma parse_hdr_written:
  fixes swap :: bool
  assumes "h_magic h = BTF_MAGIC" "h_hdr_len h = 32" "length rest + 32 < 2 ^ 32" "btf_check_hdr (of_nat (length rest)) h = None"
  defines "data \<equiv> hdr_to_bytes (if swap then btf_bswap_hdr h 32 else h) @ rest"
  shows "btf_parse_hdr (btf_new_obj data base) =
    Inr ((btf_new_obj data base)\<lparr>b_raw := hdr_to_bytes h @ rest, b_swapped_endian := swap, b_hdr := h\<rparr>)"
proof -
  let ?h = "if swap then btf_bswap_hdr h 32 else h"
  have len: "unat (of_nat (length data) :: u32) = length rest + 32"
    using assms(3) unat_of_nat_u32 [of "length data"] by (simp add: data_def)
  have c: "\<not> (of_nat (length data) :: u32) < 24" "\<not> (of_nat (length data) :: u32) < 32"
    "(of_nat (length data) :: u32) - 32 = of_nat (length rest)"
    using len by (simp_all add: word_less_nat_alt) (simp add: data_def)
  have p: "hdr_prefix (length data) data = ?h" by (simp add: data_def hdr_prefix_bytes)
  have m: "h_magic ?h = (if swap then bswap_16 BTF_MAGIC else BTF_MAGIC)" "(if swap then bswap_32 (h_hdr_len ?h) else h_hdr_len ?h) = 32"
    using assms(1,2) by (simp_all add: btf_bswap_hdr_def Let_def)
  have raw: "(if swap then mem_write data 0 (take (if (32 :: u32) \<le> 32 then 32 else 24) (hdr_to_bytes (btf_bswap_hdr ?h 32))) else data) = hdr_to_bytes h @ rest"
    by (simp add: mem_write_def bswap_hdr_bswap data_def)
  have o: "b_raw (btf_new_obj data base) = data" "b_has_hdr_extra (btf_new_obj data base) = False"
    "b_swapped_endian (btf_new_obj data base) = False" by (simp_all add: btf_new_obj_def)
  have rest: "btf_parse_hdr_rest swap 32 ?h (btf_new_obj data base) =
      Inr ((btf_new_obj data base)\<lparr>b_raw := hdr_to_bytes h @ rest, b_swapped_endian := swap, b_hdr := h\<rparr>)"
  proof -
    have pre: "hdr_prefix (unat (32 :: u32)) (hdr_to_bytes h @ rest) = h" by (rule hdr_prefix_bytes) simp
    have ex: "list_ex (\<lambda>c. c \<noteq> 0) (drop 32 (take (unat (32 :: u32)) (hdr_to_bytes h @ rest))) = False" by simp
    show ?thesis
      unfolding btf_parse_hdr_rest_def Let_def o raw c pre ex assms(4) option.case if_False
      using c(2) by (simp add: btf_new_obj_def)
  qed
  have nm: "BTF_MAGIC \<noteq> bswap_16 BTF_MAGIC" by (simp add: BTF_MAGIC_def bswap_magic)
  show ?thesis
    unfolding btf_parse_hdr_def Let_def o p m(1) using c(1) m(2) nm rest by (cases swap) simp_all
qed

section \<open>The sanity check\<close>

lemma same_content_sanity:
  assumes "strs_wf x" "same_content x y"
  shows "btf_sanity_check y = btf_sanity_check x"
proof -
  have st: "same_types x y" "strs_wf y" "all_strs y = all_strs x" using assms(2) by (simp_all add: same_content_def)
  have s: "btf_validate_str y off = btf_validate_str x off" for off
  proof -
    have "map_option cstr (btf__str_by_offset y off) = map_option cstr (btf__str_by_offset x off)"
      unfolding str_by_offset_table [OF assms(1)] str_by_offset_table [OF st(2)] st(3) ..
    then show ?thesis
      by (cases "btf__str_by_offset y off"; cases "btf__str_by_offset x off") (simp_all add: btf_validate_str_def)
  qed
  have t: "btf__type_by_id y i = btf__type_by_id x i" for i
    unfolding btf__type_by_id_def same_types_own(7,8) [OF st(1)] same_types_by_id [OF st(1)] ..
  have v: "btf_validate_type y t = btf_validate_type x t" for t
    by (simp only: btf_validate_type_def btf_validate_id_def s t same_types_unknown [OF st(1)])
  show ?thesis by (simp only: btf_sanity_check_def v same_types_by_id [OF st(1)] same_types_cnt [OF st(1)] same_types_own(8) [OF st(1)])
qed

section \<open>The round trip\<close>

text \<open>An object of known kinds without gaps, whose raw data fits into 32 bits.\<close>

definition writable :: "btf \<Rightarrow> bool" where
  "writable btf \<longleftrightarrow>
     (let b = own btf; h = b_hdr b in
      build_wf btf \<and> packed b \<and> (\<forall>ws \<in> set (type_list btf). known_kind ws) \<and>
      b_start_id b = btf_start_id (base_btf btf) \<and> (base_btf btf = None \<longrightarrow> (\<exists>x. all_strs btf = 0 # x)) \<and>
      32 + unat (h_type_len h) + unat (h_layout_len h) + unat (h_str_len h) < 2 ^ 32)"

definition written_rest :: "btf_part \<Rightarrow> bool \<Rightarrow> bytes" where
  "written_rest b swap =
     concat (map le32 (if swap then map bswap_32 (b_types b) else b_types b)) @
     (case b_layout b of None \<Rightarrow> []
      | Some l \<Rightarrow> layouts_to_bytes (if swap then map (\<lambda>e. e\<lparr>lay_flags := bswap_16 (lay_flags e)\<rparr>) l else l)) @ part_strs b"

lemma writable_facts:
  assumes "writable btf"
  shows "unat (h_type_len (b_hdr (own btf))) = 4 * length (b_types (own btf))" "length (part_strs (own btf)) = unat (h_str_len (b_hdr (own btf)))"
    "known_tiles btf (b_types (own btf)) 0 (b_type_offs (own btf))"
    "length (written_rest (own btf) swap) = unat (h_type_len (b_hdr (own btf))) + unat (h_layout_len (b_hdr (own btf))) + unat (h_str_len (b_hdr (own btf)))"
proof -
  let ?b = "own btf"
  have wf: "build_wf btf" "packed ?b" and kk: "\<forall>ws \<in> set (type_list btf). known_kind ws"
    using assms by (simp_all add: writable_def Let_def)
  have tw: "types_wf btf" using wf(1) by (simp add: build_wf_def)
  have ps: "part_strs_wf ?b" using wf(1) by (cases btf) (simp add: build_wf_def)
  show tl: "unat (h_type_len (b_hdr ?b)) = 4 * length (b_types ?b)" by (rule types_wfD(3) [OF tw])
  show sl: "length (part_strs ?b) = unat (h_str_len (b_hdr ?b))" by (rule part_strs_facts(1) [OF ps])
  have "known_kind (drop (unat off div 4) (b_types ?b))" if "off \<in> set (b_type_offs ?b)" for off
  proof -
    have m: "type_words btf (unat off) \<in> set (type_list btf)" using that by (simp add: type_list_def)
    then have "3 \<le> length (type_words btf (unat off))" by (rule type_list_sizes(1) [OF tw])
    then have "type_words btf (unat off) ! 1 = drop (unat off div 4) (b_types ?b) ! 1" by (simp add: type_words_def)
    moreover have "known_kind (type_words btf (unat off))" using kk m by blast
    ultimately show ?thesis by (simp add: known_kind_def btf_kind_def type_of_words_def)
  qed
  then show "known_tiles btf (b_types ?b) 0 (b_type_offs ?b)"
    using types_wfD(4) [OF tw] tl by (simp add: known_tiles_def)
  show "length (written_rest ?b swap) = unat (h_type_len (b_hdr ?b)) + unat (h_layout_len (b_hdr ?b)) + unat (h_str_len (b_hdr ?b))"
    using wf(2) tl sl by (auto simp: written_rest_def packed_def Let_def split: option.splits)
qed

lemma get_raw_data_written:
  assumes w: "writable btf" and cache: "b_raw_null (own btf)" "b_raw_swapped (own btf) = None"
  defines "h \<equiv> b_hdr (own btf)"
  defines "data \<equiv> (\<lambda>swap. hdr_to_bytes (if swap then btf_bswap_hdr h 32 else h) @ written_rest (own btf) swap)"
  shows "btf_get_raw_data True btf swap = Some (Some (data swap, of_nat (length (data swap))))"
proof -
  let ?b = "own btf"
  note f = writable_facts [OF w]
  have pk: "packed ?b" and sz: "32 + unat (h_type_len h) + unat (h_layout_len h) + unat (h_str_len h) < 2 ^ 32"
    using w by (simp_all add: writable_def Let_def h_def)
  have l32: "h_hdr_len h = 32" using pk by (simp add: packed_def Let_def h_def)
  have nr: "take (unat (b_nr_types ?b)) (b_type_offs ?b) = b_type_offs ?b"
    using w types_wfD(1) [of btf] by (simp add: writable_def Let_def build_wf_def)
  have ld: "length (data swap) = 32 + unat (h_type_len h) + unat (h_layout_len h) + unat (h_str_len h)"
    using f(4) by (simp add: data_def h_def)
  define ds where "ds = (case b_layout ?b of None \<Rightarrow> h_hdr_len h + h_type_len h + h_str_len h
    | Some l \<Rightarrow> h_hdr_len h + h_type_len h + h_str_len h + h_layout_len h)"
  have "ds = 32 + h_type_len h + h_str_len h + h_layout_len h"
    using pk by (auto simp: ds_def l32 packed_def Let_def h_def split: option.splits)
  also have "\<dots> = of_nat (length (data swap))" by (simp add: ld)
  finally have ds: "ds = of_nat (length (data swap))" .
  have uds: "unat ds = length (data swap)" using sz ld ds by (simp only: unat_of_nat_u32)
  have lay: "length (case b_layout ?b of None \<Rightarrow> []
      | Some l \<Rightarrow> layouts_to_bytes (if swap then map (\<lambda>e. e\<lparr>lay_flags := bswap_16 (lay_flags e)\<rparr>) l else l)) = unat (h_layout_len h)"
    using pk by (auto simp: packed_def Let_def h_def split: option.splits)
  have strs: "take (unat (h_str_len h)) (btf_strs_data ?b) = part_strs ?b" by (simp add: part_strs_def h_def)
  have head: "take (unat (h_hdr_len h)) (hdr_to_bytes x) @ replicate (unat (h_hdr_len h) - length (take (unat (h_hdr_len h)) (hdr_to_bytes x))) 0 = hdr_to_bytes x" for x
    by (simp add: l32)
  have ws: "(if swap then swap_types (take (unat (b_nr_types ?b)) (b_type_offs ?b)) (b_types ?b) else Inr (b_types ?b)) =
      Inr (if swap then map bswap_32 (b_types ?b) else b_types ?b)"
    using swap_types_all [OF f(3)] by (simp add: nr)
  have cache': "(if swap then b_raw_swapped ?b else if b_raw_null ?b then None else Some (b_raw ?b)) = None" using cache by simp
  have fit: "\<not> unat ds < length (hdr_to_bytes x) + unat (h_type_len h) + unat (h_layout_len h) + length (part_strs ?b)" for x
    using uds ld f(2) by (simp add: h_def)
  show ?thesis
    unfolding btf_get_raw_data_def Let_def h_def [symmetric] cache' option.case head strs lay ws sum.case ds_def [symmetric]
      if_not_P [OF fit]
    unfolding ds by (simp add: data_def written_rest_def l32)
qed

lemma check_hdr_written:
  assumes "writable btf"
  shows "btf_check_hdr (of_nat (length (written_rest (own btf) swap))) (b_hdr (own btf)) = None"
    and "unat (h_str_off (b_hdr (own btf))) = unat (h_type_len (b_hdr (own btf))) + unat (h_layout_len (b_hdr (own btf)))"
proof -
  let ?h = "b_hdr (own btf)"
  note f = writable_facts(1,4) [OF assms]
  have pk: "packed (own btf)" and sz: "32 + unat (h_type_len ?h) + unat (h_layout_len ?h) + unat (h_str_len ?h) < 2 ^ 32"
    using assms by (simp_all add: writable_def Let_def)
  have "h_str_off ?h = h_type_len ?h + h_layout_len ?h"
    using pk by (auto simp: packed_def Let_def split: option.splits)
  then show so: "unat (h_str_off ?h) = unat (h_type_len ?h) + unat (h_layout_len ?h)"
    using sz by (simp add: unat_add_u32)
  have rest: "unat (of_nat (length (written_rest (own btf) swap)) :: u32) = unat (h_type_len ?h) + unat (h_layout_len ?h) + unat (h_str_len ?h)"
    using f(2) sz by (simp only: unat_of_nat_u32)
  have al: "h_type_len ?h mod 4 = 0" using f(1) by (simp add: word_unat_eq_iff unat_mod)
  have lo: "h_layout_len ?h = 0 \<or> h_layout_off ?h = h_type_len ?h" "h_type_off ?h = 0"
    using pk by (auto simp: packed_def Let_def split: option.splits)
  show "btf_check_hdr (of_nat (length (written_rest (own btf) swap))) ?h = None"
  proof (cases "h_layout_len ?h = 0")
    case True
    then show ?thesis unfolding btf_check_hdr_def rest so lo(2) by simp
  next
    case False
    then have lo': "h_layout_off ?h = h_type_len ?h" using lo(1) by simp
    have le: "\<not> h_type_len ?h > h_str_off ?h" using so by (simp add: word_less_nat_alt)
    show ?thesis unfolding btf_check_hdr_def rest so lo(2) lo' al using le by simp
  qed
qed

text \<open>The sections as the parser finds them.\<close>

lemma set_sections_written:
  assumes w: "writable btf" and b: "b_hdr b = b_hdr (own btf)" "b_raw b = hdr_to_bytes (b_hdr (own btf)) @ written_rest (own btf) swap"
    "b_swapped_endian b = swap" "b_layout b = None"
  shows "btf_set_sections b = b\<lparr>b_strs := part_strs (own btf), b_types := words_upto swap 0 (b_types (own btf))\<rparr>" (is ?sec)
    "btf_parse_layout_sec (btf_set_sections b) = Inr ((btf_set_sections b)\<lparr>b_layout := b_layout (own btf)\<rparr>)"
proof -
  let ?b = "own btf" and ?h = "b_hdr (own btf)"
  define ws where "ws = (if swap then map bswap_32 (b_types ?b) else b_types ?b)"
  define lay where "lay = (case b_layout ?b of None \<Rightarrow> []
      | Some l \<Rightarrow> layouts_to_bytes (if swap then map (\<lambda>e. e\<lparr>lay_flags := bswap_16 (lay_flags e)\<rparr>) l else l))"
  have wr: "written_rest ?b swap = concat (map le32 ws) @ lay @ part_strs ?b" by (simp add: written_rest_def ws_def lay_def)
  have pk: "packed ?b" using w by (simp add: writable_def Let_def)
  note f = writable_facts [OF w] check_hdr_written(2) [OF w]
  have l32: "unat (h_hdr_len ?h) = 32" "h_type_off ?h = 0" using pk by (simp_all add: packed_def Let_def)
  have tl: "unat (h_type_len ?h) = length (concat (map le32 ws))" using f(1) by (simp add: ws_def)
  have ll: "unat (h_layout_len ?h) = length lay" using pk by (auto simp: lay_def packed_def Let_def split: option.splits)
  have "drop (unat (h_hdr_len ?h) + unat (h_str_off ?h)) (b_raw b) = part_strs ?b"
    unfolding b(2) wr f(5) tl ll l32 by simp
  moreover have "take (unat (h_type_len ?h)) (drop (unat (h_hdr_len ?h) + unat (h_type_off ?h)) (b_raw b)) = concat (map le32 ws)"
    unfolding b(2) wr tl l32 by simp
  ultimately show sec: ?sec unfolding btf_set_sections_def Let_def b(1) by (simp add: ws_def words_upto_def)
  have hd: "b_hdr (btf_set_sections b) = ?h" "b_raw (btf_set_sections b) = b_raw b" "b_swapped_endian (btf_set_sections b) = swap"
    "b_layout (btf_set_sections b) = None"
    using b by (simp_all add: btf_set_sections_def Let_def)
  show "btf_parse_layout_sec (btf_set_sections b) = Inr ((btf_set_sections b)\<lparr>b_layout := b_layout ?b\<rparr>)"
  proof (cases "b_layout ?b")
    case None
    then have "h_layout_len ?h = 0" using pk by (simp add: packed_def Let_def)
    then show ?thesis using None hd by (simp add: btf_parse_layout_sec_def Let_def)
  next
    case (Some l)
    have lo: "h_layout_off ?h = h_type_len ?h" "h_layout_len ?h \<noteq> 0" "h_layout_len ?h mod 4 = 0"
      using pk Some by (auto simp: packed_def Let_def word_unat_eq_iff unat_mod)
    have "take (unat (h_layout_len ?h)) (drop (unat (h_hdr_len ?h) + unat (h_layout_off ?h)) (b_raw b)) = lay"
      unfolding b(2) wr lo(1) tl ll l32 by simp
    then show ?thesis
      unfolding btf_parse_layout_sec_def Let_def hd using lo Some by (auto simp: lay_def o_def)
  qed
qed

lemma part_strs_end:
  assumes "part_strs_wf b" "h_str_len (b_hdr b) \<noteq> 0"
  shows "part_strs b \<noteq> []" "part_strs b ! (unat (h_str_len (b_hdr b)) - 1) = 0"
proof -
  note f = part_strs_facts(1,3) [OF assms(1)]
  have "0 < length (part_strs b)" using assms(2) by (simp add: f(1) unat_gt_0)
  then show ne: "part_strs b \<noteq> []" by simp
  show "part_strs b ! (unat (h_str_len (b_hdr b)) - 1) = 0" using f(2) [OF ne] f(1) ne by (simp add: last_conv_nth)
qed

lemma str_sec_written:
  assumes w: "writable btf" and b: "b_hdr b' = b_hdr (own btf)" "b_strs b' = part_strs (own btf)"
  shows "btf_parse_str_sec (Btf (base_btf btf) b') = None"
proof (cases btf)
  case (Btf base b)
  let ?n = "h_str_len (b_hdr b)"
  have ps: "part_strs_wf b" using w Btf by (simp add: writable_def Let_def build_wf_def)
  have mx: "?n \<noteq> 0 \<Longrightarrow> \<not> BTF_MAX_STR_OFFSET < ?n - 1"
    using part_strs_facts(2) [OF ps] by (simp add: not_less word_le_nat_alt BTF_MAX_STR_OFFSET_def unat_sub unat_gt_0 Suc_le_eq)
  have first: "part_strs b \<noteq> [] \<and> part_strs b ! 0 = 0" if "base = None"
  proof -
    have "\<exists>x. all_strs btf = 0 # x" using w that Btf by (simp add: writable_def Let_def)
    then show ?thesis using that Btf by auto
  qed
  then have "base = None \<Longrightarrow> ?n \<noteq> 0" using part_strs_facts(1) [OF ps] by auto
  then show ?thesis using mx first part_strs_end [OF ps] by (auto simp: btf_parse_str_sec_def Let_def b Btf)
qed

lemma start_str_off_written:
  assumes "strs_wf btf"
  shows "btf_start_str_off (base_btf btf) = b_start_str_off (own btf)"
proof (cases btf)
  case (Btf base b)
  show ?thesis
  proof (cases base)
    case None
    then show ?thesis using assms Btf by (simp add: btf_start_str_off_def)
  next
    case (Some base')
    then have f: "strs_wf base'" "unat (b_start_str_off b) = length (all_strs base')" "length (all_strs base') \<le> 2 ^ 31"
      using assms Btf by simp_all
    then have "unat (h_str_len (b_hdr (own base')) + b_start_str_off (own base')) = unat (b_start_str_off b)"
      using all_strs_length [OF f(1)] by (subst unat_add_u32) simp_all
    then show ?thesis using Some Btf by (simp add: btf_start_str_off_def word_unat_eq_iff)
  qed
qed

lemma same_content_named:
  assumes "strs_wf r" "r = Btf base (own r)"
  shows "same_content r (Btf base ((own r)\<lparr>b_named_start_id := x\<rparr>))"
proof -
  obtain b where r: "r = Btf base b" using assms(2) by (cases r) auto
  have ps: "part_strs (b\<lparr>b_named_start_id := x\<rparr>) = part_strs b" "part_strs_wf (b\<lparr>b_named_start_id := x\<rparr>) = part_strs_wf b"
    by (rule part_strs_types; simp)+
  show ?thesis using assms(1) ps unfolding r by (simp add: same_content_part)
qed

lemma parse_written:
  assumes w: "writable btf" and ok: "btf_sanity_check btf = None"
  defines "h \<equiv> b_hdr (own btf)"
  defines "data \<equiv> (\<lambda>swap. hdr_to_bytes (if swap then btf_bswap_hdr h 32 else h) @ written_rest (own btf) swap)"
  shows "\<exists>btf'. btf_new True True (\<lambda>_. True) (data swap) (base_btf btf) False = Inr btf' \<and>
    same_content btf btf' \<and> b_swapped_endian (own btf') = swap"
proof -
  let ?b = "own btf" and ?base = "base_btf btf"
  have wf: "build_wf btf" "packed ?b" "b_start_id ?b = btf_start_id ?base"
    and sz: "32 + unat (h_type_len h) + unat (h_layout_len h) + unat (h_str_len h) < 2 ^ 32"
    using w by (simp_all add: writable_def Let_def h_def)
  have sw: "strs_wf btf" and tw: "types_wf btf" using wf(1) by (simp_all add: build_wf_def)
  have ps: "part_strs_wf ?b" using sw by (cases btf) simp
  note f = writable_facts [OF w]
  note pf = part_strs_facts [OF ps]
  define b1 where "b1 = (btf_new_obj (data swap) ?base)\<lparr>b_raw := hdr_to_bytes h @ written_rest ?b swap, b_swapped_endian := swap, b_hdr := h\<rparr>"
  have hdr: "btf_parse_hdr (btf_new_obj (data swap) ?base) = Inr b1"
    unfolding b1_def data_def
    by (rule parse_hdr_written)
      (use wf(2) check_hdr_written(1) [OF w] f(4) sz in \<open>simp_all add: packed_def Let_def h_def\<close>)
  define b2 where "b2 = b1\<lparr>b_strs := part_strs ?b, b_types := words_upto swap 0 (b_types ?b)\<rparr>"
  define b3 where "b3 = b2\<lparr>b_layout := b_layout ?b\<rparr>"
  have b1: "b_hdr b1 = b_hdr ?b" "b_raw b1 = hdr_to_bytes (b_hdr ?b) @ written_rest ?b swap" "b_swapped_endian b1 = swap" "b_layout b1 = None"
    by (simp_all add: b1_def h_def btf_new_obj_def)
  note sec = set_sections_written [OF w b1, folded b2_def]
  note sec = sec(1) sec(2) [unfolded sec(1), folded b3_def]
  have b3: "b_hdr b3 = h" "b_strs b3 = part_strs ?b" "b_layout b3 = b_layout ?b" "b_type_offs b3 = []" "b_nr_types b3 = 0"
    "b_start_id b3 = btf_start_id ?base" "b_start_str_off b3 = btf_start_str_off ?base" "b_strs_set b3 = None" "\<not> b_modifiable b3"
    "b_swapped_endian b3 = swap" "b_types b3 = words_upto swap 0 (b_types ?b)"
    by (simp_all add: b3_def b2_def b1_def btf_new_obj_def)
  have str: "btf_parse_str_sec (Btf ?base b2) = None"
    by (rule str_sec_written [OF w]) (simp_all add: b2_def b1_def h_def)
  have "btf_type_size (Btf ?base b3) t = btf_type_size btf t" for t
    by (rule type_size_layouts) (simp_all add: b3 h_def)
  then have kt: "known_tiles (Btf ?base b3) (b_types ?b) (4 * 0) (b_type_offs ?b)" using f(3) by (simp add: known_tiles_def)
  have tl: "h_type_len h = of_nat (4 * length (b_types ?b))" "4 * length (b_types ?b) < 2 ^ 32"
    using f(1) sz by (metis h_def of_nat_unat ucast_id) (use f(1) sz in \<open>simp add: h_def\<close>)
  define r where "r = Btf ?base (b3\<lparr>b_types := b_types ?b, b_type_offs := b_type_offs ?b, b_nr_types := of_nat (length (b_type_offs ?b))\<rparr>)"
  have ty: "btf_parse_types (\<lambda>_. True) (Btf ?base b3) 0 = Inr r"
    using parse_types_complete [OF kt] tl types_wfD(2) [OF tw] by (simp add: b3 r_def)
  have nr: "of_nat (length (b_type_offs ?b)) = b_nr_types ?b" using types_wfD(1) [OF tw] by (metis of_nat_unat ucast_id)
  have rf: "btf_strs_data (own r) = part_strs ?b" "b_hdr (own r) = b_hdr ?b" by (simp_all add: r_def b3 btf_strs_data_def h_def)
  have "part_strs (own r) = part_strs ?b" unfolding part_strs_def [of "own r"] rf by (simp add: pf(1) [symmetric])
  moreover have "part_strs_wf (own r)"
    using pf(1,2) part_strs_end(2) [OF ps] by (auto simp: part_strs_wf_def r_def b3 h_def)
  moreover have "same_types btf r"
    unfolding r_def using wf(3) start_str_off_written [OF sw] nr by (cases btf) (simp add: b3 h_def)
  ultimately have "same_content (Btf ?base ?b) (Btf ?base (own r))"
    using sw by (intro same_content_part) (cases btf; simp add: r_def)+
  then have sc: "same_content btf r" by (cases btf) (simp add: r_def)
  have san: "btf_sanity_check r = None" using same_content_sanity [OF sw sc] ok by simp
  obtain x where x: "btf_check_sorted r = Btf ?base ((own r)\<lparr>b_named_start_id := x\<rparr>)"
    using check_sorted_shape [of r] by (auto simp: r_def)
  have new: "btf_new True True (\<lambda>_. True) (data swap) ?base False = Inr (btf_check_sorted r)"
    unfolding btf_new_def hdr sec(1) res_bind_Inr btf_parse_secs_def str sec(2) option.case btf_parse_type_sec_def ty san by simp
  have "same_content r (btf_check_sorted r)"
    unfolding x using sc by (intro same_content_named) (simp_all add: same_content_def r_def)
  then show ?thesis using new same_content_trans [OF sc] x by (auto simp: r_def b3)
qed

lemma new_empty_packed:
  assumes "btf_new_empty c r base add_layout = Inr btf"
  shows "packed (own btf)" "b_start_id (own btf) = btf_start_id base" "base_btf btf = base"
proof -
  have ok: "c" "r" using assms by (auto simp: btf_new_empty_def split: if_split_asm)
  note n = assms [unfolded btf_new_empty_def Let_def, simplified ok, simplified, symmetric]
  have "length layouts = 23" by (simp add: layouts_def)
  then show "packed (own btf)" "b_start_id (own btf) = btf_start_id base" "base_btf btf = base"
    by (auto simp: n packed_def btf_new_obj_def btf_hdr_zero_def Let_def)
qed

lemma built_packed: "built btf \<Longrightarrow> packed (own btf) \<and> b_start_id (own btf) = btf_start_id (base_btf btf) \<and> (\<exists>x. all_strs btf = 0 # x)"
proof (induction rule: built.induct)
  case (new c r add_layout btf)
  have "all_strs btf = [0]"
  proof -
    have ok: "c" "r" using new by (auto simp: btf_new_empty_def split: if_split_asm)
    note n = new [unfolded btf_new_empty_def Let_def, simplified ok, simplified, symmetric]
    show ?thesis by (simp add: n part_strs_def btf_strs_data_def btf_new_obj_def btf_hdr_zero_def)
  qed
  then show ?case using new_empty_packed [OF new] by simp
next
  case (new_split base c r add_layout btf)
  obtain b where b: "btf = Btf (Some base) b" using new_empty_packed(3) [OF new_split(4)] by (cases btf) auto
  show ?case using new_empty_packed [OF new_split(4)] new_split.IH b by auto
next
  case (call btf c env r btf')
  have "grown btf btf'" using exec_call_ok [OF _ call(2,3)] built_ok [OF call(1)] by (simp add: call_ok_def)
  then show ?case using call.IH by (auto simp: grown_def kept_def)
qed

text \<open>
  C3. Take an object built by calls, split or not, that passes the sanity check of the parser, has no raw data cached and is
  less than \<open>2 ^ 32\<close> bytes in size. Its raw data, in the native byte order or in the other one, is as long as its
  size says and parses: the parsed object has the same types at the same ids and the same strings at the same offsets, and
  remembers the byte order.
\<close>

theorem raw_data_roundtrip:
  assumes "built btf" and "b_raw_null (own btf)" and "b_raw_swapped (own btf) = None" and "btf_sanity_check btf = None"
    and "32 + unat (h_type_len (b_hdr (own btf))) + unat (h_layout_len (b_hdr (own btf))) + unat (h_str_len (b_hdr (own btf))) < 2 ^ 32"
  shows "\<exists>data btf'. btf_get_raw_data True btf swap = Some (Some (data, of_nat (length data))) \<and>
    btf_new True True (\<lambda>_. True) data (base_btf btf) False = Inr btf' \<and>
    same_content btf btf' \<and> type_list btf' = type_list btf \<and> b_swapped_endian (own btf') = swap"
proof -
  have wf: "build_wf btf" using built_ok [OF assms(1)] by simp
  have w: "writable btf" using built_ok [OF assms(1)] built_packed [OF assms(1)] assms(5) by (simp add: writable_def Let_def)
  obtain btf' where b: "btf_new True True (\<lambda>_. True)
      (hdr_to_bytes (if swap then btf_bswap_hdr (b_hdr (own btf)) 32 else b_hdr (own btf)) @ written_rest (own btf) swap)
      (base_btf btf) False = Inr btf'" "same_content btf btf'" "b_swapped_endian (own btf') = swap"
    using parse_written [OF w assms(4), of swap] by blast
  then show ?thesis
    using get_raw_data_written [OF w assms(2,3), of swap] same_content_build(3) [OF b(2) wf] by blast
qed

lemma add_ptr_object:
  obtains b where "snd (exec_call all_ok empty_btf (AddPtr 0)) = Btf None b" "b_types b = [0, 0x02000000, 0]" "b_type_offs b = [0]"
    "b_nr_types b = 1" "b_start_id b = 1" "b_raw_null b" "b_raw_swapped b = None" "h_type_len (b_hdr b) = 12"
    "h_layout_len (b_hdr b) = 0" "h_str_len (b_hdr b) = 1" "b_start_str_off b = 0"
proof -
  obtain ss where "btf_ensure_modifiable (all_ok 0) empty_btf =
      Inr (Btf None (btf_invalidate_raw_data ((own empty_btf)\<lparr>b_strs := [], b_strs_set := Some ss, b_strs_deduped := True, b_modifiable := True\<rparr>)))"
    by (rule empty_btf_modifiable)
  then show ?thesis
    by (intro that [of "own (snd (exec_call all_ok empty_btf (AddPtr 0)))"])
      (simp_all add: btf__add_ptr_def btf_add_ref_kind_def validate_type_id_def append_type_def add_name_def str_is_empty_def
        st_bind_def btf_commit_type_def btf_add_type_idx_entry_def btf_add_type_mem_def all_ok_def Let_def
        btf_invalidate_raw_data_def empty_btf_own BTF_MAX_NR_TYPES_def btf_hdr_update_type_len_def btf_type_info_def)
qed

theorem raw_data_roundtrip_witness:
  "\<exists>btf data btf'. built btf \<and> btf_get_raw_data True btf True = Some (Some (data, of_nat (length data))) \<and>
    btf_new True True (\<lambda>_. True) data None False = Inr btf' \<and> type_list btf' = [[0, 0x02000000, 0]] \<and> b_swapped_endian (own btf')"
proof -
  let ?btf = "snd (exec_call all_ok empty_btf (AddPtr 0))"
  obtain b where b: "?btf = Btf None b" "b_types b = [0, 0x02000000, 0]" "b_type_offs b = [0]"
    "b_nr_types b = 1" "b_start_id b = 1" "b_raw_null b" "b_raw_swapped b = None" "h_type_len (b_hdr b) = 12"
    "h_layout_len (b_hdr b) = 0" "h_str_len (b_hdr b) = 1" "b_start_str_off b = 0"
    by (rule add_ptr_object)
  have e: "built empty_btf" by (rule built.new [of True True False]) (simp add: empty_btf_def btf__new_empty_def btf_new_empty_def Let_def)
  have bt: "built (Btf None b)"
    by (rule built.call [OF e, of "AddPtr 0" all_ok "fst (exec_call all_ok empty_btf (AddPtr 0))"])
      (simp add: call_name_def, metis b(1) prod.collapse)
  have t: "btf_type_by_id (Btf None b) 1 = type_of_words [0, 0x02000000, 0]" by (simp add: b type_in_part_def)
  have i: "[unat (b_start_id (own (Btf None b)))..<unat (btf__type_cnt (Btf None b))] = [1]"
    by (simp add: btf__type_cnt_def b upt_rec)
  have "btf_validate_type (Btf None b) (type_of_words [0, 0x02000000, 0]) = None"
    by (simp add: btf_validate_type_def type_eval btf_validate_str_def btf_validate_id_def btf__type_by_id_def b)
  then have "btf_sanity_check (Btf None b) = None" unfolding btf_sanity_check_def i using t by simp
  then show ?thesis
    using raw_data_roundtrip [OF bt, of True] add_ptr_run b bt by auto
qed

end
