(* ===== verification/Core.thy ===== *)
theory Core
  imports BtfWrite
begin

text \<open>
  CO-RE relocations, \<^verbatim>\<open>src/src/relo_core.c\<close> with the helpers it shares with
  \<^verbatim>\<open>src/src/libbpf.c\<close>: parsing an access string into a specification, matching it
  against candidate types of the kernel, computing the relocated value and
  patching the instruction.

  The code follows references between types in loops without a bound, and
  uses pointers that may be NULL and divisors that may be 0. An execution
  therefore has one of three outcomes: it returns, it crashes, or it runs forever.
\<close>

section \<open>Outcomes\<close>

datatype 'a run = Ret 'a | Crash | Diverge

definition run_bind :: "'a run \<Rightarrow> ('a \<Rightarrow> 'b run) \<Rightarrow> 'b run" where
  "run_bind r f = (case r of Ret x \<Rightarrow> f x | Crash \<Rightarrow> Crash | Diverge \<Rightarrow> Diverge)"

lemma run_bind_simps [simp]: "run_bind (Ret x) f = f x" "run_bind Crash f = Crash" "run_bind Diverge f = Diverge"
  by (simp_all add: run_bind_def)

lemma run_bind_eq_Ret: "run_bind r f = Ret y \<longleftrightarrow> (\<exists>x. r = Ret x \<and> f x = Ret y)"
  by (cases r) auto

text \<open>A pointer that is dereferenced.\<close>

definition deref :: "'a option \<Rightarrow> 'a run" where
  "deref p = (case p of None \<Rightarrow> Crash | Some x \<Rightarrow> Ret x)"

lemma deref_simps [simp]: "deref None = Crash" "deref (Some x) = Ret x"
  by (simp_all add: deref_def)

text \<open>
  A loop that moves from state to state as long as there is a next one; it is given a number of
  steps. \<open>None\<close> says that it has not ended within them.
\<close>

fun chase :: "nat \<Rightarrow> ('a \<Rightarrow> 'a option) \<Rightarrow> 'a \<Rightarrow> 'a option" where
  "chase 0 f x = (case f x of None \<Rightarrow> Some x | Some y \<Rightarrow> None)"
| "chase (Suc n) f x = (case f x of None \<Rightarrow> Some x | Some y \<Rightarrow> chase n f y)"

section \<open>Strings\<close>

definition bpf_core_is_flavor_sep :: "bytes \<Rightarrow> bool" where
  "bpf_core_is_flavor_sep s \<longleftrightarrow> s ! 0 \<noteq> 95 \<and> s ! 1 = 95 \<and> s ! 2 = 95 \<and> s ! 3 = 95 \<and> s ! 4 \<noteq> 95"

fun flavor_loop :: "bytes \<Rightarrow> nat \<Rightarrow> nat option" where
  "flavor_loop name 0 = None"
| "flavor_loop name (Suc i) = (if bpf_core_is_flavor_sep (drop i name) then Some (i + 1) else flavor_loop name i)"

text \<open>The index runs from the length minus five down to 0, and not at all for shorter names.\<close>

definition bpf_core_essential_name_len :: "bytes \<Rightarrow> nat" where
  "bpf_core_essential_name_len name =
     (let n = strlen name in
      case (if n < 5 then None else flavor_loop name (n - 4)) of None \<Rightarrow> n | Some k \<Rightarrow> k)"

definition strncmp_eq :: "bytes \<Rightarrow> bytes \<Rightarrow> nat \<Rightarrow> bool" where
  "strncmp_eq a b n \<longleftrightarrow> take n (cstr a) = take n (cstr b)"

text \<open>
  \<^verbatim>\<open>sscanf("%d%n")\<close>: white space, an optional sign and digits. The value and the rest of the input;
  a number beyond \<open>long\<close> is clamped and then converted to \<open>int\<close>.
\<close>

definition isspace :: "u8 \<Rightarrow> bool" where "isspace c \<longleftrightarrow> c = 32 \<or> 9 \<le> c \<and> c \<le> 13"
definition isdigit :: "u8 \<Rightarrow> bool" where "isdigit c \<longleftrightarrow> 48 \<le> c \<and> c \<le> 57"

definition digits_value :: "bytes \<Rightarrow> int" where
  "digits_value ds = foldl (\<lambda>v c. 10 * v + (uint c - 48)) 0 ds"

definition clamp_long :: "int \<Rightarrow> int" where
  "clamp_long v = max (- (2 ^ 63)) (min (2 ^ 63 - 1) v)"

definition scan_int :: "bytes \<Rightarrow> (int \<times> bytes) option" where
  "scan_int s =
     (let s = dropWhile isspace s;
          neg = (s \<noteq> [] \<and> hd s = 45);
          s = (if s \<noteq> [] \<and> (hd s = 45 \<or> hd s = 43) then tl s else s);
          ds = takeWhile isdigit s
      in if ds = [] then None
         else Some (sint (word_of_int (clamp_long (if neg then - digits_value ds else digits_value ds)) :: u32),
                    dropWhile isdigit s))"

section \<open>Type references\<close>

definition is_ref :: "btf_type \<Rightarrow> bool" where
  "is_ref t \<longleftrightarrow> btf_is_mod t \<or> btf_is_typedef t"

definition skip_step :: "btf \<Rightarrow> u32 \<Rightarrow> u32 option" where
  "skip_step btf i =
     (case btf__type_by_id btf i of
        None \<Rightarrow> None
      | Some t \<Rightarrow> if is_ref t then Some (t_type t) else None)"

text \<open>
  The type and its id. Each round of the loop looks at one type id; after as many rounds as the object has
  ids, an id has come up twice and the loop never ends. An id that does not exist
  gives NULL, which the condition of the loop dereferences.
\<close>

definition skip_mods_and_typedefs :: "btf \<Rightarrow> u32 \<Rightarrow> (btf_type \<times> u32) run" where
  "skip_mods_and_typedefs btf i =
     (case chase (unat (btf__type_cnt btf)) (skip_step btf) i of
        None \<Rightarrow> Diverge
      | Some i' \<Rightarrow> run_bind (deref (btf__type_by_id btf i')) (\<lambda>t. Ret (t, i')))"

section \<open>Relocation records\<close>

abbreviation (input) BPF_CORE_FIELD_BYTE_OFFSET :: u32 where "BPF_CORE_FIELD_BYTE_OFFSET \<equiv> 0"
abbreviation (input) BPF_CORE_FIELD_BYTE_SIZE :: u32 where "BPF_CORE_FIELD_BYTE_SIZE \<equiv> 1"
abbreviation (input) BPF_CORE_FIELD_EXISTS :: u32 where "BPF_CORE_FIELD_EXISTS \<equiv> 2"
abbreviation (input) BPF_CORE_FIELD_SIGNED :: u32 where "BPF_CORE_FIELD_SIGNED \<equiv> 3"
abbreviation (input) BPF_CORE_FIELD_LSHIFT_U64 :: u32 where "BPF_CORE_FIELD_LSHIFT_U64 \<equiv> 4"
abbreviation (input) BPF_CORE_FIELD_RSHIFT_U64 :: u32 where "BPF_CORE_FIELD_RSHIFT_U64 \<equiv> 5"
abbreviation (input) BPF_CORE_TYPE_ID_LOCAL :: u32 where "BPF_CORE_TYPE_ID_LOCAL \<equiv> 6"
abbreviation (input) BPF_CORE_TYPE_ID_TARGET :: u32 where "BPF_CORE_TYPE_ID_TARGET \<equiv> 7"
abbreviation (input) BPF_CORE_TYPE_EXISTS :: u32 where "BPF_CORE_TYPE_EXISTS \<equiv> 8"
abbreviation (input) BPF_CORE_TYPE_SIZE :: u32 where "BPF_CORE_TYPE_SIZE \<equiv> 9"
abbreviation (input) BPF_CORE_ENUMVAL_EXISTS :: u32 where "BPF_CORE_ENUMVAL_EXISTS \<equiv> 10"
abbreviation (input) BPF_CORE_ENUMVAL_VALUE :: u32 where "BPF_CORE_ENUMVAL_VALUE \<equiv> 11"
abbreviation (input) BPF_CORE_TYPE_MATCHES :: u32 where "BPF_CORE_TYPE_MATCHES \<equiv> 12"

definition core_relo_is_field_based :: "u32 \<Rightarrow> bool" where
  "core_relo_is_field_based kind \<longleftrightarrow>
     kind = BPF_CORE_FIELD_BYTE_OFFSET \<or> kind = BPF_CORE_FIELD_BYTE_SIZE \<or> kind = BPF_CORE_FIELD_EXISTS \<or>
     kind = BPF_CORE_FIELD_SIGNED \<or> kind = BPF_CORE_FIELD_LSHIFT_U64 \<or> kind = BPF_CORE_FIELD_RSHIFT_U64"

definition core_relo_is_type_based :: "u32 \<Rightarrow> bool" where
  "core_relo_is_type_based kind \<longleftrightarrow>
     kind = BPF_CORE_TYPE_ID_LOCAL \<or> kind = BPF_CORE_TYPE_ID_TARGET \<or> kind = BPF_CORE_TYPE_EXISTS \<or>
     kind = BPF_CORE_TYPE_MATCHES \<or> kind = BPF_CORE_TYPE_SIZE"

definition core_relo_is_enumval_based :: "u32 \<Rightarrow> bool" where
  "core_relo_is_enumval_based kind \<longleftrightarrow> kind = BPF_CORE_ENUMVAL_EXISTS \<or> kind = BPF_CORE_ENUMVAL_VALUE"

record bpf_core_relo =
  r_insn_off :: u32
  r_type_id :: u32
  r_access_str_off :: u32
  r_kind :: u32

record bpf_core_accessor =
  acc_type_id :: u32
  acc_idx :: u32
  acc_name :: "bytes option"

record bpf_core_spec =
  sp_btf :: btf
  sp_spec :: "bpf_core_accessor list"
  sp_root_type_id :: u32
  sp_relo_kind :: u32
  sp_len :: nat
  sp_raw_spec :: "int list"
  sp_raw_len :: nat
  sp_bit_offset :: u32

record bpf_core_relo_res =
  res_orig_val :: u64
  res_new_val :: u64
  res_poison :: bool
  res_validate :: bool
  res_fail_memsz_adjust :: bool
  res_orig_sz :: u32
  res_orig_type_id :: u32
  res_new_sz :: u32
  res_new_type_id :: u32

type_synonym bpf_core_cand = "btf \<times> u32"

definition BPF_CORE_SPEC_MAX_LEN :: nat where "BPF_CORE_SPEC_MAX_LEN = 64"

text \<open>A specification set to zero, with its arrays; a write past the end of an array is a crash.\<close>

definition spec_init :: "btf \<Rightarrow> u32 \<Rightarrow> u32 \<Rightarrow> bpf_core_spec" where
  "spec_init btf i kind =
     \<lparr>sp_btf = btf, sp_spec = replicate BPF_CORE_SPEC_MAX_LEN \<lparr>acc_type_id = 0, acc_idx = 0, acc_name = None\<rparr>,
      sp_root_type_id = i, sp_relo_kind = kind, sp_len = 0, sp_raw_spec = replicate BPF_CORE_SPEC_MAX_LEN 0,
      sp_raw_len = 0, sp_bit_offset = 0\<rparr>"

definition array_set :: "'a list \<Rightarrow> nat \<Rightarrow> 'a \<Rightarrow> 'a list run" where
  "array_set xs i x = (if i < length xs then Ret (xs[i := x]) else Crash)"

definition push_raw :: "bpf_core_spec \<Rightarrow> int \<Rightarrow> bpf_core_spec run" where
  "push_raw spec v =
     run_bind (array_set (sp_raw_spec spec) (sp_raw_len spec) v) (\<lambda>raw.
       Ret (spec\<lparr>sp_raw_spec := raw, sp_raw_len := sp_raw_len spec + 1\<rparr>))"

text \<open>Writes an accessor at the given index and counts one more.\<close>

definition set_acc :: "bpf_core_spec \<Rightarrow> nat \<Rightarrow> bpf_core_accessor \<Rightarrow> bpf_core_spec run" where
  "set_acc spec i acc =
     run_bind (array_set (sp_spec spec) i acc) (\<lambda>accs. Ret (spec\<lparr>sp_spec := accs, sp_len := sp_len spec + 1\<rparr>))"

definition is_flex_arr :: "btf \<Rightarrow> bpf_core_accessor \<Rightarrow> btf_array \<Rightarrow> bool" where
  "is_flex_arr btf acc arr \<longleftrightarrow>
     \<not> (acc_name acc = None \<or> a_nelems arr > 0) \<and> acc_idx acc = btf_vlen (btf_type_by_id btf (acc_type_id acc)) - 1"

text \<open>Functions that return a result or an error.\<close>

abbreviation ok :: "'a \<Rightarrow> 'a result run" where "ok x \<equiv> Ret (Inr x)"
abbreviation err :: "errno \<Rightarrow> 'a result run" where "err e \<equiv> Ret (Inl e)"

definition rr_bind :: "'a result run \<Rightarrow> ('a \<Rightarrow> 'b result run) \<Rightarrow> 'b result run" where
  "rr_bind r f = run_bind r (\<lambda>x. case x of Inl e \<Rightarrow> err e | Inr y \<Rightarrow> f y)"

lemma rr_bind_simps [simp]:
  "rr_bind (ok x) f = f x" "rr_bind (err e) f = err e" "rr_bind Crash f = Crash" "rr_bind Diverge f = Diverge"
  by (simp_all add: rr_bind_def)

lemma rr_bind_eq_ok: "rr_bind r f = ok y \<longleftrightarrow> (\<exists>x. r = ok x \<and> f x = ok y)"
  by (cases r) (auto simp: rr_bind_def split: sum.splits)

section \<open>Parsing an access string\<close>

lemma scan_int_shorter:
  assumes "scan_int s = Some (v, rest)"
  shows "length rest < length s"
proof -
  define s1 where "s1 = dropWhile isspace s"
  define s2 where "s2 = (if s1 \<noteq> [] \<and> (hd s1 = 45 \<or> hd s1 = 43) then tl s1 else s1)"
  have ne: "takeWhile isdigit s2 \<noteq> []" and r: "rest = dropWhile isdigit s2"
    using assms by (auto simp: scan_int_def Let_def s1_def s2_def split: if_split_asm)
  have "length (dropWhile isdigit s2) + length (takeWhile isdigit s2) = length s2"
    by (metis add.commute length_append takeWhile_dropWhile_id)
  then have "length rest < length s2" using ne r by (metis length_greater_0_conv less_add_same_cancel1)
  also have "length s2 \<le> length s1" by (simp add: s2_def)
  also have "length s1 \<le> length s" by (simp add: s1_def length_dropWhile_le)
  finally show ?thesis .
qed

function parse_raw_spec :: "bytes \<Rightarrow> bpf_core_spec \<Rightarrow> bpf_core_spec result run" where
  "parse_raw_spec s spec =
     (if s = [] then ok spec
      else case scan_int (if hd s = 58 then tl s else s) of
             None \<Rightarrow> err EINVAL
           | Some (access_idx, rest) \<Rightarrow>
               if access_idx < 0 then err EINVAL
               else if sp_raw_len spec = BPF_CORE_SPEC_MAX_LEN then err E2BIG
               else run_bind (push_raw spec access_idx) (parse_raw_spec rest))"
  by pat_completeness auto
termination
proof (relation "measure (\<lambda>(s, spec). length s)")
  fix s :: bytes and spec x2 rest and a :: bpf_core_spec and x :: "int \<times> bytes" and access_idx
  assume "s \<noteq> []" "scan_int (if hd s = 58 then tl s else s) = Some x" "(access_idx, rest) = x"
  then have "length rest < length (if hd s = 58 then tl s else s)" using scan_int_shorter by metis
  then show "((rest, a), (s, spec)) \<in> measure (\<lambda>(s, spec). length s)" by (auto split: if_split_asm)
qed simp

declare parse_raw_spec.simps [simp del]

fun spec_fields :: "btf \<Rightarrow> int list \<Rightarrow> u32 \<Rightarrow> bpf_core_spec \<Rightarrow> bpf_core_spec result run" where
  "spec_fields btf [] i spec = ok spec"
| "spec_fields btf (access_idx # as) i spec =
     run_bind (skip_mods_and_typedefs btf i) (\<lambda>(t, i).
     if btf_is_composite t then
       (if access_idx \<ge> uint (btf_vlen t) then err EINVAL
        else
          let k = nat access_idx;
              spec = spec\<lparr>sp_bit_offset := sp_bit_offset spec + btf_member_bit_offset t k\<rparr>;
              m = btf_member_at t k
          in if m_name_off m \<noteq> 0 then
               (let name = btf__name_by_offset btf (m_name_off m) in
                if str_is_empty name then err EINVAL
                else run_bind (set_acc spec (sp_len spec)
                       \<lparr>acc_type_id = i, acc_idx = of_int access_idx, acc_name = name\<rparr>)
                       (spec_fields btf as (m_type m)))
             else spec_fields btf as (m_type m) spec)
     else if btf_is_array t then
       (let a = btf_array_of t in
        run_bind (skip_mods_and_typedefs btf (a_type a)) (\<lambda>(t, i).
        let flex = is_flex_arr btf (sp_spec spec ! (sp_len spec - 1)) a in
        if \<not> flex \<and> access_idx \<ge> uint (a_nelems a) then err EINVAL
        else run_bind (set_acc spec (sp_len spec) \<lparr>acc_type_id = i, acc_idx = of_int access_idx, acc_name = None\<rparr>) (\<lambda>spec.
             case btf__resolve_size btf i of
               Inl e \<Rightarrow> err e
             | Inr n \<Rightarrow>
                 spec_fields btf as i (spec\<lparr>sp_bit_offset := sp_bit_offset spec + of_int (access_idx * int n * 8)\<rparr>))))
     else err EINVAL)"

definition bpf_core_parse_spec :: "btf \<Rightarrow> bpf_core_relo \<Rightarrow> bpf_core_spec result run" where
  "bpf_core_parse_spec btf relo =
     (let spec_str = btf__name_by_offset btf (r_access_str_off relo);
          spec = spec_init btf (r_type_id relo) (r_kind relo)
      in if str_is_empty spec_str \<or> hd (the spec_str) = 58 then err EINVAL
         else if core_relo_is_type_based (r_kind relo) then
           (if cstr (the spec_str) \<noteq> [48] then err EINVAL else ok spec)
         else
           rr_bind (parse_raw_spec (cstr (the spec_str)) spec) (\<lambda>spec.
           if sp_raw_len spec = 0 then err EINVAL
           else
             run_bind (skip_mods_and_typedefs btf (r_type_id relo)) (\<lambda>(t, i).
             let access_idx = sp_raw_spec spec ! 0;
                 acc = \<lparr>acc_type_id = i, acc_idx = of_int access_idx, acc_name = None\<rparr>
             in if core_relo_is_enumval_based (r_kind relo) then
                  (if \<not> btf_is_any_enum t \<or> sp_raw_len spec > 1 \<or> access_idx \<ge> uint (btf_vlen t) then err EINVAL
                   else
                     let name_off = (if btf_is_enum t then e_name_off (btf_enum_at t (nat access_idx))
                                     else e64_name_off (btf_enum64_at t (nat access_idx)))
                     in run_bind (set_acc spec 0 (acc\<lparr>acc_name := btf__name_by_offset btf name_off\<rparr>)) ok)
                else if \<not> core_relo_is_field_based (r_kind relo) then err EINVAL
                else
                  run_bind (set_acc spec 0 acc) (\<lambda>spec.
                  case btf__resolve_size btf i of
                    Inl e \<Rightarrow> err e
                  | Inr n \<Rightarrow>
                      spec_fields btf (drop 1 (take (sp_raw_len spec) (sp_raw_spec spec))) i
                        (spec\<lparr>sp_bit_offset := of_int (access_idx * int n * 8)\<rparr>)))))"

section \<open>Compatible types\<close>

text \<open>The outcome of a comparison: an error, or whether the types agree.\<close>

type_synonym match_run = "bool result run"

text \<open>The parameters of two prototypes, pair by pair; \<open>f\<close> compares one pair.\<close>

fun params_agree :: "(u32 \<Rightarrow> u32 \<Rightarrow> match_run) \<Rightarrow> (u32 \<times> u32) list \<Rightarrow> match_run" where
  "params_agree f [] = ok True"
| "params_agree f ((l, t) # ps) = rr_bind (f l t) (\<lambda>b. if b then params_agree f ps else ok False)"

definition param_pairs :: "btf_type \<Rightarrow> btf_type \<Rightarrow> (u32 \<times> u32) list" where
  "param_pairs l t = map (\<lambda>i. (p_type (btf_param_at l i), p_type (btf_param_at t i))) [0..<unat (btf_vlen l)]"

text \<open>From the label \<^verbatim>\<open>recur\<close> on; \<open>f\<close> compares a pair of parameters.\<close>

fun compat_recur :: "(u32 \<Rightarrow> u32 \<Rightarrow> match_run) \<Rightarrow> nat \<Rightarrow> btf \<Rightarrow> u32 \<Rightarrow> btf \<Rightarrow> u32 \<Rightarrow> match_run" where
  "compat_recur f 0 local_btf local_id targ_btf targ_id = err EINVAL"
| "compat_recur f (Suc depth) local_btf local_id targ_btf targ_id =
     run_bind (skip_mods_and_typedefs local_btf local_id) (\<lambda>(local_type, local_id).
     run_bind (skip_mods_and_typedefs targ_btf targ_id) (\<lambda>(targ_type, targ_id).
     let k = btf_kind local_type in
     if \<not> btf_kind_core_compat local_type targ_type then ok False
     else if k = BTF_KIND_UNKN \<or> k = BTF_KIND_STRUCT \<or> k = BTF_KIND_UNION \<or> k = BTF_KIND_ENUM \<or>
             k = BTF_KIND_FWD \<or> k = BTF_KIND_ENUM64 then ok True
     else if k = BTF_KIND_INT then ok (btf_int_offset local_type = 0 \<and> btf_int_offset targ_type = 0)
     else if k = BTF_KIND_PTR then compat_recur f depth local_btf (t_type local_type) targ_btf (t_type targ_type)
     else if k = BTF_KIND_ARRAY then
       compat_recur f depth local_btf (a_type (btf_array_of local_type)) targ_btf (a_type (btf_array_of targ_type))
     else if k = BTF_KIND_FUNC_PROTO then
       (if btf_vlen local_type \<noteq> btf_vlen targ_type then ok False
        else rr_bind (params_agree f (param_pairs local_type targ_type)) (\<lambda>b.
          if \<not> b then ok False
          else
            run_bind (skip_mods_and_typedefs local_btf (t_type local_type)) (\<lambda>(lt, local_id).
            run_bind (skip_mods_and_typedefs targ_btf (t_type targ_type)) (\<lambda>(tt, targ_id).
            compat_recur f depth local_btf local_id targ_btf targ_id))))
     else ok False))"

definition compat_root :: "(u32 \<Rightarrow> u32 \<Rightarrow> match_run) \<Rightarrow> btf \<Rightarrow> btf \<Rightarrow> u32 \<Rightarrow> u32 \<Rightarrow> match_run" where
  "compat_root f local_btf targ_btf local_id targ_id =
     (if \<not> btf_kind_core_compat (btf_type_by_id local_btf local_id) (btf_type_by_id targ_btf targ_id) then ok False
      else compat_recur f 32 local_btf local_id targ_btf targ_id)"

primrec types_are_compat :: "nat \<Rightarrow> btf \<Rightarrow> btf \<Rightarrow> u32 \<Rightarrow> u32 \<Rightarrow> match_run" where
  "types_are_compat 0 local_btf targ_btf = compat_root (\<lambda>l t. err EINVAL) local_btf targ_btf"
| "types_are_compat (Suc level) local_btf targ_btf =
     compat_root (\<lambda>l t.
       run_bind (skip_mods_and_typedefs local_btf l) (\<lambda>(lt, local_id).
       run_bind (skip_mods_and_typedefs targ_btf t) (\<lambda>(tt, targ_id).
       types_are_compat level local_btf targ_btf local_id targ_id))) local_btf targ_btf"

definition bpf_core_types_are_compat :: "btf \<Rightarrow> u32 \<Rightarrow> btf \<Rightarrow> u32 \<Rightarrow> match_run" where
  "bpf_core_types_are_compat local_btf local_id targ_btf targ_id = types_are_compat 32 local_btf targ_btf local_id targ_id"

section \<open>Matching fields\<close>

text \<open>
  The elements of arrays are followed without a bound. After as many rounds as there are pairs of ids, a pair
  has come up twice.
\<close>

fun fields_compat_loop :: "nat \<Rightarrow> btf \<Rightarrow> u32 \<Rightarrow> btf \<Rightarrow> u32 \<Rightarrow> match_run" where
  "fields_compat_loop 0 local_btf local_id targ_btf targ_id = Diverge"
| "fields_compat_loop (Suc n) local_btf local_id targ_btf targ_id =
     run_bind (skip_mods_and_typedefs local_btf local_id) (\<lambda>(local_type, local_id).
     run_bind (skip_mods_and_typedefs targ_btf targ_id) (\<lambda>(targ_type, targ_id).
     let k = btf_kind local_type in
     if btf_is_composite local_type \<and> btf_is_composite targ_type then ok True
     else if \<not> btf_kind_core_compat local_type targ_type then ok False
     else if k = BTF_KIND_PTR \<or> k = BTF_KIND_FLOAT then ok True
     else if k = BTF_KIND_FWD \<or> k = BTF_KIND_ENUM64 \<or> k = BTF_KIND_ENUM then
       run_bind (deref (btf__name_by_offset local_btf (t_name_off local_type))) (\<lambda>local_name.
       run_bind (deref (btf__name_by_offset targ_btf (t_name_off targ_type))) (\<lambda>targ_name.
       let local_len = bpf_core_essential_name_len local_name;
           targ_len = bpf_core_essential_name_len targ_name
       in ok (local_len = 0 \<or> targ_len = 0 \<or> (local_len = targ_len \<and> strncmp_eq local_name targ_name local_len))))
     else if k = BTF_KIND_INT then ok (btf_int_offset local_type = 0 \<and> btf_int_offset targ_type = 0)
     else if k = BTF_KIND_ARRAY then
       fields_compat_loop n local_btf (a_type (btf_array_of local_type)) targ_btf (a_type (btf_array_of targ_type))
     else ok False))"

definition bpf_core_fields_are_compat :: "btf \<Rightarrow> u32 \<Rightarrow> btf \<Rightarrow> u32 \<Rightarrow> match_run" where
  "bpf_core_fields_are_compat local_btf local_id targ_btf targ_id =
     fields_compat_loop (unat (btf__type_cnt local_btf) * unat (btf__type_cnt targ_btf) + 1)
       local_btf local_id targ_btf targ_id"

text \<open>
  The result of a search in the members of a type: whether a member has been found, the id of its type, and the
  specification of the target as the search leaves it, on every path.
\<close>

type_synonym member_run = "(bool result \<times> u32 \<times> bpf_core_spec) run"

text \<open>
  The loop over the members, by their indices; \<open>deeper\<close> searches an embedded type. The name of
  the local member is only dereferenced when it is compared.
\<close>

fun match_members ::
  "(u32 \<Rightarrow> bpf_core_spec \<Rightarrow> u32 \<Rightarrow> member_run) \<Rightarrow> btf \<Rightarrow> btf_member \<Rightarrow> btf \<Rightarrow> btf_type \<Rightarrow> u32 \<Rightarrow>
     nat list \<Rightarrow> bpf_core_spec \<Rightarrow> u32 \<Rightarrow> member_run" where
  "match_members deeper local_btf local_member targ_btf targ_type targ_id [] spec next = Ret (Inr False, next, spec)"
| "match_members deeper local_btf local_member targ_btf targ_type targ_id (i # is) spec next =
     (let bit_offset = btf_member_bit_offset targ_type i; m = btf_member_at targ_type i;
          continue = (\<lambda>spec. match_members deeper local_btf local_member targ_btf targ_type targ_id is
            (spec\<lparr>sp_bit_offset := sp_bit_offset spec - bit_offset, sp_raw_len := sp_raw_len spec - 1\<rparr>))
      in if sp_raw_len spec = BPF_CORE_SPEC_MAX_LEN then Ret (Inl E2BIG, next, spec)
         else
           run_bind (push_raw (spec\<lparr>sp_bit_offset := sp_bit_offset spec + bit_offset\<rparr>) (int i)) (\<lambda>spec.
           let targ_name = btf__name_by_offset targ_btf (m_name_off m) in
           if str_is_empty targ_name then
             run_bind (deeper (m_type m) spec next) (\<lambda>(found, next, spec).
               if found \<noteq> Inr False then Ret (found, next, spec) else continue spec next)
           else
             run_bind (deref (btf__name_by_offset local_btf (m_name_off local_member))) (\<lambda>local_name.
             if strcmp local_name (the targ_name) = 0 then
               run_bind (set_acc spec (sp_len spec) \<lparr>acc_type_id = targ_id, acc_idx = of_nat i, acc_name = targ_name\<rparr>) (\<lambda>spec.
               run_bind (bpf_core_fields_are_compat local_btf (m_type local_member) targ_btf (m_type m)) (\<lambda>found.
               Ret (found, m_type m, if found = Inr False then spec\<lparr>sp_len := sp_len spec - 1\<rparr> else spec)))
             else continue spec next)))"

text \<open>
  The recursion into embedded types; every level adds to \<open>raw_spec\<close>, which holds 64 entries, so 65 levels are
  enough.
\<close>

fun match_member_levels :: "nat \<Rightarrow> btf \<Rightarrow> bpf_core_accessor \<Rightarrow> btf \<Rightarrow> u32 \<Rightarrow> bpf_core_spec \<Rightarrow> u32 \<Rightarrow> member_run" where
  "match_member_levels 0 local_btf local_acc targ_btf targ_id spec next = Diverge"
| "match_member_levels (Suc n) local_btf local_acc targ_btf targ_id spec next =
     run_bind (skip_mods_and_typedefs targ_btf targ_id) (\<lambda>(targ_type, targ_id).
     if \<not> btf_is_composite targ_type then Ret (Inr False, next, spec)
     else
       let local_type = btf_type_by_id local_btf (acc_type_id local_acc);
           local_member = btf_member_at local_type (unat (acc_idx local_acc))
       in match_members (match_member_levels n local_btf local_acc targ_btf) local_btf local_member
            targ_btf targ_type targ_id [0..<unat (btf_vlen targ_type)] spec next)"

definition bpf_core_match_member :: "btf \<Rightarrow> bpf_core_accessor \<Rightarrow> btf \<Rightarrow> u32 \<Rightarrow> bpf_core_spec \<Rightarrow> u32 \<Rightarrow> member_run" where
  "bpf_core_match_member local_btf local_acc targ_btf targ_id spec next =
     match_member_levels (BPF_CORE_SPEC_MAX_LEN + 1) local_btf local_acc targ_btf targ_id spec next"

section \<open>Matching types\<close>

definition bpf_core_names_match :: "btf \<Rightarrow> u32 \<Rightarrow> btf \<Rightarrow> u32 \<Rightarrow> bool run" where
  "bpf_core_names_match local_btf local_name_off targ_btf targ_name_off =
     (let local_n = btf__name_by_offset local_btf local_name_off;
          targ_n = btf__name_by_offset targ_btf targ_name_off
      in if str_is_empty targ_n then Ret (str_is_empty local_n)
         else
           run_bind (deref local_n) (\<lambda>local_n.
           let targ_len = bpf_core_essential_name_len (the targ_n);
               local_len = bpf_core_essential_name_len local_n
           in Ret (targ_len = local_len \<and> strncmp_eq local_n (the targ_n) local_len)))"

text \<open>Whether \<open>f\<close> holds for one of the indices, and for all of them, from the first on.\<close>

fun some_match :: "(nat \<Rightarrow> match_run) \<Rightarrow> nat list \<Rightarrow> match_run" where
  "some_match f [] = ok False"
| "some_match f (j # js) = rr_bind (f j) (\<lambda>b. if b then ok True else some_match f js)"

fun all_match :: "(nat \<Rightarrow> match_run) \<Rightarrow> nat list \<Rightarrow> match_run" where
  "all_match f [] = ok True"
| "all_match f (i # is) = rr_bind (f i) (\<lambda>b. if b then all_match f is else ok False)"

definition enum_name_off :: "btf_type \<Rightarrow> nat \<Rightarrow> u32" where
  "enum_name_off t i = (if btf_is_enum t then e_name_off (btf_enum_at t i) else e64_name_off (btf_enum64_at t i))"

definition bpf_core_enums_match :: "btf \<Rightarrow> btf_type \<Rightarrow> btf \<Rightarrow> btf_type \<Rightarrow> match_run" where
  "bpf_core_enums_match local_btf local_t targ_btf targ_t =
     (if t_size local_t \<noteq> t_size targ_t then ok False
      else if btf_vlen local_t > btf_vlen targ_t then ok False
      else all_match (\<lambda>i. some_match (\<lambda>j.
             run_bind (bpf_core_names_match local_btf (enum_name_off local_t i) targ_btf (enum_name_off targ_t j)) ok)
             [0..<unat (btf_vlen targ_t)]) [0..<unat (btf_vlen local_t)])"

text \<open>\<open>rec\<close> compares the types of two members.\<close>

definition bpf_core_composites_match :: "(u32 \<Rightarrow> u32 \<Rightarrow> match_run) \<Rightarrow> btf \<Rightarrow> btf_type \<Rightarrow> btf \<Rightarrow> btf_type \<Rightarrow> match_run" where
  "bpf_core_composites_match rec local_btf local_t targ_btf targ_t =
     (if btf_vlen local_t > btf_vlen targ_t then ok False
      else all_match (\<lambda>i. some_match (\<lambda>j.
             let local_m = btf_member_at local_t i; targ_m = btf_member_at targ_t j in
             run_bind (bpf_core_names_match local_btf (m_name_off local_m) targ_btf (m_name_off targ_m)) (\<lambda>b.
             if \<not> b then ok False else rec (m_type local_m) (m_type targ_m)))
             [0..<unat (btf_vlen targ_t)]) [0..<unat (btf_vlen local_t)])"

definition BTF_INT_SIGNED :: u8 where "BTF_INT_SIGNED = 1"

text \<open>From the label \<^verbatim>\<open>recur\<close> on; \<open>rec\<close> is the call with one level less.\<close>

fun match_recur :: "(bool \<Rightarrow> u32 \<Rightarrow> u32 \<Rightarrow> match_run) \<Rightarrow> nat \<Rightarrow> btf \<Rightarrow> u32 \<Rightarrow> btf \<Rightarrow> u32 \<Rightarrow> bool \<Rightarrow> match_run" where
  "match_recur rec 0 local_btf local_id targ_btf targ_id behind_ptr = err EINVAL"
| "match_recur rec (Suc depth) local_btf local_id targ_btf targ_id behind_ptr =
     run_bind (skip_mods_and_typedefs local_btf local_id) (\<lambda>(local_t, local_id).
     run_bind (skip_mods_and_typedefs targ_btf targ_id) (\<lambda>(targ_t, targ_id).
     run_bind (bpf_core_names_match local_btf (t_name_off local_t) targ_btf (t_name_off targ_t)) (\<lambda>names.
     let local_k = btf_kind local_t; targ_k = btf_kind targ_t; local_f = btf_kflag local_t; targ_f = btf_kflag targ_t in
     if \<not> names then ok False
     else if local_k = BTF_KIND_UNKN then ok (local_k = targ_k)
     else if local_k = BTF_KIND_FWD then
       (if behind_ptr then
          (if local_k = targ_k then ok (local_f = targ_f)
           else ok (targ_k = BTF_KIND_STRUCT \<and> \<not> local_f \<or> targ_k = BTF_KIND_UNION \<and> local_f))
        else if local_k \<noteq> targ_k then ok False else ok (local_f = targ_f))
     else if local_k = BTF_KIND_ENUM \<or> local_k = BTF_KIND_ENUM64 then
       (if \<not> btf_is_any_enum targ_t then ok False else bpf_core_enums_match local_btf local_t targ_btf targ_t)
     else if local_k = BTF_KIND_STRUCT \<or> local_k = BTF_KIND_UNION then
       (if behind_ptr then
          (if local_k = targ_k then ok True
           else if targ_k \<noteq> BTF_KIND_FWD then ok False
           else ok ((local_k = BTF_KIND_UNION) = targ_f))
        else if local_k \<noteq> targ_k then ok False
        else bpf_core_composites_match (rec behind_ptr) local_btf local_t targ_btf targ_t)
     else if local_k = BTF_KIND_INT then
       (if local_k \<noteq> targ_k then ok False
        else ok (t_size local_t = t_size targ_t \<and>
               (btf_int_encoding local_t AND BTF_INT_SIGNED) = (btf_int_encoding targ_t AND BTF_INT_SIGNED)))
     else if local_k = BTF_KIND_PTR then
       (if local_k \<noteq> targ_k then ok False
        else match_recur rec depth local_btf (t_type local_t) targ_btf (t_type targ_t) True)
     else if local_k = BTF_KIND_ARRAY then
       (let local_array = btf_array_of local_t; targ_array = btf_array_of targ_t in
        if local_k \<noteq> targ_k then ok False
        else if a_nelems local_array \<noteq> a_nelems targ_array then ok False
        else match_recur rec depth local_btf (a_type local_array) targ_btf (a_type targ_array) behind_ptr)
     else if local_k = BTF_KIND_FUNC_PROTO then
       (if local_k \<noteq> targ_k then ok False
        else if btf_vlen local_t \<noteq> btf_vlen targ_t then ok False
        else rr_bind (params_agree (rec behind_ptr) (param_pairs local_t targ_t)) (\<lambda>b.
          if \<not> b then ok False
          else match_recur rec depth local_btf (t_type local_t) targ_btf (t_type targ_t) behind_ptr))
     else ok False)))"

primrec types_match :: "nat \<Rightarrow> btf \<Rightarrow> btf \<Rightarrow> bool \<Rightarrow> u32 \<Rightarrow> u32 \<Rightarrow> match_run" where
  "types_match 0 local_btf targ_btf = (\<lambda>behind_ptr local_id targ_id. err EINVAL)"
| "types_match (Suc level) local_btf targ_btf = (\<lambda>behind_ptr local_id targ_id.
     match_recur (types_match level local_btf targ_btf) 32 local_btf local_id targ_btf targ_id behind_ptr)"

definition bpf_core_types_match :: "btf \<Rightarrow> u32 \<Rightarrow> btf \<Rightarrow> u32 \<Rightarrow> match_run" where
  "bpf_core_types_match local_btf local_id targ_btf targ_id = types_match 32 local_btf targ_btf False local_id targ_id"

section \<open>Matching a specification\<close>

text \<open>
  The result of matching a specification, with the specification of the target as it is left. A size is converted
  to \<open>int\<close> here.
\<close>

type_synonym spec_run = "(bool result \<times> bpf_core_spec) run"

fun match_enumval :: "bpf_core_accessor \<Rightarrow> btf \<Rightarrow> btf_type \<Rightarrow> u32 \<Rightarrow> nat list \<Rightarrow> bpf_core_spec \<Rightarrow> spec_run" where
  "match_enumval local_acc targ_btf targ_type targ_id [] spec = Ret (Inr False, spec)"
| "match_enumval local_acc targ_btf targ_type targ_id (i # is) spec =
     run_bind (deref (acc_name local_acc)) (\<lambda>local_name.
     run_bind (deref (btf__name_by_offset targ_btf (enum_name_off targ_type i))) (\<lambda>targ_name.
     let local_essent_len = bpf_core_essential_name_len local_name;
         targ_essent_len = bpf_core_essential_name_len targ_name
     in if targ_essent_len \<noteq> local_essent_len \<or> \<not> strncmp_eq local_name targ_name local_essent_len
        then match_enumval local_acc targ_btf targ_type targ_id is spec
        else
          run_bind (set_acc spec 0 \<lparr>acc_type_id = targ_id, acc_idx = of_nat i, acc_name = Some targ_name\<rparr>) (\<lambda>spec.
          run_bind (push_raw spec (int i)) (\<lambda>spec. Ret (Inr True, spec)))))"

text \<open>The loop over the accessors of the local specification, by their indices.\<close>

fun match_accessors :: "bpf_core_spec \<Rightarrow> btf \<Rightarrow> nat list \<Rightarrow> u32 \<Rightarrow> bpf_core_spec \<Rightarrow> spec_run" where
  "match_accessors local_spec targ_btf [] targ_id spec = Ret (Inr True, spec)"
| "match_accessors local_spec targ_btf (i # is) targ_id spec =
     (let local_acc = sp_spec local_spec ! i in
      run_bind (skip_mods_and_typedefs targ_btf targ_id) (\<lambda>(targ_type, targ_id).
      if acc_name local_acc \<noteq> None then
        run_bind (bpf_core_match_member (sp_btf local_spec) local_acc targ_btf targ_id spec targ_id) (\<lambda>(matched, targ_id, spec).
        if matched \<noteq> Inr True then Ret (matched, spec) else match_accessors local_spec targ_btf is targ_id spec)
      else
        let a = btf_array_of targ_type;
            elem = (\<lambda>targ_id.
              if sp_raw_len spec = BPF_CORE_SPEC_MAX_LEN then Ret (Inl E2BIG, spec)
              else
                run_bind (set_acc spec i \<lparr>acc_type_id = targ_id, acc_idx = acc_idx local_acc, acc_name = None\<rparr>) (\<lambda>spec.
                run_bind (push_raw spec (sint (acc_idx local_acc))) (\<lambda>spec.
                case btf__resolve_size targ_btf targ_id of
                  Inl e \<Rightarrow> Ret (Inl e, spec)
                | Inr n \<Rightarrow>
                    let size = sint (of_nat n :: u32) in
                    if size < 0 then Ret (Inl (err_of_int size), spec)
                    else match_accessors local_spec targ_btf is targ_id
                           (spec\<lparr>sp_bit_offset := sp_bit_offset spec + acc_idx local_acc * of_nat n * 8\<rparr>))))
        in if i = 0 then elem targ_id
           else if \<not> btf_is_array targ_type then Ret (Inr False, spec)
           else if \<not> is_flex_arr targ_btf (sp_spec spec ! (i - 1)) a \<and> acc_idx local_acc \<ge> a_nelems a then Ret (Inr False, spec)
           else run_bind (skip_mods_and_typedefs targ_btf (a_type a)) (\<lambda>(t, targ_id). elem targ_id)))"

definition bpf_core_spec_match :: "bpf_core_spec \<Rightarrow> btf \<Rightarrow> u32 \<Rightarrow> spec_run" where
  "bpf_core_spec_match local_spec targ_btf targ_id =
     (let spec = spec_init targ_btf targ_id (sp_relo_kind local_spec) in
      if core_relo_is_type_based (sp_relo_kind local_spec) then
        run_bind (if sp_relo_kind local_spec = BPF_CORE_TYPE_MATCHES
                  then bpf_core_types_match (sp_btf local_spec) (sp_root_type_id local_spec) targ_btf targ_id
                  else bpf_core_types_are_compat (sp_btf local_spec) (sp_root_type_id local_spec) targ_btf targ_id)
          (\<lambda>r. Ret (r, spec))
      else if core_relo_is_enumval_based (sp_relo_kind local_spec) then
        run_bind (skip_mods_and_typedefs targ_btf targ_id) (\<lambda>(targ_type, targ_id).
        if \<not> btf_is_any_enum targ_type then Ret (Inr False, spec)
        else run_bind (deref (acc_name (sp_spec local_spec ! 0))) (\<lambda>_.
          match_enumval (sp_spec local_spec ! 0) targ_btf targ_type targ_id [0..<unat (btf_vlen targ_type)] spec))
      else if \<not> core_relo_is_field_based (sp_relo_kind local_spec) then Ret (Inl EINVAL, spec)
      else match_accessors local_spec targ_btf [0..<sp_len local_spec] targ_id spec)"

section \<open>Relocated values\<close>

text \<open>
  A value that a relocation is given, with the outputs of the function. \<open>f_validate\<close> is \<open>None\<close> where the
  function leaves the flag as it is.
\<close>

record field_val =
  f_val :: u64
  f_sz :: u32
  f_type_id :: u32
  f_validate :: "bool option"

definition field_val :: "u64 \<Rightarrow> bool option \<Rightarrow> field_val" where
  "field_val v validate = \<lparr>f_val = v, f_sz = 0, f_type_id = 0, f_validate = validate\<rparr>"

text \<open>The element type of arrays of arrays.\<close>

definition elem_step :: "btf \<Rightarrow> u32 \<Rightarrow> u32 option" where
  "elem_step btf i =
     (case skip_mods_and_typedefs btf i of
        Ret (t, i') \<Rightarrow> if btf_is_array t then Some (a_type (btf_array_of t)) else None
      | _ \<Rightarrow> None)"

definition skip_arrays :: "btf \<Rightarrow> u32 \<Rightarrow> u32 run" where
  "skip_arrays btf i =
     (case chase (unat (btf__type_cnt btf)) (elem_step btf) i of
        None \<Rightarrow> Diverge
      | Some i' \<Rightarrow> run_bind (skip_mods_and_typedefs btf i') (\<lambda>(t, elem_id). Ret elem_id))"

text \<open>
  The smallest aligned unit of memory around a bitfield: from the size of the type on, the size is doubled until the
  field fits, up to eight bytes. The size and the offset of the unit.
\<close>

function bitfield_unit :: "u32 \<Rightarrow> u32 \<Rightarrow> u32 \<Rightarrow> (u32 \<times> u32) result run" where
  "bitfield_unit bit_off bit_sz byte_sz =
     (if byte_sz = 0 then Crash
      else
        let byte_off = bit_off div 8 div byte_sz * byte_sz in
        if bit_off + bit_sz - byte_off * 8 > byte_sz * 8 then
          (if byte_sz \<ge> 8 then err E2BIG else bitfield_unit bit_off bit_sz (byte_sz * 2))
        else ok (byte_sz, byte_off))"
  by pat_completeness auto
termination
proof (relation "measure (\<lambda>(bit_off, bit_sz, byte_sz). 8 - unat byte_sz)")
  fix bit_off bit_sz byte_sz x :: u32
  assume "byte_sz \<noteq> 0" "\<not> byte_sz \<ge> 8"
  then have "0 < unat byte_sz" "unat byte_sz < 8" by (simp_all add: unat_gt_0 word_le_nat_alt)
  then have "unat (byte_sz * 2) = unat byte_sz * 2" by (simp add: unat_word_ariths)
  then show "((bit_off, bit_sz, byte_sz * 2), bit_off, bit_sz, byte_sz) \<in> measure (\<lambda>(bit_off, bit_sz, byte_sz). 8 - unat byte_sz)"
    using \<open>0 < unat byte_sz\<close> \<open>unat byte_sz < 8\<close> by simp
qed simp

declare bitfield_unit.simps [simp del]

definition array_relo :: "bpf_core_relo \<Rightarrow> bpf_core_spec \<Rightarrow> bpf_core_accessor \<Rightarrow> field_val result run" where
  "array_relo relo spec acc =
     (if r_kind relo = BPF_CORE_FIELD_BYTE_OFFSET then
        run_bind (skip_arrays (sp_btf spec) (acc_type_id acc)) (\<lambda>elem_id.
        case btf__resolve_size (sp_btf spec) elem_id of
          Inl e \<Rightarrow> err EINVAL
        | Inr n \<Rightarrow> ok (field_val (ucast (sp_bit_offset spec div 8)) (Some True)\<lparr>f_sz := of_nat n, f_type_id := acc_type_id acc\<rparr>))
      else if r_kind relo = BPF_CORE_FIELD_BYTE_SIZE then
        (case btf__resolve_size (sp_btf spec) (acc_type_id acc) of
           Inl e \<Rightarrow> err EINVAL
         | Inr n \<Rightarrow> ok (field_val (of_nat n) (Some True)))
      else err EINVAL)"

text \<open>The values of a member: its size and offset, whether it is a bitfield, and its type.\<close>

definition member_relo :: "bpf_core_relo \<Rightarrow> bpf_core_spec \<Rightarrow> btf_type \<Rightarrow> u32 \<Rightarrow> bool \<Rightarrow> u32 \<Rightarrow> u32 \<Rightarrow> u32 \<Rightarrow> field_val result run" where
  "member_relo relo spec mt field_type_id bitfield bit_sz byte_sz byte_off =
     (let bit_off = sp_bit_offset spec; k = r_kind relo; validate = Some (\<not> bitfield) in
      if k = BPF_CORE_FIELD_BYTE_OFFSET then
        (if bitfield then ok (field_val (ucast byte_off) validate)
         else
           run_bind (skip_arrays (sp_btf spec) field_type_id) (\<lambda>elem_id.
           case btf__resolve_size (sp_btf spec) elem_id of
             Inl e \<Rightarrow> err EINVAL
           | Inr n \<Rightarrow> ok (field_val (ucast byte_off) validate\<lparr>f_sz := of_nat n, f_type_id := field_type_id\<rparr>)))
      else if k = BPF_CORE_FIELD_BYTE_SIZE then ok (field_val (ucast byte_sz) validate)
      else if k = BPF_CORE_FIELD_SIGNED then
        ok (field_val (of_bool (btf_is_any_enum mt \<and> btf_kflag mt \<or>
                                btf_is_int mt \<and> (btf_int_encoding mt AND BTF_INT_SIGNED) \<noteq> 0)) (Some True))
      else if k = BPF_CORE_FIELD_LSHIFT_U64 then ok (field_val (ucast (64 - (bit_off + bit_sz - byte_off * 8))) validate)
      else if k = BPF_CORE_FIELD_RSHIFT_U64 then ok (field_val (ucast (64 - bit_sz)) (Some True))
      else err ENOTSUP)"

definition bpf_core_calc_field_relo :: "bpf_core_relo \<Rightarrow> bpf_core_spec option \<Rightarrow> field_val result run" where
  "bpf_core_calc_field_relo relo spec =
     (if r_kind relo = BPF_CORE_FIELD_EXISTS then ok (field_val (of_bool (spec \<noteq> None)) None)
      else case spec of
             None \<Rightarrow> err EUCLEAN
           | Some spec \<Rightarrow>
               let acc = sp_spec spec ! (sp_len spec - 1); t = btf_type_by_id (sp_btf spec) (acc_type_id acc) in
               if acc_name acc = None then array_relo relo spec acc
               else
                 let i = unat (acc_idx acc); bit_sz = btf_member_bitfield_size t i in
                 run_bind (skip_mods_and_typedefs (sp_btf spec) (m_type (btf_member_at t i))) (\<lambda>(mt, field_type_id).
                 if bit_sz > 0 then
                   rr_bind (bitfield_unit (sp_bit_offset spec) bit_sz (t_size mt)) (\<lambda>(byte_sz, byte_off).
                   member_relo relo spec mt field_type_id True bit_sz byte_sz byte_off)
                 else
                   case btf__resolve_size (sp_btf spec) field_type_id of
                     Inl e \<Rightarrow> err EINVAL
                   | Inr n \<Rightarrow>
                       member_relo relo spec mt field_type_id False (of_nat n * 8) (of_nat n) (sp_bit_offset spec div 8)))"

definition bpf_core_calc_type_relo :: "bpf_core_relo \<Rightarrow> bpf_core_spec option \<Rightarrow> field_val result" where
  "bpf_core_calc_type_relo relo spec =
     (case spec of
        None \<Rightarrow> Inr (field_val 0 (Some True))
      | Some spec \<Rightarrow>
          if r_kind relo = BPF_CORE_TYPE_ID_TARGET then Inr (field_val (ucast (sp_root_type_id spec)) (Some False))
          else if r_kind relo = BPF_CORE_TYPE_EXISTS \<or> r_kind relo = BPF_CORE_TYPE_MATCHES then Inr (field_val 1 (Some True))
          else if r_kind relo = BPF_CORE_TYPE_SIZE then
            (case btf__resolve_size (sp_btf spec) (sp_root_type_id spec) of
               Inl e \<Rightarrow> Inl EINVAL
             | Inr n \<Rightarrow> Inr (field_val (of_nat n) (Some True)))
          else Inl ENOTSUP)"

text \<open>The value of an enumerator of \<^verbatim>\<open>struct btf_enum\<close> is an \<open>__s32\<close>.\<close>

definition bpf_core_calc_enumval_relo :: "bpf_core_relo \<Rightarrow> bpf_core_spec option \<Rightarrow> field_val result" where
  "bpf_core_calc_enumval_relo relo spec =
     (if r_kind relo = BPF_CORE_ENUMVAL_EXISTS then Inr (field_val (of_bool (spec \<noteq> None)) None)
      else if r_kind relo = BPF_CORE_ENUMVAL_VALUE then
        (case spec of
           None \<Rightarrow> Inl EUCLEAN
         | Some spec \<Rightarrow>
             let acc = sp_spec spec ! 0; t = btf_type_by_id (sp_btf spec) (acc_type_id acc); i = unat (acc_idx acc)
             in Inr (field_val (if btf_is_enum t then scast (e_val (btf_enum_at t i))
                                else btf_enum64_value (btf_enum64_at t i)) None))
      else Inl ENOTSUP)"

definition relo_res_init :: bpf_core_relo_res where
  "relo_res_init = \<lparr>res_orig_val = 0, res_new_val = 0, res_poison = False, res_validate = True,
     res_fail_memsz_adjust = False, res_orig_sz = 0, res_orig_type_id = 0, res_new_sz = 0, res_new_type_id = 0\<rparr>"

definition set_orig :: "field_val \<Rightarrow> bpf_core_relo_res \<Rightarrow> bpf_core_relo_res" where
  "set_orig v res = res\<lparr>res_orig_val := f_val v, res_orig_sz := f_sz v, res_orig_type_id := f_type_id v,
     res_validate := (case f_validate v of None \<Rightarrow> res_validate res | Some b \<Rightarrow> b)\<rparr>"

definition set_new :: "field_val \<Rightarrow> bpf_core_relo_res \<Rightarrow> bpf_core_relo_res" where
  "set_new v res = res\<lparr>res_new_val := f_val v, res_new_sz := f_sz v, res_new_type_id := f_type_id v\<rparr>"

text \<open>Whether a load or store of another size reads the same value.\<close>

definition memsz_adjust_safe :: "btf_type \<Rightarrow> btf_type \<Rightarrow> bool" where
  "memsz_adjust_safe orig_t new_t \<longleftrightarrow>
     btf_is_ptr orig_t \<and> btf_is_ptr new_t \<or>
     btf_is_int orig_t \<and> btf_is_int new_t \<and>
     btf_int_encoding orig_t \<noteq> BTF_INT_SIGNED \<and> btf_int_encoding new_t \<noteq> BTF_INT_SIGNED"

text \<open>The original value and the new one; a request to poison the instruction is not an error.\<close>

definition both_vals ::
  "(bpf_core_spec option \<Rightarrow> field_val result run) \<Rightarrow> bpf_core_spec \<Rightarrow> bpf_core_spec option \<Rightarrow> bpf_core_relo_res result run" where
  "both_vals calc local_spec targ_spec =
     run_bind (calc (Some local_spec)) (\<lambda>r.
     case r of
       Inl e \<Rightarrow> if e = EUCLEAN then ok (relo_res_init\<lparr>res_poison := True\<rparr>) else err e
     | Inr orig \<Rightarrow>
         let res = set_orig orig relo_res_init in
         run_bind (calc targ_spec) (\<lambda>r.
         case r of
           Inl e \<Rightarrow> if e = EUCLEAN then ok (res\<lparr>res_poison := True\<rparr>) else err e
         | Inr new \<Rightarrow> ok (set_new new res)))"

definition bpf_core_calc_relo :: "bpf_core_relo \<Rightarrow> bpf_core_spec \<Rightarrow> bpf_core_spec option \<Rightarrow> bpf_core_relo_res result run" where
  "bpf_core_calc_relo relo local_spec targ_spec =
     (if core_relo_is_field_based (r_kind relo) then
        rr_bind (both_vals (bpf_core_calc_field_relo relo) local_spec targ_spec) (\<lambda>res.
        if res_poison res \<or> res_orig_sz res = res_new_sz res then ok res
        else
          run_bind (deref targ_spec) (\<lambda>targ_spec.
          ok (res\<lparr>res_fail_memsz_adjust :=
            (\<not> memsz_adjust_safe (btf_type_by_id (sp_btf local_spec) (res_orig_type_id res))
                 (btf_type_by_id (sp_btf targ_spec) (res_new_type_id res)))\<rparr>)))
      else if core_relo_is_type_based (r_kind relo) then
        both_vals (\<lambda>spec. Ret (bpf_core_calc_type_relo relo spec)) local_spec targ_spec
      else if core_relo_is_enumval_based (r_kind relo) then
        both_vals (\<lambda>spec. Ret (bpf_core_calc_enumval_relo relo spec)) local_spec targ_spec
      else err ENOTSUP)"

section \<open>Patching instructions\<close>

record bpf_insn =
  i_code :: u8
  i_dst_reg :: u8
  i_src_reg :: u8
  i_off :: u16
  i_imm :: u32

definition BPF_CLASS :: "u8 \<Rightarrow> u8" where "BPF_CLASS code = code AND 0x07"
definition BPF_SIZE :: "u8 \<Rightarrow> u8" where "BPF_SIZE code = code AND 0x18"
definition BPF_MODE :: "u8 \<Rightarrow> u8" where "BPF_MODE code = code AND 0xe0"
definition BPF_SRC :: "u8 \<Rightarrow> u8" where "BPF_SRC code = code AND 0x08"

definition is_ldimm64_insn :: "bpf_insn \<Rightarrow> bool" where
  "is_ldimm64_insn insn \<longleftrightarrow> i_code insn = 0x18"

definition poisoned :: bpf_insn where
  "poisoned = \<lparr>i_code = 0x85, i_dst_reg = 0, i_src_reg = 0, i_off = 0, i_imm = 195896080\<rparr>"

text \<open>
  The instructions of a program from the one to be patched on. The access to a second instruction that is not
  there is out of bounds.
\<close>

definition bpf_core_poison_insn :: "bpf_insn list \<Rightarrow> bpf_insn list run" where
  "bpf_core_poison_insn insn =
     (if is_ldimm64_insn (insn ! 0) then
        (if length insn < 2 then Crash else Ret (insn[0 := poisoned, 1 := poisoned]))
      else Ret (insn[0 := poisoned]))"

definition insn_bpf_size_to_bytes :: "bpf_insn \<Rightarrow> int" where
  "insn_bpf_size_to_bytes insn =
     (let s = BPF_SIZE (i_code insn)
      in if s = 0x18 then 8 else if s = 0x00 then 4 else if s = 0x08 then 2 else if s = 0x10 then 1 else - 1)"

definition insn_bytes_to_bpf_size :: "u32 \<Rightarrow> u8 option" where
  "insn_bytes_to_bpf_size n =
     (if n = 8 then Some 0x18 else if n = 4 then Some 0x00 else if n = 2 then Some 0x08
      else if n = 1 then Some 0x10 else None)"

text \<open>
  A comparison of a signed field with the 64-bit value extends the sign. The instructions are returned on
  errors too: the offset is patched before the size is checked.
\<close>

definition patch_mem :: "bpf_insn list \<Rightarrow> bpf_core_relo_res \<Rightarrow> (errno option \<times> bpf_insn list) run" where
  "patch_mem insn res =
     (let i0 = insn ! 0; new_val = res_new_val res in
      if res_poison res then run_bind (bpf_core_poison_insn insn) (\<lambda>insn. Ret (None, insn))
      else if res_validate res \<and> scast (i_off i0) \<noteq> res_orig_val res then Ret (Some EINVAL, insn)
      else if new_val > 32767 then Ret (Some ERANGE, insn)
      else if res_fail_memsz_adjust res then run_bind (bpf_core_poison_insn insn) (\<lambda>insn. Ret (None, insn))
      else
        let i0 = i0\<lparr>i_off := ucast new_val\<rparr>; insn = insn[0 := i0] in
        if res_new_sz res \<noteq> res_orig_sz res then
          (if word_of_int (insn_bpf_size_to_bytes i0) \<noteq> res_orig_sz res then Ret (Some EINVAL, insn)
           else case insn_bytes_to_bpf_size (res_new_sz res) of
                  None \<Rightarrow> Ret (Some EINVAL, insn)
                | Some bpf_sz \<Rightarrow>
                    Ret (None, insn[0 := i0\<lparr>i_code := BPF_MODE (i_code i0) OR bpf_sz OR BPF_CLASS (i_code i0)\<rparr>]))
        else Ret (None, insn))"

definition bpf_core_patch_insn :: "bpf_insn list \<Rightarrow> bpf_core_relo_res \<Rightarrow> (errno option \<times> bpf_insn list) run" where
  "bpf_core_patch_insn insn res =
     (let i0 = insn ! 0; cls = BPF_CLASS (i_code i0); orig_val = res_orig_val res; new_val = res_new_val res in
      if cls = 0x04 \<or> cls = 0x07 then
        (if BPF_SRC (i_code i0) \<noteq> 0x00 then Ret (Some EINVAL, insn)
         else if res_poison res then run_bind (bpf_core_poison_insn insn) (\<lambda>insn. Ret (None, insn))
         else if res_validate res \<and> scast (i_imm i0) \<noteq> orig_val then Ret (Some EINVAL, insn)
         else Ret (None, insn[0 := i0\<lparr>i_imm := ucast new_val\<rparr>]))
      else if cls = 0x01 \<or> cls = 0x02 \<or> cls = 0x03 then patch_mem insn res
      else if cls = 0x00 then
        (if \<not> is_ldimm64_insn i0 \<or> i_src_reg i0 \<noteq> 0 \<or> i_off i0 \<noteq> 0 then Ret (Some EINVAL, insn)
         else if length insn < 2 then Crash
         else
           let i1 = insn ! 1 in
           if i_code i1 \<noteq> 0 \<or> i_dst_reg i1 \<noteq> 0 \<or> i_src_reg i1 \<noteq> 0 \<or> i_off i1 \<noteq> 0 then Ret (Some EINVAL, insn)
           else if res_poison res then run_bind (bpf_core_poison_insn insn) (\<lambda>insn. Ret (None, insn))
           else
             let imm = ucast (i_imm i0) OR push_bit 32 (scast (i_imm i1)) in
             if res_validate res \<and> imm \<noteq> orig_val then Ret (Some EINVAL, insn)
             else Ret (None, insn[0 := i0\<lparr>i_imm := ucast new_val\<rparr>, 1 := i1\<lparr>i_imm := ucast (drop_bit 32 new_val)\<rparr>]))
      else Ret (Some EINVAL, insn))"

section \<open>Candidates\<close>

text \<open>
  The loop over the candidates, and the number of those kept at the front of the list; the first match decides the
  result.
\<close>

fun relo_cands ::
  "bpf_core_relo \<Rightarrow> bpf_core_spec \<Rightarrow> bpf_core_cand list \<Rightarrow> bpf_core_cand list \<Rightarrow> (bpf_core_relo_res \<times> bpf_core_spec) option \<Rightarrow>
     (bpf_core_cand list \<times> (bpf_core_relo_res \<times> bpf_core_spec) option) result run" where
  "relo_cands relo local_spec [] kept targ = ok (kept, targ)"
| "relo_cands relo local_spec ((btf, i) # cands) kept targ =
     run_bind (bpf_core_spec_match local_spec btf i) (\<lambda>(matched, cand_spec).
     case matched of
       Inl e \<Rightarrow> err e
     | Inr False \<Rightarrow> relo_cands relo local_spec cands kept targ
     | Inr True \<Rightarrow>
         rr_bind (bpf_core_calc_relo relo local_spec (Some cand_spec)) (\<lambda>cand_res.
         case targ of
           None \<Rightarrow> relo_cands relo local_spec cands (kept @ [(btf, i)]) (Some (cand_res, cand_spec))
         | Some (targ_res, targ_spec) \<Rightarrow>
             if sp_bit_offset cand_spec \<noteq> sp_bit_offset targ_spec then err EINVAL
             else if res_poison cand_res \<noteq> res_poison targ_res \<or> res_new_val cand_res \<noteq> res_new_val targ_res then err EINVAL
             else relo_cands relo local_spec cands (kept @ [(btf, i)]) targ))"

text \<open>The result, and the list of candidates as it is left.\<close>

definition bpf_core_calc_relo_insn ::
  "bpf_core_relo \<Rightarrow> btf \<Rightarrow> bpf_core_cand list \<Rightarrow> (bpf_core_relo_res \<times> bpf_core_cand list) result run" where
  "bpf_core_calc_relo_insn relo local_btf cands =
     (let local_type = btf_type_by_id local_btf (r_type_id relo);
          local_name = btf__name_by_offset local_btf (t_name_off local_type)
      in if local_name = None then err EINVAL
         else
           run_bind (bpf_core_parse_spec local_btf relo) (\<lambda>r.
           case r of
             Inl e \<Rightarrow> err EINVAL
           | Inr local_spec \<Rightarrow>
               if r_kind relo = BPF_CORE_TYPE_ID_LOCAL then
                 ok (relo_res_init\<lparr>res_validate := False, res_orig_val := ucast (sp_root_type_id local_spec),
                       res_new_val := ucast (sp_root_type_id local_spec)\<rparr>, cands)
               else if str_is_empty local_name then err ENOTSUP
               else
                 rr_bind (relo_cands relo local_spec cands [] None) (\<lambda>(kept, targ).
                 case targ of
                   Some (res, spec) \<Rightarrow> ok (res, kept)
                 | None \<Rightarrow> rr_bind (bpf_core_calc_relo relo local_spec None) (\<lambda>res. ok (res, cands)))))"

text \<open>The types of an object that have the essential name and a compatible kind.\<close>

definition is_cand :: "btf_type \<Rightarrow> bytes \<Rightarrow> nat \<Rightarrow> btf \<Rightarrow> u32 \<Rightarrow> bool" where
  "is_cand local_t local_name local_essent_len targ_btf i \<longleftrightarrow>
     (let t = btf_type_by_id targ_btf i; targ_name = btf__name_by_offset targ_btf (t_name_off t) in
      btf_kind_core_compat t local_t \<and> \<not> str_is_empty targ_name \<and>
      bpf_core_essential_name_len (the targ_name) = local_essent_len \<and>
      strncmp_eq local_name (the targ_name) local_essent_len)"

text \<open>\<open>mem_ok\<close> says whether the list can grow beyond the given length.\<close>

fun add_cands_loop :: "(nat \<Rightarrow> bool) \<Rightarrow> (u32 \<Rightarrow> bool) \<Rightarrow> btf \<Rightarrow> nat list \<Rightarrow> bpf_core_cand list \<Rightarrow> bpf_core_cand list result" where
  "add_cands_loop mem_ok p targ_btf [] cands = Inr cands"
| "add_cands_loop mem_ok p targ_btf (i # is) cands =
     (if \<not> p (of_nat i) then add_cands_loop mem_ok p targ_btf is cands
      else if \<not> mem_ok (length cands) then Inl ENOMEM
      else add_cands_loop mem_ok p targ_btf is (cands @ [(targ_btf, of_nat i)]))"

definition bpf_core_add_cands :: "(nat \<Rightarrow> bool) \<Rightarrow> btf \<Rightarrow> u32 \<Rightarrow> nat \<Rightarrow> btf \<Rightarrow> nat \<Rightarrow> bpf_core_cand list \<Rightarrow> bpf_core_cand list result" where
  "bpf_core_add_cands mem_ok local_btf local_id local_essent_len targ_btf targ_start_id cands =
     (let local_t = btf_type_by_id local_btf local_id;
          local_name = the (btf__str_by_offset local_btf (t_name_off local_t))
      in add_cands_loop mem_ok (is_cand local_t local_name local_essent_len targ_btf) targ_btf
           [targ_start_id..<unat (btf__type_cnt targ_btf)] cands)"

fun add_module_cands :: "(nat \<Rightarrow> bool) \<Rightarrow> btf \<Rightarrow> u32 \<Rightarrow> nat \<Rightarrow> nat \<Rightarrow> btf list \<Rightarrow> bpf_core_cand list \<Rightarrow> bpf_core_cand list result" where
  "add_module_cands mem_ok local_btf local_id n start [] cands = Inr cands"
| "add_module_cands mem_ok local_btf local_id n start (m # ms) cands =
     res_bind (bpf_core_add_cands mem_ok local_btf local_id n m start cands)
       (add_module_cands mem_ok local_btf local_id n start ms)"

text \<open>
  \<open>vmlinux\<close> is the BTF of the kernel, \<open>override\<close> the one given by the user; \<open>modules\<close> is the outcome of loading
  the BTF of the modules.
\<close>

definition bpf_core_find_cands ::
  "bool \<Rightarrow> (nat \<Rightarrow> bool) \<Rightarrow> btf \<Rightarrow> btf option \<Rightarrow> btf list result \<Rightarrow> btf \<Rightarrow> u32 \<Rightarrow> bpf_core_cand list result" where
  "bpf_core_find_cands calloc_ok mem_ok vmlinux override modules local_btf local_type_id =
     (case btf__type_by_id local_btf local_type_id of
        None \<Rightarrow> Inl EINVAL
      | Some local_t \<Rightarrow>
          let local_name = btf__name_by_offset local_btf (t_name_off local_t) in
          if str_is_empty local_name then Inl EINVAL
          else if \<not> calloc_ok then Inl ENOMEM
          else
            let n = bpf_core_essential_name_len (the local_name);
                main_btf = (case override of Some b \<Rightarrow> b | None \<Rightarrow> vmlinux)
            in res_bind (bpf_core_add_cands mem_ok local_btf local_type_id n main_btf 1 []) (\<lambda>cands.
               if cands \<noteq> [] then Inr cands
               else if override \<noteq> None then Inr cands
               else res_bind modules (\<lambda>ms.
                 add_module_cands mem_ok local_btf local_type_id n (unat (btf__type_cnt vmlinux)) ms cands)))"

text \<open>
  The candidates of a type are cached under its id. \<open>cands_of\<close> looks for the candidates, \<open>set_ok\<close> says whether
  the cache can take one more entry. The list in the cache is the one that the relocation shortens; after an error
  nothing is relocated any more and the cache is freed.
\<close>

definition cached_cands ::
  "(u32 \<Rightarrow> bpf_core_cand list result) \<Rightarrow> bool \<Rightarrow> u32 \<Rightarrow> (u32 \<rightharpoonup> bpf_core_cand list) \<Rightarrow>
     (bpf_core_cand list \<times> (u32 \<rightharpoonup> bpf_core_cand list)) result" where
  "cached_cands cands_of set_ok local_id cache =
     (case cache local_id of
        Some cands \<Rightarrow> Inr (cands, cache)
      | None \<Rightarrow>
          res_bind (cands_of local_id) (\<lambda>cands.
          if set_ok then Inr (cands, cache(local_id \<mapsto> cands)) else Inl ENOMEM))"

definition bpf_core_resolve_relo ::
  "(u32 \<Rightarrow> bpf_core_cand list result) \<Rightarrow> bool \<Rightarrow> bpf_core_relo \<Rightarrow> btf \<Rightarrow> (u32 \<rightharpoonup> bpf_core_cand list) \<Rightarrow>
     (bpf_core_relo_res \<times> (u32 \<rightharpoonup> bpf_core_cand list)) result run" where
  "bpf_core_resolve_relo cands_of set_ok relo local_btf cache =
     (let local_id = r_type_id relo in
      case btf__type_by_id local_btf local_id of
        None \<Rightarrow> err EINVAL
      | Some local_type \<Rightarrow>
          if btf__name_by_offset local_btf (t_name_off local_type) = None then err EINVAL
          else if r_kind relo = BPF_CORE_TYPE_ID_LOCAL then
            rr_bind (bpf_core_calc_relo_insn relo local_btf []) (\<lambda>(res, cands). ok (res, cache))
          else
            rr_bind (Ret (cached_cands cands_of set_ok local_id cache)) (\<lambda>(cands, cache).
            rr_bind (bpf_core_calc_relo_insn relo local_btf cands) (\<lambda>(res, cands).
            ok (res, cache(local_id \<mapsto> cands)))))"

end
