(* ===== verification/CoreSound.thy ===== *)
theory CoreSound
  imports BtfLookup Core
begin

text \<open>
  What the relocation of instructions by type information promises: loops over type references end exactly when the
  references do, and the values computed for a bitfield read exactly that field.
\<close>

section \<open>Loops over references\<close>

text \<open>A number of moves, each of which must be possible.\<close>

primrec moves :: "nat \<Rightarrow> ('a \<Rightarrow> 'a option) \<Rightarrow> 'a \<Rightarrow> 'a option" where
  "moves 0 f x = Some x"
| "moves (Suc n) f x = (case f x of None \<Rightarrow> None | Some y \<Rightarrow> moves n f y)"

lemma moves_add: "moves (m + n) f x = (case moves m f x of None \<Rightarrow> None | Some y \<Rightarrow> moves n f y)"
  by (induction m arbitrary: x) (auto split: option.splits)

lemma moves_less: "moves n f x \<noteq> None \<Longrightarrow> m \<le> n \<Longrightarrow> moves m f x \<noteq> None"
  using moves_add [of m "n - m" f x] by (auto split: option.splits)

lemma chase_Some: "chase n f x = Some y \<longleftrightarrow> (\<exists>k\<le>n. moves k f x = Some y \<and> f y = None)"
proof (induction n arbitrary: x)
  case 0
  then show ?case by (auto split: option.splits)
next
  case (Suc n)
  show ?case
  proof (cases "f x")
    case None
    have "(\<exists>k\<le>Suc n. moves k f x = Some y \<and> f y = None) \<longleftrightarrow> y = x"
    proof
      assume "\<exists>k\<le>Suc n. moves k f x = Some y \<and> f y = None"
      then obtain k where "moves k f x = Some y" by blast
      then show "y = x" using None by (cases k) auto
    next
      assume "y = x"
      then show "\<exists>k\<le>Suc n. moves k f x = Some y \<and> f y = None" using None by (intro exI [of _ 0]) simp
    qed
    then show ?thesis using None by auto
  next
    case (Some z)
    have "(\<exists>k\<le>Suc n. moves k f x = Some y \<and> f y = None) \<longleftrightarrow> (\<exists>k\<le>n. moves k f z = Some y \<and> f y = None)"
    proof
      assume "\<exists>k\<le>Suc n. moves k f x = Some y \<and> f y = None"
      then obtain k where k: "k \<le> Suc n" "moves k f x = Some y" "f y = None" by blast
      then show "\<exists>k\<le>n. moves k f z = Some y \<and> f y = None" using Some by (cases k) auto
    next
      assume "\<exists>k\<le>n. moves k f z = Some y \<and> f y = None"
      then obtain k where "k \<le> n" "moves k f z = Some y" "f y = None" by blast
      then show "\<exists>k\<le>Suc n. moves k f x = Some y \<and> f y = None" using Some by (intro exI [of _ "Suc k"]) simp
    qed
    then show ?thesis using Some Suc.IH by simp
  qed
qed

lemma chase_None: "chase n f x = None \<longleftrightarrow> moves (Suc n) f x \<noteq> None"
  by (induction n arbitrary: x) (auto split: option.splits)

lemma chase_stop: "f x = None \<Longrightarrow> chase n f x = Some x"
  by (cases n) simp_all

lemma moves_cycle:
  assumes "moves d f y = Some y" "0 < d"
  shows "moves n f y \<noteq> None"
proof -
  have "moves (m * d) f y = Some y" for m
    by (induction m) (simp_all add: moves_add assms(1))
  from this [of n] have "moves (n * d) f y \<noteq> None" by simp
  then show ?thesis by (rule moves_less) (use assms(2) in simp)
qed

text \<open>With fewer states than moves, a state has come up twice and the moves never end.\<close>

lemma moves_revisit:
  assumes fin: "finite {x. f x \<noteq> None}" and card: "card {x. f x \<noteq> None} \<le> n"
    and "moves (Suc n) f x \<noteq> None"
  obtains i d y where "moves i f x = Some y" "moves d f y = Some y" "0 < d"
proof -
  have def_le: "moves k f x \<noteq> None" if "k \<le> Suc n" for k using moves_less [OF assms(3) that] .
  define v where "v k = the (moves k f x)" for k
  have v: "moves k f x = Some (v k)" if "k \<le> Suc n" for k using def_le [OF that] by (auto simp: v_def)
  have dom: "f (v k) \<noteq> None" if "k \<le> n" for k
    using def_le [of "k + 1"] v [of k] that moves_add [of k 1 f x] by (auto split: option.splits)
  have "\<not> inj_on v {0..n}"
  proof
    assume "inj_on v {0..n}"
    then have "card (v ` {0..n}) = Suc n" by (simp add: card_image)
    moreover have "card (v ` {0..n}) \<le> card {x. f x \<noteq> None}" using dom by (intro card_mono fin) auto
    ultimately show False using card by simp
  qed
  then obtain i j where ij: "i < j" "j \<le> n" "v i = v j"
    by (auto simp: inj_on_def) (metis linorder_neqE_nat)
  have "moves (j - i) f (v i) = Some (v i)"
    using moves_add [of i "j - i" f x] ij v [of i] v [of j] by simp
  then show ?thesis using that [of i "v i" "j - i"] v [of i] ij by simp
qed

lemma moves_forever:
  assumes "finite {x. f x \<noteq> None}" "card {x. f x \<noteq> None} \<le> n" "moves (Suc n) f x \<noteq> None"
  shows "moves m f x \<noteq> None"
proof -
  obtain i d y where "moves i f x = Some y" "moves d f y = Some y" "0 < d" by (rule moves_revisit [OF assms])
  then have "moves (i + m) f x \<noteq> None" using moves_cycle [of d f y m] moves_add [of i m f x] by simp
  then show ?thesis by (rule moves_less) simp
qed

lemma chase_exact:
  assumes "finite {x. f x \<noteq> None}" "card {x. f x \<noteq> None} \<le> n"
  shows "chase n f x = None \<longleftrightarrow> (\<forall>m. moves m f x \<noteq> None)"
    and "chase n f x = Some y \<longleftrightarrow> (\<exists>k. moves k f x = Some y \<and> f y = None)"
proof -
  show none: "chase n f x = None \<longleftrightarrow> (\<forall>m. moves m f x \<noteq> None)"
    using moves_forever [OF assms] by (auto simp: chase_None simp del: moves.simps)
  show "chase n f x = Some y \<longleftrightarrow> (\<exists>k. moves k f x = Some y \<and> f y = None)"
  proof
    assume "\<exists>k. moves k f x = Some y \<and> f y = None"
    then obtain k where k: "moves k f x = Some y" "f y = None" by blast
    have "moves (k + 1) f x = None" using k moves_add [of k 1 f x] by simp
    then have "chase n f x \<noteq> None" using none by blast
    then obtain z where z: "chase n f x = Some z" by blast
    then obtain k' where k': "moves k' f x = Some z" "f z = None" by (auto simp: chase_Some)
    have "k' = k"
    proof (rule ccontr)
      assume "k' \<noteq> k"
      then consider "k < k'" | "k' < k" by linarith
      then show False
        using moves_less [of k' f x "k + 1"] moves_less [of k f x "k' + 1"] k k' moves_add [of k 1 f x] moves_add [of k' 1 f x]
        by cases simp_all
    qed
    then show "chase n f x = Some y" using z k k' by simp
  qed (auto simp: chase_Some)
qed

lemma skip_step_dom: "skip_step btf i \<noteq> None \<Longrightarrow> i < btf__type_cnt btf"
  by (auto simp: skip_step_def btf__type_by_id_def btf__type_cnt_def split: option.splits if_splits)

lemma skip_step_finite: "finite {i. skip_step btf i \<noteq> None}" "card {i. skip_step btf i \<noteq> None} \<le> unat (btf__type_cnt btf)"
proof -
  have sub: "unat ` {i. skip_step btf i \<noteq> None} \<subseteq> {..<unat (btf__type_cnt btf)}"
    using skip_step_dom by (auto simp: word_less_nat_alt)
  show "finite {i. skip_step btf i \<noteq> None}" by simp
  have "card (unat ` {i. skip_step btf i \<noteq> None}) \<le> unat (btf__type_cnt btf)"
    using card_mono [OF _ sub] by simp
  moreover have "inj_on unat {i. skip_step btf i \<noteq> None}" by (auto simp: inj_on_def unsigned_word_eqI)
  ultimately show "card {i. skip_step btf i \<noteq> None} \<le> unat (btf__type_cnt btf)" by (simp only: card_image)
qed

lemma skip_moves:
  shows "(skip_mods_and_typedefs btf i = Ret (t, j)) =
           (\<exists>n. moves n (skip_step btf) i = Some j \<and> btf__type_by_id btf j = Some t \<and> \<not> is_ref t)
         \<and> (skip_mods_and_typedefs btf i = Crash) =
           (\<exists>n k. moves n (skip_step btf) i = Some k \<and> btf__type_by_id btf k = None)
         \<and> (skip_mods_and_typedefs btf i = Diverge) = (\<forall>n. moves n (skip_step btf) i \<noteq> None)"
proof -
  note ex = chase_exact [OF skip_step_finite]
  have stop: "skip_step btf k = None \<longleftrightarrow> (case btf__type_by_id btf k of None \<Rightarrow> True | Some t \<Rightarrow> \<not> is_ref t)" for k
    by (simp add: skip_step_def split: option.splits)
  show ?thesis
  proof (cases "chase (unat (btf__type_cnt btf)) (skip_step btf) i")
    case None
    then have inf: "\<forall>m. moves m (skip_step btf) i \<noteq> None" using ex(1) by blast
    have "\<exists>t. btf__type_by_id btf k = Some t \<and> is_ref t" if "moves n (skip_step btf) i = Some k" for n k
      using inf [rule_format, of "n + 1"] that moves_add [of n 1 "skip_step btf" i] stop [of k]
      by (cases "btf__type_by_id btf k") (auto split: option.splits)
    then have "\<nexists>n. moves n (skip_step btf) i = Some j \<and> btf__type_by_id btf j = Some t \<and> \<not> is_ref t"
      "\<nexists>n k. moves n (skip_step btf) i = Some k \<and> btf__type_by_id btf k = None" by fastforce+
    then show ?thesis using None inf by (simp add: skip_mods_and_typedefs_def)
  next
    case (Some k)
    have k: "\<exists>n. moves n (skip_step btf) i = Some k" "skip_step btf k = None" using Some ex(2) by blast+
    have uniq: "k' = k" if "moves n (skip_step btf) i = Some k'" "skip_step btf k' = None" for n k'
      using Some ex(2) [of btf i k'] that by auto
    have fin: "\<exists>m. moves m (skip_step btf) i = None" using Some ex(1) [of btf i] by auto
    show ?thesis
    proof (cases "btf__type_by_id btf k")
      case no: None
      have "skip_mods_and_typedefs btf i = Crash" using Some no by (simp add: skip_mods_and_typedefs_def)
      moreover have "\<nexists>n. moves n (skip_step btf) i = Some j \<and> btf__type_by_id btf j = Some t \<and> \<not> is_ref t"
        using uniq [of _ j] no stop [of j] by auto
      ultimately show ?thesis using k(1) no fin by auto
    next
      case ty: (Some t')
      have "skip_mods_and_typedefs btf i = Ret (t', k)" using Some ty by (simp add: skip_mods_and_typedefs_def)
      moreover have "\<not> is_ref t'" using k(2) ty by (simp add: stop)
      moreover have "(\<exists>n. moves n (skip_step btf) i = Some j \<and> btf__type_by_id btf j = Some t \<and> \<not> is_ref t) \<longleftrightarrow> t = t' \<and> j = k"
        using uniq [of _ j] k(1) ty stop [of j] \<open>\<not> is_ref t'\<close> by auto
      moreover have "\<nexists>n k. moves n (skip_step btf) i = Some k \<and> btf__type_by_id btf k = None"
        using uniq ty stop by (metis option.case_eq_if option.distinct(1))
      ultimately show ?thesis using fin by auto
    qed
  qed
qed

text \<open>
  A type refers to the type that its \<open>type\<close> word names if it is a typedef, volatile, const, restrict or type tag.
\<close>

definition refers :: "btf \<Rightarrow> u32 \<Rightarrow> u32 \<Rightarrow> bool" where
  "refers btf i j \<longleftrightarrow> (\<exists>t. btf__type_by_id btf i = Some t \<and> btf_kind t \<in> {8, 9, 10, 11, 18} \<and> t_type t = j)"

lemma is_ref_kinds: "is_ref t \<longleftrightarrow> btf_kind t \<in> {8, 9, 10, 11, 18}"
  by (auto simp: is_ref_def btf_is_mod_def btf_is_typedef_def)

lemma refers_step: "refers btf = (\<lambda>i j. skip_step btf i = Some j)"
  by (intro ext) (auto simp: refers_def skip_step_def is_ref_kinds split: option.splits)

lemma moves_star: "(\<lambda>x y. f x = Some y)\<^sup>*\<^sup>* x y \<longleftrightarrow> (\<exists>n. moves n f x = Some y)"
proof
  assume "(\<lambda>x y. f x = Some y)\<^sup>*\<^sup>* x y"
  then show "\<exists>n. moves n f x = Some y"
  proof (induction rule: converse_rtranclp_induct)
    case base
    show ?case by (intro exI [of _ 0]) simp
  next
    case (step x z)
    then obtain n where "moves n f z = Some y" by blast
    then show ?case using step(1) by (intro exI [of _ "Suc n"]) simp
  qed
next
  have "moves n f x = Some y \<Longrightarrow> (\<lambda>x y. f x = Some y)\<^sup>*\<^sup>* x y" for n
    by (induction n arbitrary: x) (auto split: option.splits intro: converse_rtranclp_into_rtranclp)
  then show "\<exists>n. moves n f x = Some y \<Longrightarrow> (\<lambda>x y. f x = Some y)\<^sup>*\<^sup>* x y" by blast
qed

lemma moves_plus: "(\<lambda>x y. f x = Some y)\<^sup>+\<^sup>+ x y \<longleftrightarrow> (\<exists>n. moves (Suc n) f x = Some y)"
  unfolding tranclp_unfold_left moves_star by (auto split: option.splits)

lemma moves_forever_cycle:
  assumes "finite {x. f x \<noteq> None}" "card {x. f x \<noteq> None} \<le> n"
  shows "(\<forall>m. moves m f x \<noteq> None) \<longleftrightarrow> (\<exists>y. (\<lambda>x y. f x = Some y)\<^sup>*\<^sup>* x y \<and> (\<lambda>x y. f x = Some y)\<^sup>+\<^sup>+ y y)"
  unfolding moves_star moves_plus
proof
  assume "\<forall>m. moves m f x \<noteq> None"
  then obtain i d y where "moves i f x = Some y" "moves d f y = Some y" "0 < d" using moves_revisit [OF assms] by metis
  then show "\<exists>y. (\<exists>n. moves n f x = Some y) \<and> (\<exists>n. moves (Suc n) f y = Some y)" by (metis Suc_pred)
next
  assume "\<exists>y. (\<exists>n. moves n f x = Some y) \<and> (\<exists>n. moves (Suc n) f y = Some y)"
  then obtain y i d where y: "moves i f x = Some y" "moves (Suc d) f y = Some y" by blast
  have "moves (i + m) f x \<noteq> None" for m using moves_cycle [OF y(2), of m] y(1) moves_add [of i m f x] by simp
  then show "\<forall>m. moves m f x \<noteq> None" using moves_less by (metis le_add2)
qed

text \<open>
  C16. Following modifiers and typedefs ends with a type exactly if a chain of references leads to that type and it is
  none of those that refer to another; it dereferences NULL exactly if a chain of references leads to an id that does not
  exist; and it never ends exactly if a chain of references leads into a cycle.
\<close>

theorem skip_mods_and_typedefs_exact:
  shows "(skip_mods_and_typedefs btf i = Ret (t, j)) =
           ((refers btf)\<^sup>*\<^sup>* i j \<and> btf__type_by_id btf j = Some t \<and> btf_kind t \<notin> {8, 9, 10, 11, 18})
         \<and> (skip_mods_and_typedefs btf i = Crash) = (\<exists>k. (refers btf)\<^sup>*\<^sup>* i k \<and> btf__type_by_id btf k = None)
         \<and> (skip_mods_and_typedefs btf i = Diverge) = (\<exists>k. (refers btf)\<^sup>*\<^sup>* i k \<and> (refers btf)\<^sup>+\<^sup>+ k k)"
  using skip_moves [of btf i t j] moves_forever_cycle [OF skip_step_finite, of btf i]
  unfolding refers_step is_ref_kinds moves_star by blast

section \<open>Reading a field\<close>

text \<open>The unit of memory around a bitfield contains it, and no smaller unit in the series does.\<close>

definition unit_holds :: "nat \<Rightarrow> nat \<Rightarrow> nat \<Rightarrow> bool" where
  "unit_holds bit_off bit_sz n \<longleftrightarrow> bit_off + bit_sz \<le> bit_off div 8 div n * n * 8 + n * 8"

lemma unit_off:
  fixes bit_off n :: u32
  shows "unat (bit_off div 8 div n * n) = unat bit_off div 8 div unat n * unat n"
    and "unat (bit_off div 8 div n * n * 8) = unat bit_off div 8 div unat n * unat n * 8"
    and "unat bit_off div 8 div unat n * unat n * 8 \<le> unat bit_off"
proof -
  have "unat bit_off div 8 div unat n * unat n \<le> unat bit_off div 8" by simp
  then have le: "unat bit_off div 8 div unat n * unat n * 8 \<le> unat bit_off div 8 * 8" by (rule mult_le_mono1)
  also have "\<dots> \<le> unat bit_off" by simp
  finally show le2: "unat bit_off div 8 div unat n * unat n * 8 \<le> unat bit_off" .
  have b: "unat bit_off < 2 ^ 32" by (rule unat_less_u32)
  show eq: "unat (bit_off div 8 div n * n) = unat bit_off div 8 div unat n * unat n"
    using le2 b by (subst unat_mult_lem [THEN iffD1]) (simp_all add: unat_div)
  show "unat (bit_off div 8 div n * n * 8) = unat bit_off div 8 div unat n * unat n * 8"
    using le2 b by (subst unat_mult_lem [THEN iffD1]) (simp_all add: eq mult.commute [of "unat n"])
qed

lemma unit_test:
  fixes bit_off bit_sz n :: u32
  assumes "unat bit_off + unat bit_sz < 2 ^ 32" "unat n \<le> 8"
  shows "bit_off + bit_sz - bit_off div 8 div n * n * 8 > n * 8 \<longleftrightarrow> \<not> unit_holds (unat bit_off) (unat bit_sz) (unat n)"
    and "unat (bit_off + bit_sz - bit_off div 8 div n * n * 8) =
           unat bit_off + unat bit_sz - unat bit_off div 8 div unat n * unat n * 8"
proof -
  have s: "unat (bit_off + bit_sz) = unat bit_off + unat bit_sz" using assms(1) by (simp add: unat_word_ariths)
  show d: "unat (bit_off + bit_sz - bit_off div 8 div n * n * 8) =
           unat bit_off + unat bit_sz - unat bit_off div 8 div unat n * unat n * 8"
    using unit_off(2,3) [of bit_off n] s by (subst unat_sub) (simp_all add: word_le_nat_alt)
  have "unat (n * 8) = unat n * 8" using assms(2) by (simp add: unat_word_ariths)
  then show "bit_off + bit_sz - bit_off div 8 div n * n * 8 > n * 8 \<longleftrightarrow> \<not> unit_holds (unat bit_off) (unat bit_sz) (unat n)"
    using d unit_off(3) [of bit_off n] by (auto simp: word_less_nat_alt unit_holds_def)
qed

lemma bitfield_unit_ok:
  assumes "bitfield_unit bit_off bit_sz byte_sz = ok (n, off)"
    and "unat bit_off + unat bit_sz < 2 ^ 32" "unat n \<le> 8"
  shows "n \<noteq> 0 \<and> off = bit_off div 8 div n * n \<and> unit_holds (unat bit_off) (unat bit_sz) (unat n) \<and>
    (\<exists>k. unat n = unat byte_sz * 2 ^ k \<and> (\<forall>j<k. \<not> unit_holds (unat bit_off) (unat bit_sz) (unat byte_sz * 2 ^ j)))"
  using assms
proof (induction bit_off bit_sz byte_sz rule: bitfield_unit.induct)
  case (1 bit_off bit_sz byte_sz)
  define byte_off where "byte_off = bit_off div 8 div byte_sz * byte_sz"
  have nz: "byte_sz \<noteq> 0" using "1.prems"(1) by (auto simp: bitfield_unit.simps [of bit_off bit_sz byte_sz])
  show ?case
  proof (cases "bit_off + bit_sz - byte_off * 8 > byte_sz * 8")
    case True
    then have small: "\<not> byte_sz \<ge> 8" and eq: "bitfield_unit bit_off bit_sz (byte_sz * 2) = ok (n, off)"
      using "1.prems"(1) nz
      by (auto simp: bitfield_unit.simps [of bit_off bit_sz byte_sz] Let_def byte_off_def split: if_split_asm)
    then have lt: "unat byte_sz < 8" by (simp add: word_le_nat_alt)
    then have dbl: "unat (byte_sz * 2) = unat byte_sz * 2" by (simp add: unat_word_ariths)
    have first: "\<not> unit_holds (unat bit_off) (unat bit_sz) (unat byte_sz)"
      using True unit_test(1) [OF "1.prems"(2), of byte_sz] lt by (simp add: byte_off_def)
    obtain k where IH: "n \<noteq> 0" "off = bit_off div 8 div n * n" "unit_holds (unat bit_off) (unat bit_sz) (unat n)"
      "unat n = unat (byte_sz * 2) * 2 ^ k"
      "\<forall>j<k. \<not> unit_holds (unat bit_off) (unat bit_sz) (unat (byte_sz * 2) * 2 ^ j)"
      using "1.IH" [OF nz refl _ small eq "1.prems"(2,3)] True by (auto simp: byte_off_def)
    have "\<not> unit_holds (unat bit_off) (unat bit_sz) (unat byte_sz * 2 ^ j)" if "j < Suc k" for j
      using that IH(5) first dbl by (cases j) (auto simp: mult.assoc)
    moreover have "unat n = unat byte_sz * 2 ^ Suc k" using IH(4) dbl by simp
    ultimately show ?thesis using IH(1-3) by blast
  next
    case False
    then have eq: "n = byte_sz" "off = byte_off"
      using "1.prems"(1) nz by (auto simp: bitfield_unit.simps [of bit_off bit_sz byte_sz] Let_def byte_off_def)
    then have "unit_holds (unat bit_off) (unat bit_sz) (unat n)"
      using False unit_test(1) [OF "1.prems"(2), of byte_sz] "1.prems"(3) by (simp add: byte_off_def)
    then show ?thesis using nz eq by (intro conjI exI [of _ 0]) (simp_all add: byte_off_def)
  qed
qed

text \<open>
  The two shifts cut out the bits from \<open>d\<close> on, \<open>b\<close> of them.
\<close>

lemma shift_extract:
  fixes v :: u64
  assumes "d + b \<le> 64"
  shows "drop_bit (64 - b) (push_bit (64 - (d + b)) v) = take_bit b (drop_bit d v)"
  using assms by (intro bit_word_eqI) (auto simp: bit_drop_bit_eq bit_push_bit_iff bit_take_bit_iff ac_simps)

lemma signed_shift_extract:
  fixes v :: u64
  assumes "d + b \<le> 64" "0 < b"
  shows "signed_drop_bit (64 - b) (push_bit (64 - (d + b)) v) = signed_take_bit (b - 1) (drop_bit d v)"
proof (rule bit_word_eqI)
  fix n assume "n < LENGTH(64)"
  then consider "n < b - 1" | "n = b - 1" | "b \<le> n" "n < 64" using assms by fastforce
  then show "bit (signed_drop_bit (64 - b) (push_bit (64 - (d + b)) v)) n = bit (signed_take_bit (b - 1) (drop_bit d v)) n"
    using assms
    by cases (auto simp: bit_signed_drop_bit_iff bit_drop_bit_eq bit_push_bit_iff bit_signed_take_bit_iff min_def ac_simps)
qed

text \<open>
  Memory is a number, its bytes in little-endian order; a load of \<open>n\<close> bytes, \<open>n\<close> at most 8, gives a 64-bit value.
\<close>

definition load :: "nat \<Rightarrow> nat \<Rightarrow> nat \<Rightarrow> u64" where
  "load mem off n = of_nat (take_bit (8 * n) (drop_bit (8 * off) mem))"

lemma load_bits:
  assumes "8 * off + d = a" "d + b \<le> 8 * n" "n \<le> 8"
  shows "take_bit b (drop_bit d (load mem off n)) = (of_nat (take_bit b (drop_bit a mem)) :: u64)"
    and "0 < b \<Longrightarrow> signed_take_bit (b - 1) (drop_bit d (load mem off n)) = (signed_take_bit (b - 1) (of_nat (drop_bit a mem)) :: u64)"
proof -
  have bits: "bit (drop_bit d (load mem off n)) i = bit mem (a + i)" if "i < b" for i
    using that assms
    by (auto simp: load_def bit_drop_bit_eq bit_take_bit_iff bit_of_nat_iff add.assoc [symmetric])
  show "take_bit b (drop_bit d (load mem off n)) = (of_nat (take_bit b (drop_bit a mem)) :: u64)"
    using bits assms
    by (intro bit_word_eqI) (auto simp: bit_take_bit_iff bit_drop_bit_eq bit_of_nat_iff)
  assume "0 < b"
  then obtain c where "b = Suc c" by (cases b) simp_all
  then show "signed_take_bit (b - 1) (drop_bit d (load mem off n)) = (signed_take_bit (b - 1) (of_nat (drop_bit a mem)) :: u64)"
    using bits assms
    by (intro bit_word_eqI) (auto simp: bit_signed_take_bit_iff bit_of_nat_iff bit_drop_bit_eq [of d] bit_drop_bit_eq [of a] min_def)
qed

text \<open>What all relocations of a member share: its type, its size in bits, and the unit of memory it is read from.\<close>

definition field_extent :: "bpf_core_spec \<Rightarrow> (btf_type \<times> u32 \<times> bool \<times> u32 \<times> u32 \<times> u32) result run" where
  "field_extent spec =
     (let acc = sp_spec spec ! (sp_len spec - 1); t = btf_type_by_id (sp_btf spec) (acc_type_id acc);
          i = unat (acc_idx acc); bit_sz = btf_member_bitfield_size t i
      in run_bind (skip_mods_and_typedefs (sp_btf spec) (m_type (btf_member_at t i))) (\<lambda>(mt, field_type_id).
         if bit_sz > 0 then
           rr_bind (bitfield_unit (sp_bit_offset spec) bit_sz (t_size mt)) (\<lambda>(byte_sz, byte_off).
           ok (mt, field_type_id, True, bit_sz, byte_sz, byte_off))
         else case btf__resolve_size (sp_btf spec) field_type_id of
                Inl e \<Rightarrow> err EINVAL
              | Inr n \<Rightarrow> ok (mt, field_type_id, False, of_nat n * 8, of_nat n, sp_bit_offset spec div 8)))"

lemma run_bind_assoc: "run_bind (run_bind r f) g = run_bind r (\<lambda>x. run_bind (f x) g)"
  by (cases r) simp_all

lemma rr_bind_assoc: "rr_bind (rr_bind r f) g = rr_bind r (\<lambda>x. rr_bind (f x) g)"
  by (cases r) (auto simp: rr_bind_def split: sum.splits)

lemma rr_run_bind: "rr_bind (run_bind r f) g = run_bind r (\<lambda>x. rr_bind (f x) g)"
  by (cases r) simp_all

lemma calc_field_relo_extent:
  assumes "r_kind relo \<noteq> BPF_CORE_FIELD_EXISTS" "acc_name (sp_spec spec ! (sp_len spec - 1)) \<noteq> None"
  shows "bpf_core_calc_field_relo relo (Some spec) =
    rr_bind (field_extent spec) (\<lambda>(mt, ft, bitfield, bit_sz, byte_sz, byte_off). member_relo relo spec mt ft bitfield bit_sz byte_sz byte_off)"
proof -
  define acc where "acc = sp_spec spec ! (sp_len spec - 1)"
  define t where "t = btf_type_by_id (sp_btf spec) (acc_type_id acc)"
  obtain name where named: "acc_name acc = Some name" using assms(2) by (auto simp: acc_def)
  note defs = bpf_core_calc_field_relo_def field_extent_def Let_def acc_def [symmetric] t_def [symmetric]
  show ?thesis
  proof (cases "skip_mods_and_typedefs (sp_btf spec) (m_type (btf_member_at t (unat (acc_idx acc))))")
    case (Ret x)
    then show ?thesis using assms(1) named
      by (cases x) (simp add: defs rr_bind_assoc case_prod_unfold split: sum.splits del: One_nat_def)
  qed (use assms(1) named in \<open>simp_all add: defs del: One_nat_def\<close>)
qed

lemma field_extent_covers:
  assumes "field_extent spec = ok (mt, ft, bitfield, bit_sz, byte_sz, byte_off)"
    and "\<not> bitfield \<Longrightarrow> 8 dvd unat (sp_bit_offset spec)"
    and "unat (sp_bit_offset spec) + unat bit_sz < 2 ^ 32" "unat byte_sz \<le> 8"
  obtains d where "8 * unat byte_off + d = unat (sp_bit_offset spec)" "d + unat bit_sz \<le> 8 * unat byte_sz"
proof (cases bitfield)
  case True
  then have "bitfield_unit (sp_bit_offset spec) bit_sz (t_size mt) = ok (byte_sz, byte_off)"
    using assms(1) by (auto simp: field_extent_def Let_def run_bind_eq_Ret rr_bind_eq_ok split: if_split_asm sum.splits)
  then have *: "byte_off = sp_bit_offset spec div 8 div byte_sz * byte_sz"
    "unit_holds (unat (sp_bit_offset spec)) (unat bit_sz) (unat byte_sz)"
    using bitfield_unit_ok assms(3,4) by blast+
  let ?o = "unat (sp_bit_offset spec) div 8 div unat byte_sz * unat byte_sz"
  show ?thesis
  proof (rule that)
    show "8 * unat byte_off + (unat (sp_bit_offset spec) - ?o * 8) = unat (sp_bit_offset spec)"
      unfolding *(1) unit_off(1) using unit_off(3) [of "sp_bit_offset spec" byte_sz] by simp
    show "unat (sp_bit_offset spec) - ?o * 8 + unat bit_sz \<le> 8 * unat byte_sz"
      using *(2) unit_off(3) [of "sp_bit_offset spec" byte_sz] by (simp add: unit_holds_def)
  qed
next
  case False
  then have *: "bit_sz = byte_sz * 8" "byte_off = sp_bit_offset spec div 8"
    using assms(1) by (auto simp: field_extent_def Let_def run_bind_eq_Ret rr_bind_eq_ok split: if_split_asm sum.splits)
  have "unat bit_sz = unat byte_sz * 8" using *(1) assms(4) by (simp add: unat_word_ariths)
  moreover have "8 * unat byte_off = unat (sp_bit_offset spec)" using *(2) assms(2) [OF False] by (simp add: unat_div)
  ultimately show ?thesis using that [of 0] by simp
qed

lemma member_relo_offset:
  assumes "member_relo relo spec mt ft bitfield bit_sz byte_sz byte_off = ok v" "r_kind relo = BPF_CORE_FIELD_BYTE_OFFSET"
  shows "f_val v = ucast byte_off"
proof (cases bitfield)
  case False
  then obtain elem where "skip_arrays (sp_btf spec) ft = Ret elem"
    using assms by (auto simp: member_relo_def run_bind_eq_Ret)
  then show ?thesis using False assms
    by (cases "btf__resolve_size (sp_btf spec) elem") (auto simp: member_relo_def field_val_def)
qed (use assms in \<open>auto simp: member_relo_def field_val_def\<close>)

text \<open>A type has one size by its definition, and the same size as the types that refer to it.\<close>

lemma sized_unique: "sized btf t k v \<Longrightarrow> sized btf t k' v' \<Longrightarrow> v' = v"
proof (induction arbitrary: k' v' rule: sized.induct)
  case (sized_own t)
  from sized_own(3) show ?case by (cases rule: sized.cases) (use sized_own(1,2) in auto)
next
  case (sized_ptr t)
  from sized_ptr(3) show ?case by (cases rule: sized.cases) (use sized_ptr(1,2) in auto)
next
  case (sized_alias t t' k n)
  from sized_alias(6) show ?case by (cases rule: sized.cases) (use sized_alias(1-3) in \<open>auto dest: sized_alias.IH\<close>)
next
  case (sized_array t t' k n)
  from sized_array(6) show ?case by (cases rule: sized.cases) (use sized_array(1-3) in \<open>auto dest: sized_array.IH\<close>)
qed

lemma void_kind: "btf__type_by_id btf i = Some t \<Longrightarrow> t_void t \<Longrightarrow> btf_kind t = 0"
proof -
  have "t_void (btf_type_by_id btf i) \<Longrightarrow> btf_kind (btf_type_by_id btf i) = 0"
    by (induction btf i rule: btf_type_by_id.induct) (auto simp: type_in_part_def split: option.splits if_splits)
  then show "btf__type_by_id btf i = Some t \<Longrightarrow> t_void t \<Longrightarrow> btf_kind t = 0"
    by (auto simp: btf__type_by_id_def split: if_splits)
qed

lemma refers_sized:
  assumes "(refers btf)\<^sup>*\<^sup>* i j" "btf__type_by_id btf j = Some t" "sized btf t k v"
  shows "\<exists>t' k'. btf__type_by_id btf i = Some t' \<and> sized btf t' k' v"
  using assms
proof (induction rule: converse_rtranclp_induct)
  case (step i z)
  then obtain u k' where u: "btf__type_by_id btf z = Some u" "sized btf u k' v" by blast
  obtain t' where t': "btf__type_by_id btf i = Some t'" "btf_kind t' \<in> {8, 9, 10, 11, 18}" "t_type t' = z"
    using step(1) by (auto simp: refers_def)
  have "sized btf t' (Suc k') v"
    using t' u by (intro sized_alias [of t' btf u]) (auto simp: btf_type_is_void_def btf_is_fwd_def dest: void_kind)
  then show ?case using t'(1) by blast
qed blast

lemma field_extent_size:
  assumes "field_extent spec = ok (mt, ft, False, bit_sz, byte_sz, byte_off)" "acc = sp_spec spec ! (sp_len spec - 1)"
    and "btf__type_by_id (sp_btf spec)
           (m_type (btf_member_at (btf_type_by_id (sp_btf spec) (acc_type_id acc)) (unat (acc_idx acc)))) = Some t"
    and "sized (sp_btf spec) t k v"
  shows "unat byte_sz = v"
proof -
  let ?m = "m_type (btf_member_at (btf_type_by_id (sp_btf spec) (acc_type_id acc)) (unat (acc_idx acc)))"
  obtain n where s: "skip_mods_and_typedefs (sp_btf spec) ?m = Ret (mt, ft)" and n: "btf__resolve_size (sp_btf spec) ft = Inr n" "byte_sz = of_nat n"
    using assms(1) unfolding assms(2)
    by (auto simp: field_extent_def Let_def run_bind_eq_Ret rr_bind_eq_ok split: if_split_asm sum.split_asm)
  have r: "(refers (sp_btf spec))\<^sup>*\<^sup>* ?m ft"
    using skip_moves [of "sp_btf spec" ?m mt ft] s unfolding refers_step moves_star by blast
  obtain u k' where u: "btf__type_by_id (sp_btf spec) ft = Some u" "sized (sp_btf spec) u k' n" "n < 2 ^ 32"
    using resolve_size_sound [OF n(1) [unfolded btf__resolve_size_def]] by auto
  have "n = v" using refers_sized [OF r u(1,2)] assms(3,4) sized_unique by fastforce
  then show ?thesis using n(2) u(3) by (simp add: unat_of_nat_u32)
qed

text \<open>
  C6. The four relocations with which a program reads a member, bitfield or not, agree on it: loading the relocated
  number of bytes at the relocated offset and shifting left and right by the relocated amounts gives exactly the bits of
  the member, zero-extended by a logical and sign-extended by an arithmetic shift to the right. The bits of a bitfield are
  as many as the member says; those of another member are as many as its own type has by the definition of sizes,
  which must start at a byte. The member is not empty, read in at most eight bytes, and ends below bit \<open>2 ^ 32\<close>.
\<close>

theorem field_read_correct:
  assumes "acc_name acc \<noteq> None" "acc = sp_spec spec ! (sp_len spec - 1)"
    and "bpf_core_calc_field_relo (relo\<lparr>r_kind := BPF_CORE_FIELD_BYTE_OFFSET\<rparr>) (Some spec) = ok off"
    and "bpf_core_calc_field_relo (relo\<lparr>r_kind := BPF_CORE_FIELD_BYTE_SIZE\<rparr>) (Some spec) = ok size'"
    and "bpf_core_calc_field_relo (relo\<lparr>r_kind := BPF_CORE_FIELD_LSHIFT_U64\<rparr>) (Some spec) = ok lsh"
    and "bpf_core_calc_field_relo (relo\<lparr>r_kind := BPF_CORE_FIELD_RSHIFT_U64\<rparr>) (Some spec) = ok rsh"
    and "bf = btf_member_bitfield_size (btf_type_by_id (sp_btf spec) (acc_type_id acc)) (unat (acc_idx acc))"
    and "btf__type_by_id (sp_btf spec)
           (m_type (btf_member_at (btf_type_by_id (sp_btf spec) (acc_type_id acc)) (unat (acc_idx acc)))) = Some t"
    and "bf = 0 \<longrightarrow> sized (sp_btf spec) t k v"
    and "bits = (if bf = 0 then 8 * v else unat bf)"
    and "bf = 0 \<longrightarrow> 8 dvd unat (sp_bit_offset spec)"
    and "unat (sp_bit_offset spec) + bits < 2 ^ 32" "0 < f_val size'" "f_val size' \<le> 8"
  shows "drop_bit (unat (f_val rsh)) (push_bit (unat (f_val lsh)) (load mem (unat (f_val off)) (unat (f_val size')))) =
           of_nat (take_bit bits (drop_bit (unat (sp_bit_offset spec)) mem))
         \<and> signed_drop_bit (unat (f_val rsh)) (push_bit (unat (f_val lsh)) (load mem (unat (f_val off)) (unat (f_val size')))) =
           signed_take_bit (bits - 1) (of_nat (drop_bit (unat (sp_bit_offset spec)) mem))"
proof -
  have ext: "bpf_core_calc_field_relo (relo\<lparr>r_kind := k\<rparr>) (Some spec) =
      rr_bind (field_extent spec) (\<lambda>(mt, ft, bitfield, bit_sz, byte_sz, byte_off).
        member_relo (relo\<lparr>r_kind := k\<rparr>) spec mt ft bitfield bit_sz byte_sz byte_off)" if "k \<noteq> 2" for k
    using calc_field_relo_extent [of "relo\<lparr>r_kind := k\<rparr>" spec] assms(1,2) that by simp
  obtain mt ft bitfield bit_sz byte_sz byte_off where
    e: "field_extent spec = ok (mt, ft, bitfield, bit_sz, byte_sz, byte_off)"
    using assms(3) ext [of 0] by (auto simp: rr_bind_eq_ok)
  have off: "unat (f_val off) = unat byte_off"
    using assms(3) by (auto simp: ext e dest: member_relo_offset)
  have sz: "unat (f_val size') = unat byte_sz"
    using assms(4) by (auto simp: ext e member_relo_def field_val_def Let_def)
  have lsh: "unat (f_val lsh) = unat (64 - (sp_bit_offset spec + bit_sz - byte_off * 8))"
    using assms(5) by (auto simp: ext e member_relo_def field_val_def Let_def)
  have rsh: "unat (f_val rsh) = unat (64 - bit_sz)"
    using assms(6) by (auto simp: ext e member_relo_def field_val_def Let_def)
  have "bitfield \<longleftrightarrow> bf \<noteq> 0" and bit_sz: "bit_sz = (if bf = 0 then byte_sz * 8 else bf)"
    using e unfolding assms(2,7)
    by (auto simp: field_extent_def Let_def run_bind_eq_Ret rr_bind_eq_ok word_neq_0_conv split: if_split_asm sum.split_asm)
  have small: "unat byte_sz \<le> 8" "0 < unat byte_sz" using assms(13,14) sz by (simp_all add: word_le_nat_alt word_less_nat_alt)
  have "unat byte_sz = v" if "bf = 0"
    using field_extent_size [OF _ assms(2,8), of mt ft bit_sz byte_sz byte_off k v] e assms(9) that \<open>bitfield \<longleftrightarrow> bf \<noteq> 0\<close> by simp
  then have v: "bits = (if bf = 0 then 8 * unat byte_sz else unat bf)" using assms(10) by simp
  have bits: "unat bit_sz = bits" using small bit_sz v by (simp add: unat_word_ariths)
  have pos: "0 < bits" using small v by (simp add: unat_gt_0)
  obtain d where d: "8 * unat byte_off + d = unat (sp_bit_offset spec)" "d + bits \<le> 8 * unat byte_sz"
    using field_extent_covers [OF e] assms(11,12) small \<open>bitfield \<longleftrightarrow> bf \<noteq> 0\<close> bits by metis
  have "unat (sp_bit_offset spec + bit_sz - byte_off * 8) = d + bits"
    using d(1) assms(12) bits unat_less_u32 [of "sp_bit_offset spec"]
    by (subst unat_sub) (simp_all add: word_le_nat_alt unat_word_ariths)
  then have "unat (f_val lsh) = 64 - (d + bits)"
    using lsh d(2) small by (simp add: unat_sub word_le_nat_alt)
  moreover have "unat (f_val rsh) = 64 - bits" using rsh bits d(2) small by (simp add: unat_sub word_le_nat_alt)
  moreover note load_bits [OF d small(1), of mem]
  moreover have "d + bits \<le> 64" using d(2) small by simp
  ultimately show ?thesis using shift_extract signed_shift_extract pos by (simp add: off sz)
qed

section \<open>An example\<close>

text \<open>A structure \<^verbatim>\<open>s\<close> with an integer \<^verbatim>\<open>a\<close> and a bitfield \<^verbatim>\<open>b\<close> of three bits at bit 35, and the access string
  \<^verbatim>\<open>0:1\<close>.\<close>

definition core_part :: btf_part where
  "core_part = sample_sec\<lparr>
     b_strs := [0, 105, 110, 116, 0, 115, 0, 97, 0, 98, 0, 48, 58, 49, 0],
     b_types := [1, 0x01000000, 4, 0x01000020, 5, 0x84000002, 8, 7, 1, 0, 9, 1, 0x03000023],
     b_hdr := sample_hdr\<lparr>h_type_len := 52, h_str_len := 15\<rparr>, b_type_offs := [0, 16], b_nr_types := 2\<rparr>"

definition core_btf :: btf where
  "core_btf = Btf None core_part"

lemma core_part_simps:
  "b_strs core_part = [0, 105, 110, 116, 0, 115, 0, 97, 0, 98, 0, 48, 58, 49, 0]"
  "b_types core_part = [1, 0x01000000, 4, 0x01000020, 5, 0x84000002, 8, 7, 1, 0, 9, 1, 0x03000023]"
  "b_type_offs core_part = [0, 16]" "b_nr_types core_part = 2" "b_start_id core_part = 1" "b_start_str_off core_part = 0"
  "b_strs_set core_part = None" "h_str_len (b_hdr core_part) = 15"
  by (simp_all add: core_part_def sample_sec_simps)

definition core_int :: btf_type where
  "core_int = \<lparr>t_name_off = 1, t_info = 0x01000000, t_size = 4, t_extra = [0x01000020, 5, 0x84000002, 8, 7, 1, 0, 9, 1, 0x03000023], t_void = False\<rparr>"

definition core_struct :: btf_type where
  "core_struct = \<lparr>t_name_off = 5, t_info = 0x84000002, t_size = 8, t_extra = [7, 1, 0, 9, 1, 0x03000023], t_void = False\<rparr>"

lemma core_types: "btf_type_by_id core_btf 1 = core_int" "btf_type_by_id core_btf 2 = core_struct"
  by (simp_all add: core_btf_def type_in_part_def core_part_simps type_of_words_def list_eval core_int_def core_struct_def)

lemma core_cnt: "btf__type_cnt core_btf = 3" "own core_btf = core_part"
  by (simp_all add: btf__type_cnt_def core_btf_def core_part_simps)

lemma core_ids: "btf__type_by_id core_btf 1 = Some core_int" "btf__type_by_id core_btf 2 = Some core_struct"
  by (simp_all add: btf__type_by_id_def core_cnt core_part_simps core_types word_le_nat_alt)

lemma core_names:
  "btf__name_by_offset core_btf 5 = Some [115, 0, 97, 0, 98, 0, 48, 58, 49, 0]"
  "btf__name_by_offset core_btf 7 = Some [97, 0, 98, 0, 48, 58, 49, 0]"
  "btf__name_by_offset core_btf 9 = Some [98, 0, 48, 58, 49, 0]"
  "btf__name_by_offset core_btf 11 = Some [48, 58, 49, 0]"
  by (simp_all add: btf__name_by_offset_def core_btf_def core_part_simps btf_strs_data_def list_eval)

lemma core_kinds:
  "btf_kind core_int = BTF_KIND_INT" "btf_kind core_struct = BTF_KIND_STRUCT" "btf_vlen core_struct = 2" "btf_kflag core_struct"
  by (simp_all add: core_int_def core_struct_def btf_kind_def btf_vlen_def BTF_INFO_KIND_def BTF_INFO_VLEN_def
      btf_kflag_def BTF_INFO_KFLAG_def)

lemma core_skip: "skip_mods_and_typedefs core_btf 1 = Ret (core_int, 1)" "skip_mods_and_typedefs core_btf 2 = Ret (core_struct, 2)"
  by (simp_all add: skip_mods_and_typedefs_def core_cnt skip_step_def core_ids is_ref_def btf_is_mod_def btf_is_typedef_def
      core_kinds chase_stop)

text \<open>The specification that the access string \<^verbatim>\<open>0:1\<close> has in the structure, for a relocation of the given kind.\<close>

definition core_spec :: "u32 \<Rightarrow> bpf_core_spec" where
  "core_spec k = \<lparr>sp_btf = core_btf,
     sp_spec = (replicate 64 \<lparr>acc_type_id = 0, acc_idx = 0, acc_name = None\<rparr>)
       [0 := \<lparr>acc_type_id = 2, acc_idx = 0, acc_name = None\<rparr>,
        1 := \<lparr>acc_type_id = 2, acc_idx = 1, acc_name = Some [98, 0, 48, 58, 49, 0]\<rparr>],
     sp_root_type_id = 2, sp_relo_kind = k, sp_len = 2, sp_raw_spec = (replicate 64 0)[0 := 0, 1 := 1],
     sp_raw_len = 2, sp_bit_offset = 35\<rparr>"

definition core_relo :: "u32 \<Rightarrow> bpf_core_relo" where
  "core_relo k = \<lparr>r_insn_off = 0, r_type_id = 2, r_access_str_off = 11, r_kind = k\<rparr>"

lemma core_spec_simps:
  "sp_spec (core_spec k) ! 0 = \<lparr>acc_type_id = 2, acc_idx = 0, acc_name = None\<rparr>"
  "sp_spec (core_spec k) ! Suc 0 = \<lparr>acc_type_id = 2, acc_idx = 1, acc_name = Some [98, 0, 48, 58, 49, 0]\<rparr>"
  "sp_len (core_spec k) = 2" "sp_btf (core_spec k) = core_btf" "sp_bit_offset (core_spec k) = 35" "sp_relo_kind (core_spec k) = k"
  "sp_root_type_id (core_spec k) = 2" "sp_raw_len (core_spec k) = 2"
  by (simp_all add: core_spec_def)

lemma core_bitfield: "btf_member_bitfield_size core_struct (Suc 0) = 3" "m_type (btf_member_at core_struct (Suc 0)) = 1" "t_size core_int = 4"
  by (simp_all add: btf_member_bitfield_size_def core_kinds)
    (simp_all add: btf_member_at_def core_struct_def core_int_def BTF_MEMBER_BITFIELD_SIZE_def)

lemma core_extent: "field_extent (core_spec k) = ok (core_int, 1, True, 3, 4, 4)"
proof -
  have "bitfield_unit 35 3 4 = ok (4, 4)" by (simp add: bitfield_unit.simps Let_def)
  then show ?thesis by (simp add: field_extent_def core_spec_simps core_types core_skip core_bitfield)
qed

lemma core_vals:
  "bpf_core_calc_field_relo (core_relo j\<lparr>r_kind := 0\<rparr>) (Some (core_spec k)) = ok (field_val 4 (Some False))"
  "bpf_core_calc_field_relo (core_relo j\<lparr>r_kind := 1\<rparr>) (Some (core_spec k)) = ok (field_val 4 (Some False))"
  "bpf_core_calc_field_relo (core_relo j\<lparr>r_kind := 4\<rparr>) (Some (core_spec k)) = ok (field_val 58 (Some False))"
  "bpf_core_calc_field_relo (core_relo j\<lparr>r_kind := 5\<rparr>) (Some (core_spec k)) = ok (field_val 61 (Some True))"
  by (subst calc_field_relo_extent; simp add: core_extent core_spec_simps member_relo_def)+

text \<open>The specification of the other member, which is no bitfield.\<close>

definition core_spec_a :: bpf_core_spec where
  "core_spec_a = (core_spec 0)\<lparr>
     sp_spec := (sp_spec (core_spec 0))[1 := \<lparr>acc_type_id = 2, acc_idx = 0, acc_name = Some [97, 0, 98, 0, 48, 58, 49, 0]\<rparr>],
     sp_bit_offset := 0\<rparr>"

lemma core_spec_a_simps:
  "sp_spec core_spec_a ! Suc 0 = \<lparr>acc_type_id = 2, acc_idx = 0, acc_name = Some [97, 0, 98, 0, 48, 58, 49, 0]\<rparr>"
  "sp_len core_spec_a = 2" "sp_btf core_spec_a = core_btf" "sp_bit_offset core_spec_a = 0"
  by (simp_all add: core_spec_a_def core_spec_def)

lemma core_no_bitfield: "btf_member_bitfield_size core_struct 0 = 0" "m_type (btf_member_at core_struct 0) = 1"
  by (simp_all add: btf_member_bitfield_size_def core_kinds)
    (simp_all add: btf_member_at_def core_struct_def BTF_MEMBER_BITFIELD_SIZE_def)

lemma core_sized: "sized core_btf core_int 0 4"
  using sized_own [of core_int core_btf] core_bitfield(3)
  by (simp add: core_kinds btf_type_is_void_def btf_is_fwd_def) (simp add: core_int_def)

lemma core_size: "btf__resolve_size core_btf 2 = Inr 8" "btf__resolve_size core_btf 1 = Inr 4"
proof -
  have "resolve_size_loop (Suc n) core_btf (Some core_struct) 1 = Inr 8" "resolve_size_loop (Suc n) core_btf (Some core_int) 1 = Inr 4" for n
    by (simp_all add: core_kinds btf_type_is_void_def btf_is_fwd_def resolve_done_def) (simp_all add: core_struct_def core_int_def)
  from this [of 31] show "btf__resolve_size core_btf 2 = Inr 8" "btf__resolve_size core_btf 1 = Inr 4"
    by (simp_all add: btf__resolve_size_def core_ids MAX_RESOLVE_DEPTH_def)
qed

lemma core_arrays: "skip_arrays core_btf 1 = Ret 1"
  by (simp add: skip_arrays_def core_cnt chase_stop elem_step_def core_skip btf_is_array_def core_kinds)

lemma core_extent_a: "field_extent core_spec_a = ok (core_int, 1, False, 32, 4, 0)"
  by (simp add: field_extent_def core_spec_a_simps core_types core_skip core_no_bitfield core_size)

lemma core_vals_a:
  "bpf_core_calc_field_relo (core_relo j\<lparr>r_kind := 0\<rparr>) (Some core_spec_a) = ok (field_val 0 (Some True)\<lparr>f_sz := 4, f_type_id := 1\<rparr>)"
  "bpf_core_calc_field_relo (core_relo j\<lparr>r_kind := 1\<rparr>) (Some core_spec_a) = ok (field_val 4 (Some True))"
  "bpf_core_calc_field_relo (core_relo j\<lparr>r_kind := 4\<rparr>) (Some core_spec_a) = ok (field_val 32 (Some True))"
  "bpf_core_calc_field_relo (core_relo j\<lparr>r_kind := 5\<rparr>) (Some core_spec_a) = ok (field_val 32 (Some True))"
  by (subst calc_field_relo_extent; simp add: core_extent_a core_spec_a_simps member_relo_def core_arrays core_size)+

theorem field_read_correct_witness:
  "drop_bit 61 (push_bit 58 (load (5 * 2 ^ 35) 4 4)) = (5 :: u64) \<and>
   signed_drop_bit 61 (push_bit 58 (load (5 * 2 ^ 35) 4 4)) = (- 3 :: u64) \<and>
   drop_bit 32 (push_bit 32 (load (2 ^ 35 + 7) 0 4)) = (7 :: u64)"
proof -
  have *: "drop_bit 1 (10 :: nat) = 5" "signed_take_bit 2 (5 :: u64) = - 3" "take_bit 3 (5 :: nat) = 5"
    by (simp_all add: drop_bit_eq_div take_bit_eq_mod)
  have "drop_bit 61 (push_bit 58 (load (5 * 2 ^ 35) 4 4)) = (5 :: u64) \<and>
   signed_drop_bit 61 (push_bit 58 (load (5 * 2 ^ 35) 4 4)) = (- 3 :: u64)"
    using field_read_correct [OF _ refl core_vals, where bf = 3 and bits = 3 and mem = "5 * 2 ^ 35" and t = core_int]
    by (simp add: core_spec_simps core_types core_bitfield core_ids field_val_def *)
  moreover have "drop_bit 32 (push_bit 32 (load (2 ^ 35 + 7) 0 4)) = (7 :: u64)"
    using field_read_correct [OF _ refl core_vals_a, where bf = 0 and bits = 32 and mem = "2 ^ 35 + 7" and t = core_int and k = 0 and v = 4]
    by (simp add: core_spec_a_simps core_types core_no_bitfield core_ids core_sized field_val_def take_bit_eq_mod)
  ultimately show ?thesis by simp
qed

end
