(* ===== verification/CoreAgree.thy ===== *)
theory CoreAgree
  imports CoreSound
begin

text \<open>
  The choice among the candidates of a relocation, and the patching of the instruction.
\<close>

section \<open>Candidates\<close>

definition hit :: "bpf_core_spec \<Rightarrow> bpf_core_cand \<Rightarrow> bool" where
  "hit local_spec c \<longleftrightarrow> (\<exists>s. bpf_core_spec_match local_spec (fst c) (snd c) = Ret (Inr True, s))"

text \<open>A candidate that matches and gives the same relocation.\<close>

definition agrees :: "bpf_core_relo \<Rightarrow> bpf_core_spec \<Rightarrow> bpf_core_relo_res \<Rightarrow> bpf_core_spec \<Rightarrow> bpf_core_cand \<Rightarrow> bool" where
  "agrees relo local_spec res spec c \<longleftrightarrow>
     (\<exists>s r. bpf_core_spec_match local_spec (fst c) (snd c) = Ret (Inr True, s) \<and> bpf_core_calc_relo relo local_spec (Some s) = ok r \<and>
        res_new_val r = res_new_val res \<and> res_poison r = res_poison res \<and> sp_bit_offset s = sp_bit_offset spec)"

definition no_match_error :: "bpf_core_spec \<Rightarrow> bpf_core_cand \<Rightarrow> bool" where
  "no_match_error local_spec c \<longleftrightarrow> (\<exists>b s. bpf_core_spec_match local_spec (fst c) (snd c) = Ret (Inr b, s))"

text \<open>What the first match was, or that there was none.\<close>

definition chosen :: "bpf_core_relo \<Rightarrow> bpf_core_spec \<Rightarrow> bpf_core_cand list \<Rightarrow> (bpf_core_relo_res \<times> bpf_core_spec) option \<Rightarrow> bool" where
  "chosen relo local_spec hits targ \<longleftrightarrow>
     (case targ of
        None \<Rightarrow> hits = []
      | Some (res, spec) \<Rightarrow> hits \<noteq> [] \<and>
          bpf_core_spec_match local_spec (fst (hd hits)) (snd (hd hits)) = Ret (Inr True, spec) \<and>
          bpf_core_calc_relo relo local_spec (Some spec) = ok res \<and> (\<forall>c\<in>set hits. agrees relo local_spec res spec c))"

lemma run_case_eq_ok:
  "run_bind r (\<lambda>x. case x of Inl e' \<Rightarrow> err e | Inr y \<Rightarrow> f y) = ok z \<longleftrightarrow> (\<exists>y. r = ok y \<and> f y = ok z)"
  by (cases r) (auto split: sum.split)

lemma relo_cands_ok:
  assumes "relo_cands relo local_spec cands kept targ = ok (kept', targ')" "chosen relo local_spec kept targ"
  shows "(\<forall>c\<in>set cands. no_match_error local_spec c) \<and> kept' = kept @ filter (hit local_spec) cands \<and>
    chosen relo local_spec kept' targ'"
  using assms
proof (induction relo local_spec cands kept targ rule: relo_cands.induct)
  case (2 relo local_spec btf i cands kept targ)
  let ?c = "(btf, i)"
  obtain r spec where r: "bpf_core_spec_match local_spec btf i = Ret (r, spec)"
    using "2.prems"(1) by (cases "bpf_core_spec_match local_spec btf i") auto
  then obtain b where "r = Inr b" using "2.prems"(1) by (cases r) auto
  then have m: "bpf_core_spec_match local_spec btf i = Ret (Inr b, spec)" using r by simp
  then have ok: "no_match_error local_spec ?c" by (auto simp: no_match_error_def)
  show ?case
  proof (cases b)
    case False
    then have "\<not> hit local_spec ?c" using m by (simp add: hit_def)
    moreover have "relo_cands relo local_spec cands kept targ = ok (kept', targ')" using "2.prems"(1) m False by simp
    ultimately show ?thesis using "2.IH"(3) [OF refl refl _ "2.prems"(2)] m ok False by auto
  next
    case True
    then have hit: "hit local_spec ?c" using m by (simp add: hit_def)
    obtain res where res: "bpf_core_calc_relo relo local_spec (Some spec) = ok res"
      using "2.prems"(1) m True by (auto simp: rr_bind_eq_ok)
    show ?thesis
    proof (cases targ)
      case None
      have "chosen relo local_spec (kept @ [?c]) (Some (res, spec))"
        using "2.prems"(2) None m res True by (simp add: chosen_def agrees_def)
      then show ?thesis using "2.IH"(1) [OF refl refl None] "2.prems"(1) m res True None ok hit by simp
    next
      case (Some a)
      then obtain res0 spec0 where a: "targ = Some (res0, spec0)" by (cases a) auto
      have same: "sp_bit_offset spec = sp_bit_offset spec0" "res_poison res = res_poison res0" "res_new_val res = res_new_val res0"
        and rest: "relo_cands relo local_spec cands (kept @ [?c]) targ = ok (kept', targ')"
        using "2.prems"(1) m res True a by (auto split: if_split_asm)
      have "chosen relo local_spec (kept @ [?c]) targ"
        using "2.prems"(2) a m res True same by (auto simp: chosen_def agrees_def)
      then show ?thesis using "2.IH"(2) [OF refl refl a refl, of spec res] ok hit rest same by auto
    qed
  qed
qed auto

text \<open>
  C7. A relocation succeeds only if it is unambiguous: no candidate gave an error; the candidates left in the list
  are exactly the matching ones, in their order; all of them give the same bit offset, the same value and the same
  decision to poison, and the result is that of the first. Without a match the list is left alone and the
  result is the one for a missing target.
\<close>

theorem bpf_core_calc_relo_insn_unambiguous:
  assumes "bpf_core_calc_relo_insn relo local_btf cands = ok (res, kept)" "r_kind relo \<noteq> BPF_CORE_TYPE_ID_LOCAL"
  shows "\<exists>local_spec. bpf_core_parse_spec local_btf relo = ok local_spec \<and> (\<forall>c\<in>set cands. no_match_error local_spec c) \<and>
    (let hits = filter (hit local_spec) cands in
     if hits = [] then kept = cands \<and> bpf_core_calc_relo relo local_spec None = ok res
     else kept = hits \<and> (\<exists>spec. chosen relo local_spec hits (Some (res, spec))))"
proof -
  obtain local_spec where p: "bpf_core_parse_spec local_btf relo = ok local_spec"
    and "\<not> str_is_empty (btf__name_by_offset local_btf (t_name_off (btf_type_by_id local_btf (r_type_id relo))))"
    using assms by (auto simp: bpf_core_calc_relo_insn_def Let_def run_case_eq_ok split: if_split_asm)
  then obtain kept' targ where c: "relo_cands relo local_spec cands [] None = ok (kept', targ)"
    and r: "(case targ of Some (res, spec) \<Rightarrow> ok (res, kept')
             | None \<Rightarrow> rr_bind (bpf_core_calc_relo relo local_spec None) (\<lambda>res. ok (res, cands))) = ok (res, kept)"
    using assms by (auto simp: bpf_core_calc_relo_insn_def Let_def rr_bind_eq_ok split: if_split_asm)
  have "chosen relo local_spec [] None" by (simp add: chosen_def)
  with c have ok: "\<forall>c\<in>set cands. no_match_error local_spec c" "kept' = filter (hit local_spec) cands"
    "chosen relo local_spec kept' targ" using relo_cands_ok by fastforce+
  show ?thesis
  proof (cases targ)
    case None
    then show ?thesis using p ok r by (auto simp: chosen_def rr_bind_eq_ok)
  next
    case (Some a)
    then have "kept' \<noteq> []" using ok(3) by (auto simp: chosen_def)
    then show ?thesis using p ok r Some by (cases a) auto
  qed
qed

lemma core_scan: "scan_int [48, 58, 49] = Some (0, [58, 49])" "scan_int [49] = Some (1, [])"
  by (simp_all add: scan_int_def isspace_def isdigit_def digits_value_def clamp_long_def)

lemma core_raw:
  "parse_raw_spec [48, 58, 49] (spec_init core_btf 2 k) =
     ok ((spec_init core_btf 2 k)\<lparr>sp_raw_spec := (replicate 64 0)[0 := 0, 1 := 1], sp_raw_len := 2\<rparr>)"
  by (simp add: parse_raw_spec.simps core_scan push_raw_def array_set_def spec_init_def BPF_CORE_SPEC_MAX_LEN_def)

lemma core_members:
  "btf_member_bit_offset core_struct 0 = 0" "btf_member_bit_offset core_struct (Suc 0) = 35"
  "m_name_off (btf_member_at core_struct 0) = 7" "m_name_off (btf_member_at core_struct (Suc 0)) = 9"
  "m_type (btf_member_at core_struct 0) = 1"
  by (simp_all add: btf_member_bit_offset_def core_kinds)
    (simp_all add: btf_member_at_def core_struct_def BTF_MEMBER_BIT_OFFSET_def)

lemma core_fields:
  "spec_fields core_btf [1] 2 spec =
     run_bind (set_acc (spec\<lparr>sp_bit_offset := sp_bit_offset spec + 35\<rparr>) (sp_len spec)
       \<lparr>acc_type_id = 2, acc_idx = 1, acc_name = Some [98, 0, 48, 58, 49, 0]\<rparr>) (\<lambda>spec. ok spec)"
proof -
  have nil: "spec_fields core_btf [] i = (\<lambda>spec. ok spec)" for i by (rule ext) simp
  show ?thesis
    by (simp add: core_skip core_kinds core_members core_names str_is_empty_def btf_is_composite_def nil is_empty_str_def Let_def del: spec_fields.simps(1))
qed

lemma core_parse: "bpf_core_parse_spec core_btf (core_relo 0) = ok (core_spec 0)"
proof -
  have s: "cstr [48, 58, 49, 0] = [48, 58, 49 :: u8]" "\<not> is_empty_str [48, 58, 49, 0]" by (simp_all add: cstr_def is_empty_str_def)
  have k: "\<not> core_relo_is_type_based 0" "\<not> core_relo_is_enumval_based 0" "core_relo_is_field_based 0"
    by (simp_all add: core_relo_is_type_based_def core_relo_is_enumval_based_def core_relo_is_field_based_def)
  let ?s = "(spec_init core_btf 2 0)\<lparr>sp_raw_spec := (replicate 64 0)[0 := 0, 1 := 1], sp_raw_len := 2\<rparr>"
  have r: "take 2 ((replicate 64 0)[0 := 0, Suc 0 := (1 :: int)]) = [0, 1]" by (simp add: numeral_eq_Suc)
  have "bpf_core_parse_spec core_btf (core_relo 0) =
      run_bind (set_acc ?s 0 \<lparr>acc_type_id = 2, acc_idx = 0, acc_name = None\<rparr>) (\<lambda>spec.
        spec_fields core_btf (drop 1 (take (sp_raw_len spec) (sp_raw_spec spec))) 2 (spec\<lparr>sp_bit_offset := 0\<rparr>))"
    by (simp add: bpf_core_parse_spec_def core_relo_def core_names s k core_raw core_skip core_size str_is_empty_def Let_def)
  also have "\<dots> = ok (core_spec 0)"
    by (simp add: set_acc_def array_set_def spec_init_def BPF_CORE_SPEC_MAX_LEN_def r core_fields core_spec_def
        del: spec_fields.simps)
  finally show ?thesis .
qed

lemma core_compat: "bpf_core_fields_are_compat core_btf 1 core_btf 1 = ok True"
proof -
  have "btf_kind_core_compat core_int core_int" "btf_int_offset core_int = 0" "\<not> btf_is_composite core_int"
    by (simp_all add: btf_kind_core_compat_def btf_is_composite_def core_kinds) (simp add: core_int_def btf_int_offset_def BTF_INT_OFFSET_def)
  then have "fields_compat_loop (Suc n) core_btf 1 core_btf 1 = ok True" for n
    by (simp add: core_skip core_kinds Let_def)
  from this [of 9] show ?thesis by (simp add: bpf_core_fields_are_compat_def core_cnt del: fields_compat_loop.simps)
qed

lemma core_member:
  assumes "sp_raw_len spec < 63" "length (sp_raw_spec spec) = 64" "sp_len spec < length (sp_spec spec)"
  shows "bpf_core_match_member core_btf \<lparr>acc_type_id = 2, acc_idx = 1, acc_name = Some [98, 0, 48, 58, 49, 0]\<rparr> core_btf 2 spec n =
    Ret (Inr True, 1, spec\<lparr>sp_spec := (sp_spec spec)[sp_len spec := \<lparr>acc_type_id = 2, acc_idx = 1, acc_name = Some [98, 0, 48, 58, 49, 0]\<rparr>],
      sp_len := sp_len spec + 1, sp_raw_spec := (sp_raw_spec spec)[sp_raw_len spec := 1], sp_raw_len := sp_raw_len spec + 1,
      sp_bit_offset := sp_bit_offset spec + 35\<rparr>)"
proof -
  have c: "strcmp [98, 0, 48, 58, 49, 0] [97, 0, 98, 0, 48, 58, 49, 0] \<noteq> 0" "strcmp [98, 0, 48, 58, 49, 0] [98, 0, 48, 58, 49, 0] = 0"
    "btf_is_composite core_struct"
    by (simp_all add: btf_is_composite_def core_kinds)
  have l: "(2 :: u32) = of_nat 2" "unat (2 :: u32) = 2" "[0..<2] = [0, Suc 0]" by (simp_all add: upt_rec [of 0 2] upt_rec [of "Suc 0" 2])
  have "bpf_core_match_member core_btf \<lparr>acc_type_id = 2, acc_idx = 1, acc_name = Some [98, 0, 48, 58, 49, 0]\<rparr> core_btf 2 spec n =
      match_members (match_member_levels 64 core_btf \<lparr>acc_type_id = 2, acc_idx = 1, acc_name = Some [98, 0, 48, 58, 49, 0]\<rparr> core_btf)
        core_btf (btf_member_at core_struct (Suc 0)) core_btf core_struct 2 [0, Suc 0] spec n"
    using match_member_levels.simps(2) [of 64 core_btf]
    by (simp add: bpf_core_match_member_def BPF_CORE_SPEC_MAX_LEN_def core_skip core_kinds core_types Let_def c l(2,3)
        del: match_members.simps match_member_levels.simps)
  then show ?thesis using assms
    by (simp add: BPF_CORE_SPEC_MAX_LEN_def core_members core_names core_bitfield
        str_is_empty_def is_empty_str_def push_raw_def array_set_def set_acc_def core_compat Let_def c)
qed

lemma core_match: "bpf_core_spec_match (core_spec 0) core_btf 2 = Ret (Inr True, core_spec 0)"
proof -
  have k: "\<not> core_relo_is_type_based 0" "\<not> core_relo_is_enumval_based 0" "core_relo_is_field_based 0"
    by (simp_all add: core_relo_is_type_based_def core_relo_is_enumval_based_def core_relo_is_field_based_def)
  have "[0..<2] = [0, Suc 0]" by (simp_all add: upt_rec [of 0 2] upt_rec [of "Suc 0" 2])
  then show ?thesis
    by (simp add: bpf_core_spec_match_def core_spec_simps k core_skip core_size core_member Let_def set_acc_def array_set_def push_raw_def
        spec_init_def BPF_CORE_SPEC_MAX_LEN_def) (simp add: core_spec_def)
qed

definition core_res :: bpf_core_relo_res where
  "core_res = relo_res_init\<lparr>res_orig_val := 4, res_new_val := 4, res_validate := False\<rparr>"

lemma core_calc: "bpf_core_calc_relo (core_relo 0) (core_spec 0) (Some (core_spec 0)) = ok core_res"
proof -
  have "core_relo 0\<lparr>r_kind := 0\<rparr> = core_relo 0" by (simp add: core_relo_def)
  then show ?thesis
    using core_vals(1) [of 0 0]
    by (simp add: bpf_core_calc_relo_def core_relo_is_field_based_def core_relo_def both_vals_def set_orig_def set_new_def
        field_val_def relo_res_init_def core_res_def)
qed

lemma core_relocate: "bpf_core_calc_relo_insn (core_relo 0) core_btf [(core_btf, 2)] = ok (core_res, [(core_btf, 2)])"
proof -
  have "t_name_off core_struct = 5" "r_type_id (core_relo 0) = 2" "r_kind (core_relo 0) = 0" by (simp_all add: core_struct_def core_relo_def)
  then show ?thesis
    by (simp add: bpf_core_calc_relo_insn_def core_types core_names core_parse core_match core_calc str_is_empty_def is_empty_str_def)
qed

theorem bpf_core_calc_relo_insn_unambiguous_witness: "no_match_error (core_spec 0) (core_btf, 2)"
  using bpf_core_calc_relo_insn_unambiguous [OF core_relocate] core_parse by (simp add: core_relo_def)

section \<open>Patching\<close>

unbundle bit_operations_syntax

text \<open>The operand that a relocation replaces: the immediate value or the offset, as a 64-bit value.\<close>

definition is_alu :: "bpf_insn \<Rightarrow> bool" where
  "is_alu i \<longleftrightarrow> BPF_CLASS (i_code i) \<in> {0x04, 0x07}"

definition is_mem :: "bpf_insn \<Rightarrow> bool" where
  "is_mem i \<longleftrightarrow> BPF_CLASS (i_code i) \<in> {0x01, 0x02, 0x03}"

definition operand :: "bpf_insn list \<Rightarrow> u64" where
  "operand insn =
     (let i0 = insn ! 0 in
      if is_alu i0 then scast (i_imm i0)
      else if is_mem i0 then scast (i_off i0)
      else ucast (i_imm i0) OR push_bit 32 (scast (i_imm (insn ! 1))))"

definition insn_width :: "bpf_insn \<Rightarrow> nat" where
  "insn_width i = (if is_ldimm64_insn i then 2 else 1)"

lemma scast_16: "x \<le> 32767 \<Longrightarrow> scast (ucast x :: u16) = (x :: u64)"
proof -
  assume le: "x \<le> 32767"
  then have "unat (take_bit 15 x) = unat x" by (simp add: word_le_nat_alt take_bit_eq_mod unat_mod)
  then have "x = take_bit 15 x" by (metis unsigned_word_eqI)
  then have "\<not> bit x n" if "15 \<le> n" for n using that by (metis bit_take_bit_iff not_le)
  then show ?thesis
    by (intro bit_word_eqI) (auto simp: bit_simps min_def)
qed

lemma split_64: "ucast (ucast x :: u32) OR push_bit 32 (scast (ucast (drop_bit 32 x) :: u32)) = (x :: u64)"
proof (rule bit_word_eqI)
  fix n assume "n < LENGTH(64)"
  then consider "n < 32" | "n = 63" | "32 \<le> n" "n < 63" by fastforce
  then show "bit (ucast (ucast x :: u32) OR push_bit 32 (scast (ucast (drop_bit 32 x) :: u32)) :: u64) n = bit x n"
    by cases (auto simp: bit_simps min_def)
qed

lemma resized_code:
  assumes "insn_bytes_to_bpf_size n = Some s"
  shows "BPF_CLASS (BPF_MODE c OR s OR BPF_CLASS c) = BPF_CLASS c" "BPF_MODE (BPF_MODE c OR s OR BPF_CLASS c) = BPF_MODE c"
    "BPF_SIZE (BPF_MODE c OR s OR BPF_CLASS c) = s"
  using assms
  by (auto simp: insn_bytes_to_bpf_size_def BPF_CLASS_def BPF_MODE_def BPF_SIZE_def bit.conj_disj_distrib2 and.assoc split: if_split_asm)

lemma poison_insn_ok:
  assumes "insn_width (insns ! 0) \<le> length insns"
  obtains insns' where "bpf_core_poison_insn insns = Ret insns'" "length insns' = length insns"
    "\<forall>i<insn_width (insns ! 0). insns' ! i = poisoned" "drop (insn_width (insns ! 0)) insns' = drop (insn_width (insns ! 0)) insns"
  using assms
  by (cases insns; cases "tl insns") (auto simp: bpf_core_poison_insn_def insn_width_def numeral_2_eq_2 All_less_Suc split: if_split_asm)

text \<open>
  What a successful patch does to the instruction: of a load or store only the offset and the code can differ, of any
  other instruction only the immediate values, in both slots of a 64-bit load.
\<close>

definition patched :: "bpf_insn list \<Rightarrow> bpf_core_relo_res \<Rightarrow> bpf_insn list \<Rightarrow> bool" where
  "patched insns res insns' \<longleftrightarrow>
     (let i = insns ! 0; i' = insns' ! 0 in
      if res_poison res \<or> is_mem i \<and> res_fail_memsz_adjust res then \<forall>j<insn_width i. insns' ! j = poisoned
      else (res_validate res \<longrightarrow> operand insns = res_orig_val res) \<and>
        operand insns' = (if is_alu i then scast (ucast (res_new_val res) :: u32) else res_new_val res) \<and>
        (if is_mem i then i'\<lparr>i_off := i_off i, i_code := i_code i\<rparr> = i
         else \<forall>j<insn_width i. (insns' ! j)\<lparr>i_imm := i_imm (insns ! j)\<rparr> = insns ! j) \<and>
        BPF_CLASS (i_code i') = BPF_CLASS (i_code i) \<and>
        (if is_mem i \<and> res_new_sz res \<noteq> res_orig_sz res
         then word_of_int (insn_bpf_size_to_bytes i) = res_orig_sz res \<and> word_of_int (insn_bpf_size_to_bytes i') = res_new_sz res \<and>
              BPF_MODE (i_code i') = BPF_MODE (i_code i)
         else i_code i' = i_code i))"

text \<open>The result of a patch, and that it touches no other instruction.\<close>

definition patch_result :: "bpf_insn list \<Rightarrow> bpf_core_relo_res \<Rightarrow> (errno option \<times> bpf_insn list) run \<Rightarrow> bool" where
  "patch_result insns res r \<longleftrightarrow>
     (\<exists>e insns'. r = Ret (e, insns') \<and> length insns' = length insns \<and>
        drop (insn_width (insns ! 0)) insns' = drop (insn_width (insns ! 0)) insns \<and> (e = None \<longrightarrow> patched insns res insns'))"

lemma patch_result_err: "patch_result insns res (Ret (Some e, insns))"
  by (simp add: patch_result_def)

lemma patch_result_if:
  "(c \<Longrightarrow> patch_result insns res a) \<Longrightarrow> (\<not> c \<Longrightarrow> patch_result insns res b) \<Longrightarrow> patch_result insns res (if c then a else b)"
  by simp

lemma patch_result_poison:
  assumes "insn_width (insns ! 0) \<le> length insns" "res_poison res \<or> is_mem (insns ! 0) \<and> res_fail_memsz_adjust res"
  shows "patch_result insns res (run_bind (bpf_core_poison_insn insns) (\<lambda>insn. Ret (None, insn)))"
  using poison_insn_ok [OF assms(1)] assms(2) by (fastforce simp: patch_result_def patched_def)

lemma insn_bytes_inverse:
  assumes "insn_bytes_to_bpf_size n = Some s" "BPF_SIZE (i_code i) = s"
  shows "word_of_int (insn_bpf_size_to_bytes i) = n"
  using assms by (auto simp: insn_bytes_to_bpf_size_def insn_bpf_size_to_bytes_def split: if_split_asm)

lemma patch_mem_result:
  assumes "is_mem (insns ! 0)" "insns \<noteq> []"
  shows "patch_result insns res (patch_mem insns res)"
proof -
  obtain i rest where i: "insns = i # rest" using assms(2) by (cases insns) auto
  have w: "insn_width i = 1" "\<not> is_alu i" using assms(1) by (auto simp: i insn_width_def is_ldimm64_insn_def is_mem_def is_alu_def BPF_CLASS_def)
  then have p: "insn_width (insns ! 0) \<le> length insns" by (simp add: i)
  have mem: "is_mem i" using assms(1) by (simp add: i)
  define i1 where "i1 = i\<lparr>i_off := ucast (res_new_val res)\<rparr>"
  have i1: "is_mem i1" "\<not> is_alu i1" "i_code i1 = i_code i" using mem w(2) by (simp_all add: is_mem_def is_alu_def i1_def)
  have upd: "insns ! 0 = i" "insns[0 := x] = x # rest" "(y # rest)[0 := x] = x # rest" for x y by (simp_all add: i)
  show ?thesis unfolding patch_mem_def Let_def upd i1_def [symmetric]
  proof (intro patch_result_if)
    assume ok: "\<not> (res_validate res \<and> scast (i_off i) \<noteq> res_orig_val res)" "\<not> res_new_val res > 32767"
      and np: "\<not> res_poison res" "\<not> res_fail_memsz_adjust res"
    have op: "operand (i1\<lparr>i_code := c\<rparr> # rest) = res_new_val res" if "BPF_CLASS c = BPF_CLASS (i_code i)" for c
      using ok(2) mem w(2) that scast_16 [of "res_new_val res"] by (simp add: operand_def is_mem_def is_alu_def i1_def not_less)
    have old: "res_validate res \<longrightarrow> operand insns = res_orig_val res" using ok(1) mem w(2) by (simp add: operand_def i)
    have regs: "i1\<lparr>i_off := i_off i, i_code := i_code i\<rparr> = i" "i1\<lparr>i_code := c, i_off := i_off i, i_code := i_code i\<rparr> = i" for c
      by (simp_all add: i1_def)
    have "i1\<lparr>i_code := i_code i1\<rparr> = i1" by (cases i1) simp
    then have "operand (i1 # rest) = res_new_val res" using op [of "i_code i1"] i1(3) by metis
    then show "patch_result insns res (Ret (None, i1 # rest))" if "\<not> res_new_sz res \<noteq> res_orig_sz res"
      using that old regs i1 np mem w by (simp add: patch_result_def patched_def i)
    assume sz: "res_new_sz res \<noteq> res_orig_sz res" "\<not> word_of_int (insn_bpf_size_to_bytes i1) \<noteq> res_orig_sz res"
    show "patch_result insns res (case insn_bytes_to_bpf_size (res_new_sz res) of None \<Rightarrow> Ret (Some EINVAL, i1 # rest)
      | Some s \<Rightarrow> Ret (None, i1\<lparr>i_code := BPF_MODE (i_code i1) OR s OR BPF_CLASS (i_code i1)\<rparr> # rest))"
    proof (cases "insn_bytes_to_bpf_size (res_new_sz res)")
      case None
      then show ?thesis using w by (simp add: patch_result_def i)
    next
      case (Some s)
      let ?c = "BPF_MODE (i_code i1) OR s OR BPF_CLASS (i_code i1)"
      note c = resized_code [OF Some, of "i_code i1"]
      have "word_of_int (insn_bpf_size_to_bytes (i1\<lparr>i_code := ?c\<rparr>)) = res_new_sz res" using insn_bytes_inverse [OF Some] c(3) by simp
      moreover have "word_of_int (insn_bpf_size_to_bytes i) = res_orig_sz res" using sz(2) i1(3) by (simp add: insn_bpf_size_to_bytes_def)
      ultimately show ?thesis
        using Some op [of ?c] old regs i1 np mem w c sz(1) by (simp add: patch_result_def patched_def i)
    qed
  qed (use patch_result_err patch_result_poison [OF p] mem w upd in \<open>simp_all add: patch_result_def i\<close>)
qed

text \<open>
  When a patch succeeds: an instruction that computes has an immediate operand; a 64-bit load has a plain second slot and
  loads a constant; the operand, unless it is to be poisoned, is the expected one if that is checked, and for a load or
  store the new offset is in range and a size that changes is the expected one and becomes a possible one.
\<close>

definition patchable :: "bpf_insn list \<Rightarrow> bpf_core_relo_res \<Rightarrow> bool" where
  "patchable insns res \<longleftrightarrow>
     (let i = insns ! 0; j = insns ! 1; expected = (res_validate res \<longrightarrow> operand insns = res_orig_val res) in
      if is_alu i then BPF_SRC (i_code i) = 0 \<and> (res_poison res \<or> expected)
      else if is_mem i then
        res_poison res \<or> expected \<and> res_new_val res \<le> 32767 \<and>
          (res_fail_memsz_adjust res \<or> res_new_sz res = res_orig_sz res \<or>
           word_of_int (insn_bpf_size_to_bytes i) = res_orig_sz res \<and> res_new_sz res \<in> {1, 2, 4, 8})
      else is_ldimm64_insn i \<and> i_src_reg i = 0 \<and> i_off i = 0 \<and> j\<lparr>i_imm := 0\<rparr> = \<lparr>i_code = 0, i_dst_reg = 0, i_src_reg = 0, i_off = 0, i_imm = 0\<rparr> \<and>
        (res_poison res \<or> expected))"

lemma patch_mem_success:
  assumes "is_mem (insns ! 0)" "patch_mem insns res = Ret (e, insns')"
  shows "e = None \<longleftrightarrow> patchable insns res"
proof -
  let ?i = "insns ! 0"
  have na: "\<not> is_alu ?i" "\<not> is_ldimm64_insn ?i" using assms(1) by (auto simp: is_mem_def is_alu_def is_ldimm64_insn_def BPF_CLASS_def)
  have p: "bpf_core_poison_insn insns = Ret (insns[0 := poisoned])" using na(2) by (simp add: bpf_core_poison_insn_def)
  have sz: "insn_bpf_size_to_bytes (?i\<lparr>i_off := x\<rparr>) = insn_bpf_size_to_bytes ?i" for x by (simp add: insn_bpf_size_to_bytes_def)
  have to: "insn_bytes_to_bpf_size n \<noteq> None \<longleftrightarrow> n \<in> {1, 2, 4, 8}" for n by (auto simp: insn_bytes_to_bpf_size_def)
  have op: "operand insns = scast (i_off ?i)" using assms(1) na(1) by (simp add: operand_def)
  show ?thesis
    using assms(2) to [of "res_new_sz res"] unfolding patch_mem_def Let_def p sz patchable_def op
    by (auto simp: assms(1) na(1) not_less split: if_split_asm option.split_asm)
qed

lemma patch_insn_success:
  assumes "bpf_core_patch_insn insns res = Ret (e, insns')"
  shows "e = None \<longleftrightarrow> patchable insns res"
proof (cases "is_mem (insns ! 0)")
  case True
  then have "patch_mem insns res = Ret (e, insns')"
    using assms by (auto simp: bpf_core_patch_insn_def is_mem_def Let_def)
  then show ?thesis by (rule patch_mem_success [OF True])
next
  case False
  have ld: "is_ldimm64_insn i \<Longrightarrow> BPF_CLASS (i_code i) = 0" for i by (simp add: is_ldimm64_insn_def BPF_CLASS_def)
  have eq: "j\<lparr>i_imm := 0\<rparr> = \<lparr>i_code = 0, i_dst_reg = 0, i_src_reg = 0, i_off = 0, i_imm = 0\<rparr> \<longleftrightarrow>
      \<not> (i_code j \<noteq> 0 \<or> i_dst_reg j \<noteq> 0 \<or> i_src_reg j \<noteq> 0 \<or> i_off j \<noteq> 0)" for j :: bpf_insn
    by (cases j) auto
  show ?thesis
    using assms False ld [of "insns ! 0"]
    by (auto simp: bpf_core_patch_insn_def patchable_def Let_def is_mem_def is_alu_def eq operand_def run_bind_eq_Ret split: if_split_asm)
qed

text \<open>
  C9. Patching an instruction that is complete never reads or writes outside of it and changes no other instruction. It
  succeeds exactly on an instruction that can be patched. Then the instruction is either replaced by the poisoned call, which
  is done exactly on request or for a load or store of unsafe size, or its operand was the expected one, is now the new value
  and every other field is kept, in both slots of a 64-bit load, except for the size of a load or store that is changed from
  the original to the new one. An immediate operand of 32 bits holds the new value cut to 32 bits; an offset and a 64-bit
  immediate hold all of it.
\<close>

theorem bpf_core_patch_insn_effect:
  assumes "insn_width (insns ! 0) \<le> length insns"
  shows "\<exists>e insns'. bpf_core_patch_insn insns res = Ret (e, insns') \<and> length insns' = length insns \<and>
    drop (insn_width (insns ! 0)) insns' = drop (insn_width (insns ! 0)) insns \<and>
    (e = None \<longleftrightarrow> patchable insns res) \<and> (e = None \<longrightarrow> patched insns res insns')"
proof -
  obtain i rest where i: "insns = i # rest" using assms by (cases insns) (auto simp: insn_width_def split: if_split_asm)
  have "patch_result insns res (bpf_core_patch_insn insns res)" unfolding bpf_core_patch_insn_def Let_def
  proof (intro patch_result_if)
    assume mem: "BPF_CLASS (i_code (insns ! 0)) = 1 \<or> BPF_CLASS (i_code (insns ! 0)) = 2 \<or> BPF_CLASS (i_code (insns ! 0)) = 3"
    show "patch_result insns res (patch_mem insns res)" using mem i by (intro patch_mem_result) (auto simp: is_mem_def)
  next
    assume alu: "BPF_CLASS (i_code (insns ! 0)) = 4 \<or> BPF_CLASS (i_code (insns ! 0)) = 7"
      and "\<not> res_poison res" "\<not> (res_validate res \<and> scast (i_imm (insns ! 0)) \<noteq> res_orig_val res)"
    moreover have "insn_width i = 1" using alu by (auto simp: i insn_width_def is_ldimm64_insn_def BPF_CLASS_def)
    ultimately show "patch_result insns res (Ret (None, insns[0 := (insns ! 0)\<lparr>i_imm := ucast (res_new_val res)\<rparr>]))"
      by (auto simp: i patch_result_def patched_def is_alu_def is_mem_def operand_def)
  next
    assume ld: "BPF_CLASS (i_code (insns ! 0)) = 0" "\<not> (\<not> is_ldimm64_insn (insns ! 0) \<or> i_src_reg (insns ! 0) \<noteq> 0 \<or> i_off (insns ! 0) \<noteq> 0)"
      and np: "\<not> res_poison res"
      and v: "\<not> (res_validate res \<and> ucast (i_imm (insns ! 0)) OR push_bit 32 (scast (i_imm (insns ! 1))) \<noteq> res_orig_val res)"
    have w: "insn_width i = 2" "\<not> is_alu i" "\<not> is_mem i" using ld by (simp_all add: i insn_width_def is_alu_def is_mem_def)
    then obtain j rest' where r: "rest = j # rest'" using assms i by (cases rest) auto
    show "patch_result insns res (Ret (None, insns[0 := (insns ! 0)\<lparr>i_imm := ucast (res_new_val res)\<rparr>,
        1 := (insns ! 1)\<lparr>i_imm := ucast (drop_bit 32 (res_new_val res))\<rparr>]))"
      using v np w by (auto simp: i r patch_result_def patched_def operand_def split_64 is_alu_def is_mem_def less_2_cases_iff)
  qed (use assms patch_result_err patch_result_poison [OF assms] in \<open>auto simp: insn_width_def\<close>)
  then show ?thesis using patch_insn_success [of insns res] by (auto simp: patch_result_def)
qed

theorem bpf_core_patch_insn_effect_witness:
  "\<exists>insns'. bpf_core_patch_insn [\<lparr>i_code = 0x61, i_dst_reg = 1, i_src_reg = 2, i_off = 4, i_imm = 0\<rparr>]
      (core_res\<lparr>res_new_val := 8, res_orig_sz := 4, res_new_sz := 8\<rparr>) = Ret (None, insns') \<and>
    length insns' = 1 \<and> operand insns' = 8 \<and> word_of_int (insn_bpf_size_to_bytes (insns' ! 0)) = (8 :: u32)"
proof -
  let ?insns = "[\<lparr>i_code = 0x61, i_dst_reg = 1, i_src_reg = 2, i_off = 4, i_imm = 0\<rparr>]"
  let ?res = "core_res\<lparr>res_new_val := 8, res_orig_sz := 4, res_new_sz := 8\<rparr>"
  note defs = insn_width_def is_ldimm64_insn_def is_alu_def is_mem_def BPF_CLASS_def core_res_def relo_res_init_def Let_def
  have able: "patchable ?insns ?res" by (simp add: patchable_def defs insn_bpf_size_to_bytes_def BPF_SIZE_def)
  have w: "insn_width (?insns ! 0) \<le> length ?insns" by (simp add: defs)
  obtain insns' where r: "bpf_core_patch_insn ?insns ?res = Ret (None, insns')" "length insns' = 1" "patched ?insns ?res insns'"
    using bpf_core_patch_insn_effect [OF w, of ?res] able by auto
  then show ?thesis unfolding patched_def by (intro exI [of _ insns'] conjI) (simp_all add: defs)
qed

end
