(* ===== verification/CorePath.thy ===== *)
theory CorePath
  imports CoreAgree
begin

text \<open>
  Access paths: the raw specification of a field, parsed from an access string or found in a target, is a path of
  member and element indices, and the bit offset of the specification is the sum of the offsets along it.
\<close>

section \<open>Paths\<close>

text \<open>
  A path of indices from a type, its offset in bits and the type it leads to. A member must exist, and an element must be in
  bounds, except that an array of no elements has any number of them if it is the last member of its type: the two flags say
  before and after the path whether the last step, other than to a member without a name, was to the last member of a type.
  A member without a name has the name offset 0 or the empty name.
\<close>

inductive field_path :: "btf \<Rightarrow> bool \<Rightarrow> u32 \<Rightarrow> int list \<Rightarrow> nat \<Rightarrow> u32 \<Rightarrow> bool \<Rightarrow> bool" for btf where
  path_here: "field_path btf l i [] 0 i l"
| path_member: "skip_mods_and_typedefs btf i = Ret (t, i') \<Longrightarrow> btf_is_composite t \<Longrightarrow> k < unat (btf_vlen t) \<Longrightarrow>
    \<not> str_is_empty (btf__name_by_offset btf (m_name_off (btf_member_at t k))) \<Longrightarrow>
    field_path btf (Suc k = unat (btf_vlen t)) (m_type (btf_member_at t k)) ks b j l' \<Longrightarrow>
    field_path btf l i (int k # ks) (unat (btf_member_bit_offset t k) + b) j l'"
| path_anon: "skip_mods_and_typedefs btf i = Ret (t, i') \<Longrightarrow> btf_is_composite t \<Longrightarrow> k < unat (btf_vlen t) \<Longrightarrow>
    m_name_off (btf_member_at t k) = 0 \<or> str_is_empty (btf__name_by_offset btf (m_name_off (btf_member_at t k))) \<Longrightarrow>
    field_path btf l (m_type (btf_member_at t k)) ks b j l' \<Longrightarrow>
    field_path btf l i (int k # ks) (unat (btf_member_bit_offset t k) + b) j l'"
| path_elem: "skip_mods_and_typedefs btf i = Ret (t, i') \<Longrightarrow> btf_is_array t \<Longrightarrow>
    k < unat (a_nelems (btf_array_of t)) \<or> l \<and> a_nelems (btf_array_of t) = 0 \<Longrightarrow>
    skip_mods_and_typedefs btf (a_type (btf_array_of t)) = Ret (t', e) \<Longrightarrow> btf__resolve_size btf e = Inr n \<Longrightarrow>
    field_path btf False e ks b j l' \<Longrightarrow> field_path btf l i (int k # ks) (k * n * 8 + b) j l'"

text \<open>A path of a specification starts with an index over objects of the root type.\<close>

inductive spec_path :: "btf \<Rightarrow> u32 \<Rightarrow> int list \<Rightarrow> nat \<Rightarrow> u32 \<Rightarrow> bool \<Rightarrow> bool" for btf where
  spec_path: "skip_mods_and_typedefs btf root = Ret (t, i) \<Longrightarrow> btf__resolve_size btf i = Inr n \<Longrightarrow>
    field_path btf False i ks b j l \<Longrightarrow> spec_path btf root (int k # ks) (k * n * 8 + b) j l"

lemma path_append:
  "field_path btf f i ks b j f' \<Longrightarrow> field_path btf f' j ls c l g \<Longrightarrow> field_path btf f i (ks @ ls) (b + c) l g"
proof (induction rule: field_path.induct)
  case (path_member i t i' k ks b j l' f)
  then show ?case using field_path.path_member [of btf i t i' k "ks @ ls" "b + c" l g f] by (simp add: add.assoc)
next
  case (path_anon i t i' k f ks b j l')
  then show ?case using field_path.path_anon [of btf i t i' k f "ks @ ls" "b + c" l g] by (simp add: add.assoc)
next
  case (path_elem i t i' k f t' e n ks b j l')
  then show ?case using field_path.path_elem [of btf i t i' k f t' e n "ks @ ls" "b + c" l g] by (simp add: add.assoc)
qed simp

lemma spec_path_append:
  "spec_path btf root ks b j f \<Longrightarrow> field_path btf f j ls c l g \<Longrightarrow> spec_path btf root (ks @ ls) (b + c) l g"
proof (induction rule: spec_path.induct)
  case (spec_path root t i n ks b j f k)
  then show ?case using spec_path.spec_path [of btf root t i n "ks @ ls" "b + c" l g k] path_append by (simp add: add.assoc)
qed

lemma skip_idem: "skip_mods_and_typedefs btf i = Ret (t, j) \<Longrightarrow> skip_mods_and_typedefs btf j = Ret (t, j)"
  by (auto simp: skip_mods_and_typedefs_def chase_Some chase_stop run_bind_eq_Ret split: option.split_asm)

section \<open>Specifications\<close>

text \<open>The used parts of the arrays of a specification.\<close>

definition raw_of :: "bpf_core_spec \<Rightarrow> int list" where
  "raw_of spec = take (sp_raw_len spec) (sp_raw_spec spec)"

definition accs_of :: "bpf_core_spec \<Rightarrow> bpf_core_accessor list" where
  "accs_of spec = take (sp_len spec) (sp_spec spec)"

definition spec_wf :: "bpf_core_spec \<Rightarrow> bool" where
  "spec_wf spec \<longleftrightarrow> length (sp_raw_spec spec) = 64 \<and> length (sp_spec spec) = 64 \<and> sp_raw_len spec \<le> 64 \<and> sp_len spec \<le> sp_raw_len spec"

lemma wf_lengths: "spec_wf spec \<Longrightarrow> length (raw_of spec) = sp_raw_len spec \<and> length (accs_of spec) = sp_len spec"
  by (auto simp: spec_wf_def raw_of_def accs_of_def)

lemma spec_init_wf: "spec_wf (spec_init btf i k)" "raw_of (spec_init btf i k) = []" "accs_of (spec_init btf i k) = []"
  "sp_bit_offset (spec_init btf i k) = 0"
  by (simp_all add: spec_wf_def spec_init_def raw_of_def accs_of_def BPF_CORE_SPEC_MAX_LEN_def)

lemma push_raw_ok:
  assumes "spec_wf spec" "sp_raw_len spec \<noteq> 64"
  obtains spec' where "push_raw spec v = Ret spec'" "spec_wf spec'" "raw_of spec' = raw_of spec @ [v]" "accs_of spec' = accs_of spec"
    "sp_bit_offset spec' = sp_bit_offset spec" "sp_len spec' = sp_len spec" "sp_raw_len spec' = Suc (sp_raw_len spec)"
    "sp_btf spec' = sp_btf spec" "sp_relo_kind spec' = sp_relo_kind spec"
  using assms by (auto simp: push_raw_def array_set_def spec_wf_def raw_of_def accs_of_def take_Suc_conv_app_nth)

lemma set_acc_ok:
  assumes "length (sp_spec spec) = 64" "sp_len spec < 64"
  obtains spec' where "set_acc spec (sp_len spec) a = Ret spec'" "accs_of spec' = accs_of spec @ [a]" "raw_of spec' = raw_of spec"
    "sp_bit_offset spec' = sp_bit_offset spec" "sp_len spec' = Suc (sp_len spec)" "sp_raw_len spec' = sp_raw_len spec"
    "sp_raw_spec spec' = sp_raw_spec spec" "length (sp_spec spec') = 64" "sp_btf spec' = sp_btf spec"
  using assms by (auto simp: set_acc_def array_set_def raw_of_def accs_of_def take_Suc_conv_app_nth)

text \<open>An accessor of the last member of its type; the flag of a path is that of the last accessor.\<close>

definition last_member :: "btf \<Rightarrow> bpf_core_accessor \<Rightarrow> bool" where
  "last_member btf a \<longleftrightarrow> acc_name a \<noteq> None \<and> acc_idx a = btf_vlen (btf_type_by_id btf (acc_type_id a)) - 1"

abbreviation at_last :: "btf \<Rightarrow> bpf_core_spec \<Rightarrow> bool" where
  "at_last btf spec \<equiv> last_member btf (sp_spec spec ! (sp_len spec - 1))"

lemma is_flex_arr_last: "is_flex_arr btf a arr \<longleftrightarrow> last_member btf a \<and> a_nelems arr = 0"
  using word_neq_0_conv [of "a_nelems arr"] by (auto simp: is_flex_arr_def last_member_def)

lemma skip_type: "skip_mods_and_typedefs btf i = Ret (t, j) \<Longrightarrow> btf_type_by_id btf j = t"
  by (auto simp: skip_mods_and_typedefs_def deref_def btf__type_by_id_def split: option.split_asm if_split_asm)

lemma last_member_idx:
  assumes "skip_mods_and_typedefs btf i = Ret (t, i')" "k < unat (btf_vlen t)"
  shows "last_member btf \<lparr>acc_type_id = i', acc_idx = of_nat k, acc_name = Some s\<rparr> \<longleftrightarrow> Suc k = unat (btf_vlen t)"
proof -
  have "unat (btf_vlen t - 1) = unat (btf_vlen t) - 1" using assms(2) by (subst unat_sub) (auto simp: word_le_nat_alt)
  moreover have "unat (of_nat k :: u32) = k" using assms(2) unat_less_u32 [of "btf_vlen t"] by (intro unat_of_nat_u32) simp
  ultimately have "(of_nat k = btf_vlen t - 1) = (k = unat (btf_vlen t) - 1)" using unsigned_word_eqI by metis
  then show ?thesis using assms(2) by (auto simp: last_member_def skip_type [OF assms(1)])
qed

lemma accs_last: "spec_wf spec \<Longrightarrow> accs_of spec = as @ [a] \<Longrightarrow> sp_spec spec ! (sp_len spec - 1) = a"
proof -
  assume wf: "spec_wf spec" and a: "accs_of spec = as @ [a]"
  then have l: "sp_len spec = Suc (length as)" using wf_lengths by fastforce
  then have "accs_of spec ! length as = sp_spec spec ! length as" by (simp add: accs_of_def)
  then show "sp_spec spec ! (sp_len spec - 1) = a" using a l by simp
qed

section \<open>Parsed specifications\<close>

text \<open>The indices that the parser accepts.\<close>

definition small :: "int \<Rightarrow> bool" where
  "small k \<longleftrightarrow> 0 \<le> k \<and> k < 2 ^ 31"

definition idx_ok :: "bpf_core_accessor \<Rightarrow> bool" where
  "idx_ok a \<longleftrightarrow> 0 \<le> sint (acc_idx a)"

lemma small_idx: "small k \<Longrightarrow> 0 \<le> sint (of_int k :: u32)"
  by (simp add: small_def int_word_sint)

lemma scan_int_bound: "scan_int s = Some (v, rest) \<Longrightarrow> v < 2 ^ 31"
  using sint_range_size [of "word_of_int _ :: u32"]
  by (auto simp: scan_int_def Let_def word_size split: if_split_asm)

lemma parse_raw_spec_ok:
  assumes "parse_raw_spec s spec = ok spec'" "spec_wf spec" "\<forall>k\<in>set (raw_of spec). small k"
  shows "spec_wf spec' \<and> (\<forall>k\<in>set (raw_of spec'). small k) \<and> accs_of spec' = accs_of spec \<and> sp_len spec' = sp_len spec \<and>
    sp_bit_offset spec' = sp_bit_offset spec \<and> sp_btf spec' = sp_btf spec \<and> sp_relo_kind spec' = sp_relo_kind spec"
  using assms
proof (induction s spec rule: parse_raw_spec.induct)
  case (1 s spec)
  show ?case
  proof (cases "s = []")
    case True
    then show ?thesis using "1.prems" by (simp add: parse_raw_spec.simps)
  next
    case False
    then obtain v rest where v: "scan_int (if hd s = 58 then tl s else s) = Some (v, rest)" "0 \<le> v" "sp_raw_len spec \<noteq> 64"
      and r: "run_bind (push_raw spec v) (parse_raw_spec rest) = ok spec'"
      using "1.prems"(1) by (auto simp: parse_raw_spec.simps [of s] BPF_CORE_SPEC_MAX_LEN_def split: option.split_asm if_split_asm)
    obtain spec1 where p: "push_raw spec v = Ret spec1" "spec_wf spec1" "raw_of spec1 = raw_of spec @ [v]" "accs_of spec1 = accs_of spec"
      "sp_bit_offset spec1 = sp_bit_offset spec" "sp_len spec1 = sp_len spec" "sp_btf spec1 = sp_btf spec" "sp_relo_kind spec1 = sp_relo_kind spec"
      using push_raw_ok [OF "1.prems"(2) v(3)] by metis
    have "\<forall>k\<in>set (raw_of spec1). small k" using "1.prems"(3) v(2) p(3) scan_int_bound [OF v(1)] by (simp add: small_def)
    then show ?thesis
      using "1.IH" [OF False v(1) refl _ _ _ p(2)] v(2,3) r p by (simp add: BPF_CORE_SPEC_MAX_LEN_def)
  qed
qed

text \<open>At most \<open>n\<close> accessors and \<open>b\<close> bits are added to a specification.\<close>

definition added :: "nat \<Rightarrow> nat \<Rightarrow> bpf_core_spec \<Rightarrow> bpf_core_spec \<Rightarrow> bool" where
  "added n b spec spec' \<longleftrightarrow>
     sp_bit_offset spec' = sp_bit_offset spec + of_nat b \<and> sp_raw_spec spec' = sp_raw_spec spec \<and>
     sp_raw_len spec' = sp_raw_len spec \<and> sp_btf spec' = sp_btf spec \<and> sp_relo_kind spec' = sp_relo_kind spec \<and>
     length (sp_spec spec') = length (sp_spec spec) \<and>
     sp_len spec' \<le> sp_len spec + n \<and> (\<exists>as. accs_of spec' = accs_of spec @ as \<and> (\<forall>a\<in>set as. idx_ok a))"

lemma added_trans: "added n b spec spec1 \<Longrightarrow> added m c spec1 spec2 \<Longrightarrow> added (n + m) (b + c) spec spec2"
  by (fastforce simp: added_def)

lemma added_refl: "added n 0 spec spec"
  by (simp add: added_def)

lemma added_bits:
  "v = of_nat b \<Longrightarrow> added n b spec (spec\<lparr>sp_bit_offset := sp_bit_offset spec + v\<rparr>)"
  by (simp add: added_def accs_of_def)

lemma set_acc_added:
  assumes "set_acc spec (sp_len spec) a = Ret spec'" "sp_len spec < length (sp_spec spec)" "idx_ok a"
  shows "added 1 0 spec spec'"
  using assms by (auto simp: set_acc_def array_set_def added_def accs_of_def take_Suc_conv_app_nth)

lemma set_acc_last: "set_acc spec (sp_len spec) a = Ret spec' \<Longrightarrow> sp_spec spec' ! (sp_len spec' - 1) = a"
  by (auto simp: set_acc_def array_set_def run_bind_eq_Ret split: if_split_asm)

lemma member_step:
  assumes "spec_fields btf (k # ks) i spec = ok spec'" "small k" "sp_len spec < length (sp_spec spec)"
    and sk: "skip_mods_and_typedefs btf i = Ret (t, i')" and comp: "btf_is_composite t"
  shows "\<exists>j spec1 b. spec_fields btf ks j spec1 = ok spec' \<and> field_path btf (at_last btf spec) i [k] b j (at_last btf spec1) \<and>
    added 1 b spec spec1"
proof -
  have pos: "0 \<le> k" using assms(2) by (simp add: small_def)
  define m where "m = btf_member_at t (nat k)"
  define spec0 where "spec0 = spec\<lparr>sp_bit_offset := sp_bit_offset spec + btf_member_bit_offset t (nat k)\<rparr>"
  have bound: "nat k < unat (btf_vlen t)"
    using assms(1) pos sk comp by (auto simp: Let_def nat_less_iff split: if_split_asm)
  have a0: "added 0 (unat (btf_member_bit_offset t (nat k))) spec spec0" unfolding spec0_def by (rule added_bits) simp
  show ?thesis
  proof (cases "m_name_off m = 0")
    case True
    then have "spec_fields btf ks (m_type m) spec0 = ok spec'"
      using assms(1) sk comp by (auto simp: Let_def m_def spec0_def split: if_split_asm)
    moreover have "field_path btf (at_last btf spec) i [k] (unat (btf_member_bit_offset t (nat k))) (m_type m) (at_last btf spec0)"
      using path_anon [OF sk comp bound _ path_here, of "at_last btf spec"] pos True by (simp add: m_def spec0_def)
    ultimately show ?thesis using added_trans [OF a0 added_refl [of 1]] by auto
  next
    case False
    define a where "a = \<lparr>acc_type_id = i', acc_idx = of_int k, acc_name = btf__name_by_offset btf (m_name_off m)\<rparr>"
    have a: "idx_ok a" by (simp add: a_def idx_ok_def small_idx [OF assms(2)])
    have "\<not> str_is_empty (btf__name_by_offset btf (m_name_off m))"
      and "run_bind (set_acc spec0 (sp_len spec0) a) (spec_fields btf ks (m_type m)) = ok spec'"
      using assms(1) False sk comp by (auto simp: Let_def m_def spec0_def a_def split: if_split_asm)
    then obtain spec1 s where s1: "set_acc spec0 (sp_len spec0) a = Ret spec1" "spec_fields btf ks (m_type m) spec1 = ok spec'"
      and nm: "\<not> str_is_empty (btf__name_by_offset btf (m_name_off m))" "btf__name_by_offset btf (m_name_off m) = Some s"
      by (auto simp: run_bind_eq_Ret str_is_empty_def split: option.split_asm)
    have "sp_spec spec1 ! (sp_len spec1 - 1) = a" by (rule set_acc_last [OF s1(1)])
    then have "at_last btf spec1 \<longleftrightarrow> Suc (nat k) = unat (btf_vlen t)"
      using last_member_idx [OF sk bound, of s] pos nm(2) by (simp add: a_def)
    then have path: "field_path btf (at_last btf spec) i [k] (unat (btf_member_bit_offset t (nat k))) (m_type m) (at_last btf spec1)"
      using path_member [OF sk comp bound _ path_here] nm(1) pos by (simp add: m_def)
    have "sp_len spec0 < length (sp_spec spec0)" using assms(3) by (simp add: spec0_def)
    then have "added 1 (unat (btf_member_bit_offset t (nat k))) spec spec1"
      using added_trans [OF a0 set_acc_added [OF s1(1) _ a]] by simp
    then show ?thesis using path s1(2) by blast
  qed
qed

lemma array_step:
  assumes "spec_fields btf (k # ks) i spec = ok spec'" "small k" "sp_len spec < length (sp_spec spec)"
    and sk: "skip_mods_and_typedefs btf i = Ret (t, i')" and "\<not> btf_is_composite t"
  shows "\<exists>j spec1 b. spec_fields btf ks j spec1 = ok spec' \<and> field_path btf (at_last btf spec) i [k] b j (at_last btf spec1) \<and>
    added 1 b spec spec1"
proof -
  have pos: "0 \<le> k" using assms(2) by (simp add: small_def)
  have arr: "btf_is_array t" using assms(1,5) sk by (auto split: if_split_asm)
  obtain t' e where e: "skip_mods_and_typedefs btf (a_type (btf_array_of t)) = Ret (t', e)"
    using assms(1,5) sk arr by (auto simp: Let_def run_bind_eq_Ret)
  define a where "a = \<lparr>acc_type_id = e, acc_idx = of_int k, acc_name = None\<rparr>"
  have a: "idx_ok a" by (simp add: a_def idx_ok_def small_idx [OF assms(2)])
  have "run_bind (set_acc spec (sp_len spec) a) (\<lambda>spec. case btf__resolve_size btf e of Inl e \<Rightarrow> err e
       | Inr n \<Rightarrow> spec_fields btf ks e (spec\<lparr>sp_bit_offset := sp_bit_offset spec + of_int (k * int n * 8)\<rparr>)) = ok spec'"
    using assms(1,5) sk arr e by (auto simp: Let_def a_def split: if_split_asm)
  then obtain spec1 n where s: "set_acc spec (sp_len spec) a = Ret spec1" and n: "btf__resolve_size btf e = Inr n"
    and r: "spec_fields btf ks e (spec1\<lparr>sp_bit_offset := sp_bit_offset spec1 + of_int (k * int n * 8)\<rparr>) = ok spec'"
    by (cases "btf__resolve_size btf e") (auto simp: run_bind_eq_Ret)
  have "is_flex_arr btf (sp_spec spec ! (sp_len spec - 1)) (btf_array_of t) \<or> k < uint (a_nelems (btf_array_of t))"
    using assms(1,5) sk arr e by (auto simp: Let_def split: if_split_asm)
  then have bound: "nat k < unat (a_nelems (btf_array_of t)) \<or> at_last btf spec \<and> a_nelems (btf_array_of t) = 0"
    using pos by (auto simp: is_flex_arr_last nat_less_iff)
  have "sp_spec spec1 ! (sp_len spec1 - 1) = a" by (rule set_acc_last [OF s])
  then have "\<not> at_last btf (spec1\<lparr>sp_bit_offset := v\<rparr>)" for v by (simp add: a_def last_member_def)
  then have path: "field_path btf (at_last btf spec) i [k] (nat k * n * 8) e (at_last btf (spec1\<lparr>sp_bit_offset := v\<rparr>))" for v
    using path_elem [OF sk arr bound e n path_here] pos by simp
  have "(of_int (k * int n * 8) :: u32) = of_nat (nat k * n * 8)" using pos by (simp add: of_nat_nat)
  then have "added 1 (nat k * n * 8) spec (spec1\<lparr>sp_bit_offset := sp_bit_offset spec1 + of_int (k * int n * 8)\<rparr>)"
    using added_trans [OF set_acc_added [OF s assms(3) a] added_bits [of _ _ 0 spec1]] by (metis add.right_neutral add_0)
  then show ?thesis using r path by blast
qed

lemma spec_fields_ok:
  assumes "spec_fields btf ks i spec = ok spec'" "\<forall>k\<in>set ks. small k" "sp_len spec + length ks \<le> length (sp_spec spec)"
  shows "\<exists>b j. field_path btf (at_last btf spec) i ks b j (at_last btf spec') \<and> added (length ks) b spec spec'"
  using assms
proof (induction ks arbitrary: i spec)
  case Nil
  then show ?case using path_here [of btf _ i] added_refl [of 0 spec] by fastforce
next
  case (Cons k ks)
  obtain t i' where sk: "skip_mods_and_typedefs btf i = Ret (t, i')" using Cons.prems(1) by (auto simp: run_bind_eq_Ret)
  have "\<exists>j spec1 b. spec_fields btf ks j spec1 = ok spec' \<and> field_path btf (at_last btf spec) i [k] b j (at_last btf spec1) \<and>
      added 1 b spec spec1"
    using member_step [OF Cons.prems(1) _ _ sk] array_step [OF Cons.prems(1) _ _ sk] Cons.prems(2,3) by fastforce
  then obtain j spec1 b where s: "spec_fields btf ks j spec1 = ok spec'"
    "field_path btf (at_last btf spec) i [k] b j (at_last btf spec1)" "added 1 b spec spec1" by blast
  then have "sp_len spec1 + length ks \<le> length (sp_spec spec1)" using Cons.prems(3) by (auto simp: added_def)
  then obtain c l where "field_path btf (at_last btf spec1) j ks c l (at_last btf spec')" "added (length ks) c spec1 spec'" using Cons.IH [OF s(1)] Cons.prems(2) by auto
  then show ?case using path_append [OF s(2)] added_trans [OF s(3)] by fastforce
qed

lemma field_based_kind:
  "core_relo_is_field_based k \<Longrightarrow> \<not> core_relo_is_type_based k \<and> \<not> core_relo_is_enumval_based k"
  by (auto simp: core_relo_is_field_based_def core_relo_is_type_based_def core_relo_is_enumval_based_def)

lemma parse_spec_start:
  assumes "bpf_core_parse_spec btf relo = ok spec" "core_relo_is_field_based (r_kind relo)"
  obtains t i n k ks s where "skip_mods_and_typedefs btf (r_type_id relo) = Ret (t, i)" "btf__resolve_size btf i = Inr n"
    "spec_fields btf ks i s = ok spec" "raw_of s = k # ks" "\<forall>x\<in>set (raw_of s). small x" "spec_wf s" "sp_len s = 1"
    "sp_bit_offset s = of_nat (nat k * n * 8)" "acc_name (sp_spec s ! 0) = None" "idx_ok (sp_spec s ! 0)" "sp_btf s = btf" "sp_relo_kind s = r_kind relo"
proof -
  let ?init = "spec_init btf (r_type_id relo) (r_kind relo)"
  obtain str spec1 t i where raw: "parse_raw_spec str ?init = ok spec1" "sp_raw_len spec1 \<noteq> 0"
    and sk: "skip_mods_and_typedefs btf (r_type_id relo) = Ret (t, i)"
    and r: "run_bind (set_acc spec1 0 \<lparr>acc_type_id = i, acc_idx = of_int (sp_raw_spec spec1 ! 0), acc_name = None\<rparr>) (\<lambda>spec2.
        case btf__resolve_size btf i of Inl e \<Rightarrow> err e
        | Inr n \<Rightarrow> spec_fields btf (drop 1 (take (sp_raw_len spec2) (sp_raw_spec spec2))) i
            (spec2\<lparr>sp_bit_offset := of_int (sp_raw_spec spec1 ! 0 * int n * 8)\<rparr>)) = ok spec"
    using assms field_based_kind [OF assms(2)]
    by (auto simp: bpf_core_parse_spec_def Let_def rr_bind_eq_ok run_bind_eq_Ret [of "skip_mods_and_typedefs _ _"] split: if_split_asm)
  have s1: "spec_wf spec1" "\<forall>k\<in>set (raw_of spec1). small k" "sp_len spec1 = 0" "sp_btf spec1 = btf" "sp_relo_kind spec1 = r_kind relo"
    using parse_raw_spec_ok [OF raw(1)] by (simp_all add: spec_init_wf) (simp_all add: spec_init_def)
  let ?acc = "\<lparr>acc_type_id = i, acc_idx = of_int (sp_raw_spec spec1 ! 0), acc_name = None\<rparr>"
  obtain spec2 where s2: "set_acc spec1 0 ?acc = Ret spec2" using r by (auto simp: run_bind_eq_Ret)
  obtain n where n: "btf__resolve_size btf i = Inr n" using r s2 by (cases "btf__resolve_size btf i") auto
  have s2': "spec2 = spec1\<lparr>sp_spec := (sp_spec spec1)[0 := ?acc], sp_len := 1\<rparr>"
    using s2 s1(3) by (auto simp: set_acc_def array_set_def split: if_split_asm)
  obtain k ks where ks: "raw_of spec1 = k # ks" using raw(2) s1(1) by (cases "raw_of spec1") (auto simp: raw_of_def spec_wf_def)
  have "raw_of spec1 ! 0 = sp_raw_spec spec1 ! 0" using raw(2) by (simp add: raw_of_def)
  then have k: "sp_raw_spec spec1 ! 0 = k" "0 \<le> k" "small k" using ks s1(2) by (simp_all add: small_def)
  let ?s = "spec2\<lparr>sp_bit_offset := of_int (k * int n * 8)\<rparr>"
  have keep: "raw_of ?s = raw_of spec1" "length (sp_spec spec1) = 64" using s1(1) by (simp_all add: raw_of_def s2' spec_wf_def)
  show ?thesis
  proof (rule that [OF sk n])
    show "spec_fields btf ks i ?s = ok spec" using r s2 n ks k(1) by (simp add: raw_of_def s2')
    show "spec_wf ?s" using s1(1) raw(2) by (simp add: spec_wf_def s2')
    show "sp_bit_offset ?s = of_nat (nat k * n * 8)" using k(2) by (simp add: of_nat_nat)
  qed (use keep ks s1(2,4,5) k small_idx [OF k(3)] in \<open>simp_all add: s2' idx_ok_def\<close>)
qed

lemma added_first:
  assumes "added n b spec spec'" "0 < sp_len spec" "sp_len spec \<le> length (sp_spec spec)"
  shows "0 < sp_len spec' \<and> sp_spec spec' ! 0 = sp_spec spec ! 0"
proof -
  obtain as where as: "take (sp_len spec') (sp_spec spec') = take (sp_len spec) (sp_spec spec) @ as"
    using assms(1) by (auto simp: added_def accs_of_def)
  have pos: "0 < sp_len spec'" using arg_cong [OF as, of length] assms(2,3) by (cases "sp_len spec'") auto
  then have "sp_spec spec' ! 0 = take (sp_len spec') (sp_spec spec') ! 0" by simp
  also have "\<dots> = sp_spec spec ! 0" unfolding as using assms(2,3) by (simp add: nth_append)
  finally show ?thesis using pos by simp
qed

lemma parse_spec_facts:
  assumes "bpf_core_parse_spec btf relo = ok spec" "core_relo_is_field_based (r_kind relo)"
  shows "\<exists>b j l. spec_path btf (r_type_id relo) (raw_of spec) b j l \<and> sp_bit_offset spec = of_nat b \<and> spec_wf spec \<and>
    0 < sp_len spec \<and> acc_name (sp_spec spec ! 0) = None \<and> (\<forall>a\<in>set (accs_of spec). idx_ok a) \<and>
    sp_btf spec = btf \<and> sp_relo_kind spec = r_kind relo"
proof -
  obtain t i n k ks s where s: "skip_mods_and_typedefs btf (r_type_id relo) = Ret (t, i)" "btf__resolve_size btf i = Inr n"
    "spec_fields btf ks i s = ok spec" "raw_of s = k # ks" "\<forall>x\<in>set (raw_of s). small x" "spec_wf s" "sp_len s = 1"
    "sp_bit_offset s = of_nat (nat k * n * 8)" "acc_name (sp_spec s ! 0) = None" "idx_ok (sp_spec s ! 0)" "sp_btf s = btf" "sp_relo_kind s = r_kind relo"
    using assms by (rule parse_spec_start)
  have len: "Suc (length ks) = sp_raw_len s" using wf_lengths [OF s(6)] s(4) by simp
  have "\<not> at_last btf s" using s(7,9) by (simp add: last_member_def)
  then obtain b j where b: "field_path btf False i ks b j (at_last btf spec)" "added (length ks) b s spec"
    using spec_fields_ok [OF s(3)] s(4,5,6,7) len by (auto simp: spec_wf_def)
  have "spec_path btf (r_type_id relo) (raw_of spec) (nat k * n * 8 + b) j (at_last btf spec)"
    using spec_path [OF s(1,2) b(1), of "nat k"] b(2) s(4,5) by (simp add: added_def raw_of_def small_def)
  moreover have "sp_bit_offset spec = of_nat (nat k * n * 8 + b)" using b(2) s(8) by (simp add: added_def)
  moreover have "spec_wf spec" using b(2) s(6,7) len by (auto simp: added_def spec_wf_def)
  moreover have "0 < sp_len spec \<and> acc_name (sp_spec spec ! 0) = None"
    using added_first [OF b(2)] s(6,7,9) by (simp add: spec_wf_def)
  moreover have "accs_of s = [sp_spec s ! 0]" using s(6,7) by (simp add: accs_of_def spec_wf_def take_Suc_conv_app_nth)
  then have "\<forall>a\<in>set (accs_of spec). idx_ok a" using b(2) s(10) by (auto simp: added_def)
  moreover have "sp_btf spec = btf \<and> sp_relo_kind spec = r_kind relo" using b(2) s(11,12) by (simp add: added_def)
  ultimately show ?thesis by blast
qed

text \<open>
  C14. The specification that an access string is parsed into: its raw indices, at most 64, are a path through
  the existing members of the root type and through elements of its arrays that are in bounds, where an array of no elements
  that is the last member of its type has any number of elements. Its bit offset is the sum of the offsets along the path,
  computed modulo \<open>2 ^ 32\<close>. The first accessor is the index over objects of the root type, and there are no more
  accessors than indices.
\<close>

theorem bpf_core_parse_spec_path:
  assumes "bpf_core_parse_spec btf relo = ok spec" "core_relo_is_field_based (r_kind relo)"
  shows "\<exists>b j l. spec_path btf (r_type_id relo) (raw_of spec) b j l \<and> sp_bit_offset spec = of_nat b \<and> spec_wf spec \<and>
    0 < sp_len spec \<and> acc_name (sp_spec spec ! 0) = None"
  using parse_spec_facts [OF assms] by blast

theorem bpf_core_parse_spec_path_witness: "\<exists>b j l. spec_path core_btf 2 (raw_of (core_spec 0)) b j l \<and> 35 = (of_nat b :: u32)"
  using bpf_core_parse_spec_path [OF core_parse] by (auto simp: core_relo_def core_relo_is_field_based_def core_spec_simps)

section \<open>Matched specifications\<close>

text \<open>
  A type has a field of the given name, which is not empty, directly or in an embedded member without a name: the path to
  it, its offset and its type. In a type that comes from a C declaration there is at most one, since the members of
  a member without a name count as members of the type around it.
\<close>

inductive has_field :: "btf \<Rightarrow> bytes \<Rightarrow> u32 \<Rightarrow> int list \<Rightarrow> nat \<Rightarrow> u32 \<Rightarrow> bool" for btf name where
  field_here: "skip_mods_and_typedefs btf i = Ret (t, i') \<Longrightarrow> btf_is_composite t \<Longrightarrow> k < unat (btf_vlen t) \<Longrightarrow>
    btf__name_by_offset btf (m_name_off (btf_member_at t k)) = Some s \<Longrightarrow> \<not> is_empty_str s \<Longrightarrow> strcmp name s = 0 \<Longrightarrow>
    has_field btf name i [int k] (unat (btf_member_bit_offset t k)) (m_type (btf_member_at t k))"
| field_deeper: "skip_mods_and_typedefs btf i = Ret (t, i') \<Longrightarrow> btf_is_composite t \<Longrightarrow> k < unat (btf_vlen t) \<Longrightarrow>
    str_is_empty (btf__name_by_offset btf (m_name_off (btf_member_at t k))) \<Longrightarrow>
    has_field btf name (m_type (btf_member_at t k)) ks b j \<Longrightarrow>
    has_field btf name i (int k # ks) (unat (btf_member_bit_offset t k) + b) j"

definition unique_fields :: "btf \<Rightarrow> bool" where
  "unique_fields btf \<longleftrightarrow>
     (\<forall>name i ks b j ks' b' j'. has_field btf name i ks b j \<longrightarrow> has_field btf name i ks' b' j' \<longrightarrow> ks = ks')"

text \<open>What is visible of a specification, and what a search that has found a field adds to it.\<close>

definition view :: "bpf_core_spec \<Rightarrow> int list \<times> u32 \<times> bpf_core_accessor list \<times> btf" where
  "view spec = (raw_of spec, sp_bit_offset spec, accs_of spec, sp_btf spec)"

definition found_field :: "int set \<Rightarrow> btf \<Rightarrow> bytes \<Rightarrow> u32 \<Rightarrow> bpf_core_spec \<Rightarrow> bpf_core_spec \<Rightarrow> u32 \<Rightarrow> bool" where
  "found_field K btf name i spec spec' j \<longleftrightarrow>
     (\<exists>k ks b a s. k \<in> K \<and> has_field btf name i (k # ks) b j \<and> (\<forall>l. field_path btf l i (k # ks) b j (last_member btf a)) \<and> spec_wf spec' \<and> acc_name a = Some s \<and> strcmp name s = 0 \<and>
        view spec' = (raw_of spec @ k # ks, sp_bit_offset spec + of_nat b, accs_of spec @ [a], sp_btf spec))"

text \<open>
  The contract of a search that starts with the indices \<open>K\<close>: what it says on success, and that it leaves no trace when
  there is no such field.
\<close>

definition search_ok :: "int set \<Rightarrow> btf \<Rightarrow> bytes \<Rightarrow> u32 \<Rightarrow> bpf_core_spec \<Rightarrow> (bool result \<times> u32 \<times> bpf_core_spec) \<Rightarrow> bool" where
  "search_ok K btf name i spec r \<longleftrightarrow>
     (case r of (found, j, spec') \<Rightarrow>
        (found = Inr True \<longrightarrow> found_field K btf name i spec spec' j) \<and>
        (found = Inr False \<longrightarrow> spec_wf spec' \<and> sp_len spec' = sp_len spec \<and> sp_raw_len spec \<le> sp_raw_len spec' \<and>
           ((\<exists>ks b j. has_field btf name i ks b j) \<or> view spec' = view spec)))"

lemma view_wf:
  assumes "view spec = view spec'" "spec_wf spec" "spec_wf spec'"
  shows "sp_len spec = sp_len spec'" "sp_raw_len spec = sp_raw_len spec'"
  using assms wf_lengths [OF assms(2)] wf_lengths [OF assms(3)] by (auto simp: view_def)

lemma search_ok_cong:
  assumes "search_ok K btf name i spec r" "view spec = view spec'" "spec_wf spec" "spec_wf spec'" "K \<subseteq> K'"
  shows "search_ok K' btf name i spec' r"
proof -
  note len = view_wf [OF assms(2-4)]
  have eqs: "raw_of spec = raw_of spec'" "sp_bit_offset spec = sp_bit_offset spec'" "accs_of spec = accs_of spec'" "sp_btf spec = sp_btf spec'"
    using assms(2) by (simp_all add: view_def)
  have "found_field K btf name i spec s j \<Longrightarrow> found_field K' btf name i spec' s j" for s j
    using assms(5) unfolding found_field_def eqs by blast
  then show ?thesis using assms(1,2) len by (auto simp: search_ok_def)
qed

lemma search_error: "search_ok K btf name i spec (Inl e, j, spec')"
  by (simp add: search_ok_def)

text \<open>Going on with the next member after a trace has been left.\<close>

lemma search_ok_after:
  assumes "search_ok K btf name i spec1 r" "has_field btf name i (k # ks) b j" "k \<notin> K" "unique_fields btf"
    and "sp_len spec1 = sp_len spec" "sp_raw_len spec \<le> sp_raw_len spec1"
  shows "search_ok K' btf name i spec r"
proof -
  obtain found j' spec' where r: "r = (found, j', spec')" by (cases r)
  have "found \<noteq> Inr True"
  proof
    assume "found = Inr True"
    then obtain k' ks' b' where "k' \<in> K" "has_field btf name i (k' # ks') b' j'" using assms(1) r by (auto simp: search_ok_def found_field_def)
    then have "k' = k" using assms(2,4) unfolding unique_fields_def by blast
    then show False using assms(3) \<open>k' \<in> K\<close> by simp
  qed
  then show ?thesis using assms(1,2,5,6) r by (auto simp: search_ok_def)
qed

lemma unpush:
  assumes "spec_wf spec" "raw_of spec = ks @ [k]" "sp_len spec < sp_raw_len spec"
  shows "view (spec\<lparr>sp_bit_offset := v, sp_raw_len := sp_raw_len spec - 1\<rparr>) = (ks, v, accs_of spec, sp_btf spec)"
proof -
  have "take (sp_raw_len spec - 1) (sp_raw_spec spec) = butlast (raw_of spec)"
    using assms(1) by (simp add: raw_of_def butlast_take spec_wf_def)
  then show ?thesis using assms(2) by (simp add: view_def raw_of_def accs_of_def)
qed

text \<open>A specification to which a member has been added for a try, and what is left when the try is taken back.\<close>

definition pushed :: "nat \<Rightarrow> u32 \<Rightarrow> bpf_core_spec \<Rightarrow> bpf_core_spec \<Rightarrow> bool" where
  "pushed k bo spec spec1 \<longleftrightarrow> spec_wf spec \<and> spec_wf spec1 \<and> sp_len spec1 = sp_len spec \<and> sp_raw_len spec1 = Suc (sp_raw_len spec) \<and>
     view spec1 = (raw_of spec @ [int k], sp_bit_offset spec + bo, accs_of spec, sp_btf spec)"

abbreviation take_back :: "u32 \<Rightarrow> bpf_core_spec \<Rightarrow> bpf_core_spec" where
  "take_back bo spec \<equiv> spec\<lparr>sp_bit_offset := sp_bit_offset spec - bo, sp_raw_len := sp_raw_len spec - 1\<rparr>"

lemma push_member:
  assumes "spec_wf spec" "sp_raw_len spec \<noteq> 64"
  obtains spec1 where "push_raw (spec\<lparr>sp_bit_offset := sp_bit_offset spec + bo\<rparr>) (int k) = Ret spec1" "pushed k bo spec spec1"
proof -
  let ?s = "spec\<lparr>sp_bit_offset := sp_bit_offset spec + bo\<rparr>"
  have "spec_wf ?s" using assms(1) by (simp add: spec_wf_def)
  then obtain spec1 where "push_raw ?s (int k) = Ret spec1" "spec_wf spec1" "raw_of spec1 = raw_of ?s @ [int k]" "accs_of spec1 = accs_of ?s"
    "sp_bit_offset spec1 = sp_bit_offset ?s" "sp_len spec1 = sp_len ?s" "sp_raw_len spec1 = Suc (sp_raw_len ?s)" "sp_btf spec1 = sp_btf ?s"
    using push_raw_ok [of ?s "int k"] assms(2) by auto
  then show ?thesis using assms(1) by (intro that) (auto simp: pushed_def view_def raw_of_def accs_of_def)
qed

lemma take_back_ok:
  assumes "pushed k bo spec spec1" "spec_wf spec2" "sp_len spec2 = sp_len spec1" "sp_raw_len spec1 \<le> sp_raw_len spec2"
  shows "spec_wf (take_back bo spec2)" "sp_len (take_back bo spec2) = sp_len spec" "sp_raw_len spec \<le> sp_raw_len (take_back bo spec2)"
    and "view spec2 = view spec1 \<Longrightarrow> view (take_back bo spec2) = view spec"
proof -
  show "spec_wf (take_back bo spec2)" "sp_len (take_back bo spec2) = sp_len spec" "sp_raw_len spec \<le> sp_raw_len (take_back bo spec2)"
    using assms by (auto simp: pushed_def spec_wf_def)
  assume v: "view spec2 = view spec1"
  then have "raw_of spec2 = raw_of spec @ [int k]" "sp_bit_offset spec2 = sp_bit_offset spec + bo" "accs_of spec2 = accs_of spec" "sp_btf spec2 = sp_btf spec"
    using assms(1) by (auto simp: pushed_def view_def)
  moreover have "sp_len spec2 < sp_raw_len spec2" using assms by (auto simp: pushed_def spec_wf_def)
  ultimately show "view (take_back bo spec2) = view spec" using unpush [OF assms(2)] by (simp add: view_def)
qed

lemma found_deeper:
  assumes "found_field UNIV btf name (m_type (btf_member_at t k)) spec1 spec2 j" "pushed k (btf_member_bit_offset t k) spec spec1"
    and "skip_mods_and_typedefs btf i = Ret (t, i')" "btf_is_composite t" "k < unat (btf_vlen t)"
    and "str_is_empty (btf__name_by_offset btf (m_name_off (btf_member_at t k)))"
  shows "found_field {int k} btf name i spec spec2 j"
proof -
  obtain l ks b a s where f: "has_field btf name (m_type (btf_member_at t k)) (l # ks) b j" "spec_wf spec2" "acc_name a = Some s" "strcmp name s = 0"
    "view spec2 = (raw_of spec1 @ l # ks, sp_bit_offset spec1 + of_nat b, accs_of spec1 @ [a], sp_btf spec1)"
    "\<And>g. field_path btf g (m_type (btf_member_at t k)) (l # ks) b j (last_member btf a)"
    using assms(1) by (auto simp: found_field_def)
  have "view spec2 = (raw_of spec @ int k # l # ks, sp_bit_offset spec + of_nat (unat (btf_member_bit_offset t k) + b), accs_of spec @ [a], sp_btf spec)"
    using f(5) assms(2) by (simp add: pushed_def view_def)
  then show ?thesis
    using field_deeper [OF assms(3-6) f(1)] path_anon [OF assms(3-5) disjI2 [OF assms(6)] f(6)] f(2-4) unfolding found_field_def by blast
qed

lemma found_here:
  assumes "pushed k (btf_member_bit_offset t k) spec spec1" "set_acc spec1 (sp_len spec1) a = Ret spec2"
    and a: "a = \<lparr>acc_type_id = i', acc_idx = of_nat k, acc_name = Some s\<rparr>" and nm: "strcmp name s = 0" "\<not> is_empty_str s"
    and "skip_mods_and_typedefs btf i = Ret (t, i')" "btf_is_composite t" "k < unat (btf_vlen t)"
    and "btf__name_by_offset btf (m_name_off (btf_member_at t k)) = Some s"
  shows "found_field {int k} btf name i spec spec2 (m_type (btf_member_at t k))"
    and "spec_wf (spec2\<lparr>sp_len := sp_len spec2 - 1\<rparr>) \<and> sp_len spec2 = Suc (sp_len spec) \<and> sp_raw_len spec \<le> sp_raw_len spec2"
proof -
  have l: "length (sp_spec spec1) = 64" "sp_len spec1 < 64" using assms(1) by (auto simp: pushed_def spec_wf_def)
  have s2: "accs_of spec2 = accs_of spec1 @ [a]" "raw_of spec2 = raw_of spec1"
    "sp_bit_offset spec2 = sp_bit_offset spec1" "sp_len spec2 = Suc (sp_len spec1)" "sp_raw_len spec2 = sp_raw_len spec1"
    "sp_raw_spec spec2 = sp_raw_spec spec1" "length (sp_spec spec2) = 64" "sp_btf spec2 = sp_btf spec1"
    using set_acc_ok [OF l, of a] assms(2) by auto
  have "spec_wf spec2" using s2 assms(1) by (auto simp: pushed_def spec_wf_def)
  moreover have "view spec2 = (raw_of spec @ [int k], sp_bit_offset spec + of_nat (unat (btf_member_bit_offset t k)), accs_of spec @ [a], sp_btf spec)"
    using s2 assms(1) by (simp add: pushed_def view_def)
  moreover have "field_path btf l i [int k] (unat (btf_member_bit_offset t k)) (m_type (btf_member_at t k)) (last_member btf a)" for l
    using path_member [OF assms(6-8) _ path_here] assms(9) nm(2) last_member_idx [OF assms(6,8), of s] by (simp add: a str_is_empty_def)
  moreover have "acc_name a = Some s" by (simp add: a)
  ultimately show "found_field {int k} btf name i spec spec2 (m_type (btf_member_at t k))"
    using field_here [OF assms(6-9) nm(2,1)] nm(1) unfolding found_field_def by blast
  show "spec_wf (spec2\<lparr>sp_len := sp_len spec2 - 1\<rparr>) \<and> sp_len spec2 = Suc (sp_len spec) \<and> sp_raw_len spec \<le> sp_raw_len spec2"
    using s2 assms(1) by (auto simp: pushed_def spec_wf_def)
qed

lemma found_field_mono: "found_field K btf name i spec spec' j \<Longrightarrow> K \<subseteq> K' \<Longrightarrow> found_field K' btf name i spec spec' j"
  unfolding found_field_def by blast

lemma match_members_ok:
  assumes deeper: "\<And>i spec n r. deeper i spec n = Ret r \<Longrightarrow> spec_wf spec \<Longrightarrow> search_ok UNIV btf name i spec r"
    and sk: "skip_mods_and_typedefs btf i = Ret (t, i')" and comp: "btf_is_composite t" and uniq: "unique_fields btf"
    and name: "name = the (btf__name_by_offset local_btf (m_name_off local_member))"
  shows "match_members deeper local_btf local_member btf t i' ms spec n = Ret r \<Longrightarrow> spec_wf spec \<Longrightarrow>
    \<forall>k\<in>set ms. k < unat (btf_vlen t) \<Longrightarrow> distinct ms \<Longrightarrow> search_ok (int ` set ms) btf name i spec r"
proof (induction ms arbitrary: spec n)
  case Nil
  then show ?case by (auto simp: search_ok_def)
next
  case (Cons k ms)
  let ?bo = "btf_member_bit_offset t k" and ?m = "btf_member_at t k"
  let ?nm = "btf__name_by_offset btf (m_name_off ?m)"
  note k = Cons.prems(3) [THEN bspec, of k, simplified]
  have tl: "int k \<notin> int ` set ms" "\<forall>k\<in>set ms. k < unat (btf_vlen t)" "distinct ms" using Cons.prems(3,4) by auto
  have widen: "found_field {int k} btf name i spec s j \<Longrightarrow> found_field (int ` set (k # ms)) btf name i spec s j" for s j
    by (erule found_field_mono) simp
  show ?case
  proof (cases "sp_raw_len spec = 64")
    case True
    then show ?thesis using Cons.prems(1) search_error by (auto simp: BPF_CORE_SPEC_MAX_LEN_def)
  next
    case False
    obtain spec1 where s1: "push_raw (spec\<lparr>sp_bit_offset := sp_bit_offset spec + ?bo\<rparr>) (int k) = Ret spec1" "pushed k ?bo spec spec1"
      using push_member [OF Cons.prems(2) False] .
    then have wf1: "spec_wf spec1" by (simp add: pushed_def)
    have rest: "search_ok (int ` set (k # ms)) btf name i spec r"
      if "match_members deeper local_btf local_member btf t i' ms (take_back ?bo spec2) n' = Ret r" "spec_wf spec2" "sp_len spec2 = sp_len spec1"
        "sp_raw_len spec1 \<le> sp_raw_len spec2" "view spec2 = view spec1 \<or> (\<exists>ks b j. has_field btf name i (int k # ks) b j)" for spec2 n'
    proof -
      note tb = take_back_ok [OF s1(2) that(2-4)]
      have "search_ok (int ` set ms) btf name i (take_back ?bo spec2) r" by (rule Cons.IH [OF that(1) tb(1) tl(2,3)])
      then show ?thesis using that(5) tb tl(1) uniq Cons.prems(2) search_ok_cong search_ok_after by (metis image_mono set_subset_Cons)
    qed
    show ?thesis
    proof (cases "str_is_empty ?nm")
      case True
      then obtain found n2 spec2 where d: "deeper (m_type ?m) spec1 n = Ret (found, n2, spec2)"
        and r: "(if found \<noteq> Inr False then Ret (found, n2, spec2)
          else match_members deeper local_btf local_member btf t i' ms (take_back ?bo spec2) n2) = Ret r"
        using Cons.prems(1) False s1(1) by (auto simp: BPF_CORE_SPEC_MAX_LEN_def Let_def run_bind_eq_Ret simp del: One_nat_def)
      have so: "search_ok UNIV btf name (m_type ?m) spec1 (found, n2, spec2)" by (rule deeper [OF d wf1])
      consider "found = Inr True" | "found = Inr False" | e where "found = Inl e" by (cases found) auto
      then show ?thesis
      proof cases
        case 1
        then show ?thesis using so r widen [OF found_deeper [OF _ s1(2) sk comp k True]] by (auto simp: search_ok_def)
      next
        case 2
        have "\<exists>ks b j. has_field btf name (m_type ?m) ks b j \<Longrightarrow> \<exists>ks b j. has_field btf name i (int k # ks) b j"
          using field_deeper [OF sk comp k True] by blast
        then show ?thesis using 2 so r by (intro rest [of spec2 n2]) (auto simp: search_ok_def)
      next
        case 3
        then show ?thesis using r search_error by auto
      qed
    next
      case named: False
      then obtain s where s: "?nm = Some s" "\<not> is_empty_str s" by (cases ?nm) (auto simp: str_is_empty_def)
      have ln: "btf__name_by_offset local_btf (m_name_off local_member) = Some name"
        using Cons.prems(1) False s1(1) named name by (cases "btf__name_by_offset local_btf (m_name_off local_member)") (auto simp: BPF_CORE_SPEC_MAX_LEN_def Let_def)
      show ?thesis
      proof (cases "strcmp name s = 0")
        case True
        let ?a = "\<lparr>acc_type_id = i', acc_idx = of_nat k, acc_name = Some s\<rparr>"
        obtain spec2 found where s2: "set_acc spec1 (sp_len spec1) ?a = Ret spec2"
          and r: "r = (found, m_type ?m, if found = Inr False then spec2\<lparr>sp_len := sp_len spec2 - 1\<rparr> else spec2)"
          using Cons.prems(1) False s1(1) named s(1) ln True by (auto simp: BPF_CORE_SPEC_MAX_LEN_def Let_def run_bind_eq_Ret)
        show ?thesis
          using r widen [OF found_here(1) [OF s1(2) s2 refl True s(2) sk comp k s(1)]] found_here(2) [OF s1(2) s2 refl True s(2) sk comp k s(1)]
            field_here [OF sk comp k s True]
          by (auto simp: search_ok_def)
      next
        case neq: False
        then have "match_members deeper local_btf local_member btf t i' ms (take_back ?bo spec1) n = Ret r"
          using Cons.prems(1) False s1(1) named s(1) ln by (auto simp: BPF_CORE_SPEC_MAX_LEN_def Let_def)
        then show ?thesis using wf1 by (intro rest [of spec1 n]) auto
      qed
    qed
  qed
qed

lemma match_member_levels_ok:
  assumes "unique_fields btf"
    and "name = the (btf__name_by_offset local_btf (m_name_off (btf_member_at (btf_type_by_id local_btf (acc_type_id acc)) (unat (acc_idx acc)))))"
  shows "match_member_levels l local_btf acc btf i spec n = Ret r \<Longrightarrow> spec_wf spec \<Longrightarrow> search_ok UNIV btf name i spec r"
proof (induction l arbitrary: i spec n r)
  case (Suc l)
  obtain t i' where sk: "skip_mods_and_typedefs btf i = Ret (t, i')" using Suc.prems(1) by (auto simp: run_bind_eq_Ret)
  show ?case
  proof (cases "btf_is_composite t")
    case True
    let ?lm = "btf_member_at (btf_type_by_id local_btf (acc_type_id acc)) (unat (acc_idx acc))"
    have mm: "match_members (match_member_levels l local_btf acc btf) local_btf ?lm btf t i' [0..<unat (btf_vlen t)] spec n = Ret r"
      using Suc.prems(1) sk True by simp
    have "search_ok (int ` set [0..<unat (btf_vlen t)]) btf name i spec r"
      by (rule match_members_ok [of "match_member_levels l local_btf acc btf", OF Suc.IH sk True assms mm Suc.prems(2)]) simp_all
    then show ?thesis using search_ok_cong Suc.prems(2) by blast
  next
    case False
    then show ?thesis using Suc.prems sk by (auto simp: search_ok_def)
  qed
qed simp

text \<open>An accessor of the target that stands for one of the local type: the same name, or the same index.\<close>

definition corresponds :: "btf \<Rightarrow> bpf_core_accessor \<Rightarrow> bpf_core_accessor \<Rightarrow> bool" where
  "corresponds local_btf l t \<longleftrightarrow>
     (if acc_name l = None then acc_name t = None \<and> acc_idx t = acc_idx l
      else \<exists>s. acc_name t = Some s \<and>
        strcmp (the (btf__name_by_offset local_btf (m_name_off (btf_member_at (btf_type_by_id local_btf (acc_type_id l)) (unat (acc_idx l)))))) s = 0)"

text \<open>The first \<open>i\<close> accessors have been matched, and the path so far leads to the type \<open>j\<close>.\<close>

definition matched :: "bpf_core_spec \<Rightarrow> btf \<Rightarrow> u32 \<Rightarrow> nat \<Rightarrow> bpf_core_spec \<Rightarrow> u32 \<Rightarrow> bool" where
  "matched local_spec btf root i spec j \<longleftrightarrow> spec_wf spec \<and> sp_len spec = i \<and>
     (\<exists>b. spec_path btf root (raw_of spec) b j (at_last btf spec) \<and> sp_bit_offset spec = of_nat b) \<and>
     list_all2 (corresponds (sp_btf local_spec)) (take i (sp_spec local_spec)) (accs_of spec)"

lemma set_push_ok:
  assumes "spec_wf spec" "sp_raw_len spec \<noteq> 64" "set_acc spec (sp_len spec) a = Ret spec1" "push_raw spec1 v = Ret spec2"
  shows "spec_wf spec2 \<and> raw_of spec2 = raw_of spec @ [v] \<and> accs_of spec2 = accs_of spec @ [a] \<and>
    sp_bit_offset spec2 = sp_bit_offset spec \<and> sp_len spec2 = Suc (sp_len spec)"
  using assms
  by (auto simp: set_acc_def push_raw_def array_set_def spec_wf_def raw_of_def accs_of_def take_Suc_conv_app_nth)

lemma path_skip:
  assumes "field_path btf l i' (k # ks) b j l'" "skip_mods_and_typedefs btf i = Ret (t, i')"
  shows "field_path btf l i (k # ks) b j l'"
  using assms(1)
proof cases
  case (path_member t' i'' k' b')
  then show ?thesis using field_path.path_member [of btf i t i' k' ks b' j l' l] skip_idem [OF assms(2)] assms(2) by simp
next
  case (path_anon t' i'' k' b')
  then show ?thesis using field_path.path_anon [of btf i t i' k' l ks b' j l'] skip_idem [OF assms(2)] assms(2) by simp
next
  case (path_elem t' i'' k' u e n b')
  then show ?thesis using field_path.path_elem [of btf i t i' k' l u e n ks b' j l'] skip_idem [OF assms(2)] assms(2) by simp
qed

lemma matched_elem:
  assumes "matched local_spec btf root i spec j" "sp_raw_len spec \<noteq> 64" "i < length (sp_spec local_spec)"
    and l: "l = sp_spec local_spec ! i" "acc_name l = None" "idx_ok l"
    and path: "field_path btf (at_last btf spec) j [sint (acc_idx l)] (nat (sint (acc_idx l)) * n * 8) e False"
    and "set_acc spec i \<lparr>acc_type_id = e, acc_idx = acc_idx l, acc_name = None\<rparr> = Ret spec1" "push_raw spec1 (sint (acc_idx l)) = Ret spec2"
  shows "matched local_spec btf root (Suc i) (spec2\<lparr>sp_bit_offset := sp_bit_offset spec2 + acc_idx l * of_nat n * 8\<rparr>) e"
proof -
  obtain b where b: "spec_wf spec" "sp_len spec = i" "spec_path btf root (raw_of spec) b j (at_last btf spec)" "sp_bit_offset spec = of_nat b"
    "list_all2 (corresponds (sp_btf local_spec)) (take i (sp_spec local_spec)) (accs_of spec)"
    using assms(1) by (auto simp: matched_def)
  have s2: "spec_wf spec2" "raw_of spec2 = raw_of spec @ [sint (acc_idx l)]"
    "accs_of spec2 = accs_of spec @ [\<lparr>acc_type_id = e, acc_idx = acc_idx l, acc_name = None\<rparr>]"
    "sp_bit_offset spec2 = sp_bit_offset spec" "sp_len spec2 = Suc i"
    using set_push_ok [OF b(1) assms(2) assms(8) [folded b(2)] assms(9)] b(2) by simp_all
  have "of_nat (nat (sint (acc_idx l))) = acc_idx l" using l(3) by (simp add: idx_ok_def of_nat_nat)
  then have off: "acc_idx l * of_nat n * 8 = of_nat (nat (sint (acc_idx l)) * n * 8)" by simp
  have "\<not> at_last btf spec2" using accs_last [OF s2(1,3)] by (simp add: last_member_def)
  moreover have "corresponds (sp_btf local_spec) l \<lparr>acc_type_id = e, acc_idx = acc_idx l, acc_name = None\<rparr>" using l(2) by (simp add: corresponds_def)
  ultimately show ?thesis unfolding matched_def off
    using s2 b spec_path_append [OF b(3) path] assms(3) l(1)
    by (auto simp: take_Suc_conv_app_nth list_all2_append spec_wf_def raw_of_def accs_of_def intro!: exI [of _ "b + nat (sint (acc_idx l)) * n * 8"])
qed

lemma matched_member:
  assumes "matched local_spec btf root i spec j" "i < length (sp_spec local_spec)"
    and l: "l = sp_spec local_spec ! i" "acc_name l \<noteq> None"
    and name: "name = the (btf__name_by_offset (sp_btf local_spec)
      (m_name_off (btf_member_at (btf_type_by_id (sp_btf local_spec) (acc_type_id l)) (unat (acc_idx l)))))"
    and "skip_mods_and_typedefs btf j = Ret (t, j1)" "found_field UNIV btf name j1 spec spec1 j2"
  shows "matched local_spec btf root (Suc i) spec1 j2"
proof -
  obtain b where b: "spec_wf spec" "sp_len spec = i" "spec_path btf root (raw_of spec) b j (at_last btf spec)" "sp_bit_offset spec = of_nat b"
    "list_all2 (corresponds (sp_btf local_spec)) (take i (sp_spec local_spec)) (accs_of spec)"
    using assms(1) by (auto simp: matched_def)
  obtain k ks c a s where f: "has_field btf name j1 (k # ks) c j2" "spec_wf spec1" "acc_name a = Some s" "strcmp name s = 0"
    "raw_of spec1 = raw_of spec @ k # ks" "sp_bit_offset spec1 = sp_bit_offset spec + of_nat c" "accs_of spec1 = accs_of spec @ [a]"
    "\<And>g. field_path btf g j1 (k # ks) c j2 (last_member btf a)"
    using assms(7) by (auto simp: found_field_def view_def)
  have "spec_path btf root (raw_of spec1) (b + c) j2 (at_last btf spec1)"
    using spec_path_append [OF b(3) path_skip [OF f(8) assms(6)]] f(5) accs_last [OF f(2,7)] by simp
  moreover have "sp_len spec1 = Suc i" using wf_lengths [OF f(2)] wf_lengths [OF b(1)] f(7) b(2) by simp
  moreover have "corresponds (sp_btf local_spec) l a" using l(2) f(3,4) name by (simp add: corresponds_def)
  ultimately show ?thesis unfolding matched_def using f b assms(2) l(1)
    by (auto simp: take_Suc_conv_app_nth intro!: exI [of _ "b + c"] list_all2_appendI)
qed

lemma matched_first:
  assumes "skip_mods_and_typedefs btf root = Ret (t, j)" "sp_raw_len (spec_init btf root kind) \<noteq> 64" "btf__resolve_size btf j = Inr n"
    and l: "l = sp_spec local_spec ! 0" "acc_name l = None" "idx_ok l" "sp_spec local_spec \<noteq> []"
    and "set_acc (spec_init btf root kind) 0 \<lparr>acc_type_id = j, acc_idx = acc_idx l, acc_name = None\<rparr> = Ret spec1"
    and "push_raw spec1 (sint (acc_idx l)) = Ret spec2"
  shows "matched local_spec btf root 1 (spec2\<lparr>sp_bit_offset := sp_bit_offset spec2 + acc_idx l * of_nat n * 8\<rparr>) j"
proof -
  let ?a = "\<lparr>acc_type_id = j, acc_idx = acc_idx l, acc_name = None\<rparr>"
  have "sp_len (spec_init btf root kind) = 0" by (simp add: spec_init_def)
  then have s2: "spec_wf spec2" "raw_of spec2 = [sint (acc_idx l)]" "accs_of spec2 = [?a]" "sp_bit_offset spec2 = 0" "sp_len spec2 = 1"
    using set_push_ok [OF spec_init_wf(1) assms(2) _ assms(9), of ?a] assms(8) by (simp_all add: spec_init_wf)
  have "of_nat (nat (sint (acc_idx l))) = acc_idx l" using l(3) by (simp add: idx_ok_def of_nat_nat)
  then have off: "acc_idx l * of_nat n * 8 = of_nat (nat (sint (acc_idx l)) * n * 8)" by simp
  have path: "spec_path btf root [sint (acc_idx l)] (nat (sint (acc_idx l)) * n * 8) j False"
    using spec_path [OF assms(1,3) path_here, of "nat (sint (acc_idx l))"] l(3) by (simp add: idx_ok_def)
  have "\<not> at_last btf spec2" using accs_last [OF s2(1), of "[]"] s2(3) by (simp add: last_member_def)
  moreover have "take 1 (sp_spec local_spec) = [l]" using l(1,4) by (cases "sp_spec local_spec") simp_all
  ultimately show ?thesis unfolding matched_def off using s2 path l(2)
    by (auto simp: corresponds_def spec_wf_def raw_of_def accs_of_def)
qed

text \<open>What is known when an unnamed accessor has been matched.\<close>

definition elem_ok :: "btf \<Rightarrow> bpf_core_accessor \<Rightarrow> btf_type \<Rightarrow> u32 \<Rightarrow> u32 \<Rightarrow> bool" where
  "elem_ok btf prev t k e \<longleftrightarrow> btf_is_array t \<and> (is_flex_arr btf prev (btf_array_of t) \<or> k < a_nelems (btf_array_of t)) \<and>
     (\<exists>t'. skip_mods_and_typedefs btf (a_type (btf_array_of t)) = Ret (t', e))"

lemma elem_ok_path:
  assumes "skip_mods_and_typedefs btf j = Ret (t, j1)" "elem_ok btf prev t k e" "btf__resolve_size btf e = Inr n" "0 \<le> sint k"
  shows "field_path btf (last_member btf prev) j [sint k] (nat (sint k) * n * 8) e False"
proof -
  obtain t' where e: "btf_is_array t" "is_flex_arr btf prev (btf_array_of t) \<or> k < a_nelems (btf_array_of t)"
    "skip_mods_and_typedefs btf (a_type (btf_array_of t)) = Ret (t', e)" using assms(2) by (auto simp: elem_ok_def)
  have "nat (sint k) = unat k" using sint_nonneg_u32 [OF assms(4)] by simp
  then have "nat (sint k) < unat (a_nelems (btf_array_of t)) \<or> last_member btf prev \<and> a_nelems (btf_array_of t) = 0"
    using e(2) by (auto simp: is_flex_arr_last word_less_nat_alt)
  then show ?thesis using path_elem [OF assms(1) e(1) _ e(3) assms(3) path_here, of "nat (sint k)"] assms(4) by simp
qed

lemma accessor_elem:
  assumes "match_accessors local_spec btf (i # ms) j spec = Ret (Inr True, spec')" "acc_name (sp_spec local_spec ! i) = None"
    and "k = acc_idx (sp_spec local_spec ! i)"
  obtains t j1 e n spec1 spec2 where "skip_mods_and_typedefs btf j = Ret (t, j1)" "sp_raw_len spec \<noteq> 64" "btf__resolve_size btf e = Inr n"
    "set_acc spec i \<lparr>acc_type_id = e, acc_idx = k, acc_name = None\<rparr> = Ret spec1" "push_raw spec1 (sint k) = Ret spec2"
    "match_accessors local_spec btf ms e (spec2\<lparr>sp_bit_offset := sp_bit_offset spec2 + k * of_nat n * 8\<rparr>) = Ret (Inr True, spec')"
    "if i = 0 then e = j1 else elem_ok btf (sp_spec spec ! (i - 1)) t k e"
proof -
  obtain t j1 where sk: "skip_mods_and_typedefs btf j = Ret (t, j1)" using assms(1) by (auto simp: Let_def run_bind_eq_Ret)
  define elem where "elem e = (if sp_raw_len spec = BPF_CORE_SPEC_MAX_LEN then Ret (Inl E2BIG, spec)
      else run_bind (set_acc spec i \<lparr>acc_type_id = e, acc_idx = k, acc_name = None\<rparr>) (\<lambda>spec.
           run_bind (push_raw spec (sint k)) (\<lambda>spec.
           case btf__resolve_size btf e of Inl er \<Rightarrow> Ret (Inl er, spec)
           | Inr n \<Rightarrow> let size = sint (of_nat n :: u32) in if size < 0 then Ret (Inl (err_of_int size), spec)
               else match_accessors local_spec btf ms e (spec\<lparr>sp_bit_offset := sp_bit_offset spec + k * of_nat n * 8\<rparr>))))" for e
  have "\<exists>e. elem e = Ret (Inr True, spec') \<and>
      (if i = 0 then e = j1 else elem_ok btf (sp_spec spec ! (i - 1)) t k e)"
    using assms sk unfolding elem_def elem_ok_def by (auto simp: Let_def run_bind_eq_Ret [of "skip_mods_and_typedefs _ _"] split: if_split_asm)
  then obtain e where e: "elem e = Ret (Inr True, spec')"
    "if i = 0 then e = j1 else elem_ok btf (sp_spec spec ! (i - 1)) t k e" by blast
  then obtain n where n: "btf__resolve_size btf e = Inr n" unfolding elem_def
    by (cases "btf__resolve_size btf e") (auto simp: run_bind_eq_Ret split: if_split_asm)
  with e(1) show ?thesis unfolding elem_def
    by (auto simp: Let_def run_bind_eq_Ret BPF_CORE_SPEC_MAX_LEN_def split: if_split_asm intro!: that [OF sk _ n _ _ _ e(2)])
qed

lemma match_accessors_ok:
  assumes uniq: "unique_fields btf" and wf: "spec_wf local_spec" and idx: "\<forall>a\<in>set (accs_of local_spec). idx_ok a"
  shows "match_accessors local_spec btf [i..<sp_len local_spec] j spec = Ret (Inr True, spec') \<Longrightarrow> 0 < i \<Longrightarrow> i \<le> sp_len local_spec \<Longrightarrow>
    matched local_spec btf root i spec j \<Longrightarrow> \<exists>j'. matched local_spec btf root (sp_len local_spec) spec' j'"
proof (induction "sp_len local_spec - i" arbitrary: i j spec)
  case 0
  then show ?case by auto
next
  case (Suc d)
  then have i: "i < sp_len local_spec" "d = sp_len local_spec - Suc i" by simp_all
  then have len: "i < length (sp_spec local_spec)" using wf by (simp add: spec_wf_def)
  let ?l = "sp_spec local_spec ! i"
  have "accs_of local_spec ! i = ?l" "i < length (accs_of local_spec)" using i(1) wf by (simp_all add: accs_of_def spec_wf_def)
  then have ok: "idx_ok ?l" using idx by (metis nth_mem)
  note run = Suc.prems(1) [unfolded upt_conv_Cons [OF i(1)]]
  have step: "\<exists>j'. matched local_spec btf root (sp_len local_spec) spec' j'"
    if "match_accessors local_spec btf [Suc i..<sp_len local_spec] j1 spec1 = Ret (Inr True, spec')" "matched local_spec btf root (Suc i) spec1 j1" for j1 spec1
    using Suc.hyps(1) [OF i(2) that(1) _ _ that(2)] i(1) by simp
  show ?case
  proof (cases "acc_name ?l")
    case None
    obtain t j1 e n spec1 spec2 where e: "skip_mods_and_typedefs btf j = Ret (t, j1)" "sp_raw_len spec \<noteq> 64" "btf__resolve_size btf e = Inr n"
      "set_acc spec i \<lparr>acc_type_id = e, acc_idx = acc_idx ?l, acc_name = None\<rparr> = Ret spec1" "push_raw spec1 (sint (acc_idx ?l)) = Ret spec2"
      "match_accessors local_spec btf [Suc i..<sp_len local_spec] e (spec2\<lparr>sp_bit_offset := sp_bit_offset spec2 + acc_idx ?l * of_nat n * 8\<rparr>) = Ret (Inr True, spec')"
      "if i = 0 then e = j1 else elem_ok btf (sp_spec spec ! (i - 1)) t (acc_idx ?l) e"
      using run None refl by (rule accessor_elem)
    then have "field_path btf (at_last btf spec) j [sint (acc_idx ?l)] (nat (sint (acc_idx ?l)) * n * 8) e False"
      using elem_ok_path [OF e(1) _ e(3), of "sp_spec spec ! (i - 1)" "acc_idx ?l"] ok Suc.prems(2,4) by (auto simp: idx_ok_def matched_def)
    then show ?thesis using step [OF e(6)] matched_elem [OF Suc.prems(4) e(2) len refl None ok _ e(4,5)] by blast
  next
    case (Some nm)
    then obtain t j1 j2 spec1 where sk: "skip_mods_and_typedefs btf j = Ret (t, j1)"
      and m: "bpf_core_match_member (sp_btf local_spec) ?l btf j1 spec j1 = Ret (Inr True, j2, spec1)"
      and rest: "match_accessors local_spec btf [Suc i..<sp_len local_spec] j2 spec1 = Ret (Inr True, spec')"
      using run by (auto simp: run_bind_eq_Ret split: if_split_asm)
    have "spec_wf spec" using Suc.prems(4) by (simp add: matched_def)
    then have "found_field UNIV btf (the (btf__name_by_offset (sp_btf local_spec)
        (m_name_off (btf_member_at (btf_type_by_id (sp_btf local_spec) (acc_type_id ?l)) (unat (acc_idx ?l)))))) j1 spec spec1 j2"
      using match_member_levels_ok [OF uniq refl m [unfolded bpf_core_match_member_def]] by (simp add: search_ok_def)
    then have "matched local_spec btf root (Suc i) spec1 j2" using matched_member [OF Suc.prems(4) len refl _ refl sk] Some by simp
    then show ?thesis using step rest by blast
  qed
qed

text \<open>
  C5. A match of a field in a target type: the accessors of the target correspond one by one to those parsed for the local
  type, with the same names and array indices; the raw indices of the target are a path of at most 64 steps from the target
  type through existing members and elements in bounds, and the bit offset is the sum of the offsets along it. It is
  assumed that no type of the target has two fields of the same name, which is not empty, counting the fields of members
  without a name, as C requires. Without this the search could go on after a field of the name but of an
  incompatible type in a member without a name: that field is left in the raw indices and in the offset.
\<close>

theorem bpf_core_spec_match_path:
  assumes "bpf_core_parse_spec local_btf relo = ok local_spec" "core_relo_is_field_based (r_kind relo)"
    and "bpf_core_spec_match local_spec targ_btf targ_id = Ret (Inr True, spec)" "unique_fields targ_btf"
  shows "\<exists>b j l. spec_path targ_btf targ_id (raw_of spec) b j l \<and> sp_bit_offset spec = of_nat b \<and> spec_wf spec \<and>
    list_all2 (corresponds local_btf) (accs_of local_spec) (accs_of spec)"
proof -
  have l: "spec_wf local_spec" "0 < sp_len local_spec" "acc_name (sp_spec local_spec ! 0) = None" "\<forall>a\<in>set (accs_of local_spec). idx_ok a"
    "sp_btf local_spec = local_btf" "sp_relo_kind local_spec = r_kind relo" using parse_spec_facts [OF assms(1,2)] by blast+
  let ?l = "sp_spec local_spec ! 0" and ?init = "spec_init targ_btf targ_id (sp_relo_kind local_spec)"
  have run: "match_accessors local_spec targ_btf (0 # [1..<sp_len local_spec]) targ_id ?init = Ret (Inr True, spec)"
    using assms(2,3) l(2,6) field_based_kind [OF assms(2)] by (simp add: bpf_core_spec_match_def upt_conv_Cons del: match_accessors.simps)
  obtain t j1 n spec1 spec2 where e: "skip_mods_and_typedefs targ_btf targ_id = Ret (t, j1)" "sp_raw_len ?init \<noteq> 64"
    "btf__resolve_size targ_btf j1 = Inr n" "set_acc ?init 0 \<lparr>acc_type_id = j1, acc_idx = acc_idx ?l, acc_name = None\<rparr> = Ret spec1"
    "push_raw spec1 (sint (acc_idx ?l)) = Ret spec2"
    "match_accessors local_spec targ_btf [1..<sp_len local_spec] j1 (spec2\<lparr>sp_bit_offset := sp_bit_offset spec2 + acc_idx ?l * of_nat n * 8\<rparr>) = Ret (Inr True, spec)"
    using run l(3) refl by (rule accessor_elem) auto
  have ok: "idx_ok ?l" using l(1,2,4) nth_mem [of 0 "accs_of local_spec"] by (simp add: accs_of_def spec_wf_def)
  have "matched local_spec targ_btf targ_id 1 (spec2\<lparr>sp_bit_offset := sp_bit_offset spec2 + acc_idx ?l * of_nat n * 8\<rparr>) j1"
    by (rule matched_first [OF e(1,2,3) _ l(3) ok _ e(4,5)]) (use l in \<open>auto simp: spec_wf_def\<close>)
  then obtain j where "matched local_spec targ_btf targ_id (sp_len local_spec) spec j"
    using match_accessors_ok [OF assms(4) l(1,4) e(6)] l(2) by auto
  then show ?thesis using l(5) by (auto simp: matched_def accs_of_def [of local_spec])
qed

lemma strcmp_hd: "strcmp name (y # ys) = 0 \<Longrightarrow> y \<noteq> 0 \<Longrightarrow> name \<noteq> [] \<and> hd name = y"
  by (cases name) (auto simp: uint_0_iff split: if_split_asm dest: unsigned_word_eqI)

lemma core_composite:
  assumes "skip_mods_and_typedefs core_btf i = Ret (t, i')" "btf_is_composite t"
  shows "t = core_struct"
proof -
  have t: "btf__type_by_id core_btf i' = Some t"
    using assms(1) by (auto simp: skip_mods_and_typedefs_def deref_def split: option.split_asm)
  then have "i' < 3" using core_cnt(2) by (auto simp: btf__type_by_id_def core_part_simps split: if_split_asm)
  then have "unat i' = unat (0 :: u32) \<or> unat i' = unat (1 :: u32) \<or> unat i' = unat (2 :: u32)" by (auto simp: word_less_nat_alt)
  then have "i' = 0 \<or> i' = 1 \<or> i' = 2" using unsigned_word_eqI by blast
  moreover have "btf__type_by_id core_btf 0 = Some btf_void"
    by (simp add: btf__type_by_id_def core_cnt core_part_simps) (simp add: core_btf_def)
  moreover have "\<not> btf_is_composite btf_void" "\<not> btf_is_composite core_int"
    by (simp_all add: btf_is_composite_def core_kinds)
  ultimately show ?thesis using t assms(2) core_ids by auto
qed

lemma core_has_field:
  assumes "has_field core_btf name i ks b j"
  shows "name \<noteq> [] \<and> (ks = [0] \<and> hd name = 97 \<or> ks = [1] \<and> hd name = 98)"
  using assms
proof cases
  case (field_here t i' k s)
  then have t: "t = core_struct" by (metis core_composite)
  then have "k = 0 \<or> k = Suc 0" using field_here by (auto simp: core_kinds)
  then show ?thesis using field_here t strcmp_hd by (auto simp: core_members core_names)
next
  case (field_deeper t i' k ks' b')
  then have t: "t = core_struct" by (metis core_composite)
  then have "k = 0 \<or> k = Suc 0" using field_deeper by (auto simp: core_kinds)
  then show ?thesis using field_deeper t by (auto simp: core_members core_names str_is_empty_def is_empty_str_def)
qed

lemma core_unique: "unique_fields core_btf"
  unfolding unique_fields_def by (fastforce dest: core_has_field)

theorem bpf_core_spec_match_path_witness:
  "\<exists>b j l. spec_path core_btf 2 (raw_of (core_spec 0)) b j l \<and> (of_nat b :: u32) = 35 \<and>
     list_all2 (corresponds core_btf) (accs_of (core_spec 0)) (accs_of (core_spec 0))"
  using bpf_core_spec_match_path [OF core_parse _ core_match core_unique]
  by (auto simp: core_relo_def core_relo_is_field_based_def core_spec_simps)

end
