(* ===== verification/Spec2Isabelle.thy ===== *)
theory Spec2Isabelle
  imports BtfRoundtrip CorePath
begin

text \<open>
  A verification library for libbpf, the user-space library that loads BPF programs into the Linux kernel. The sources are
  the C files under \<^verbatim>\<open>src/src/\<close> with the kernel headers under \<^verbatim>\<open>src/include/\<close>. The target is a little-endian machine
  with 64-bit pointers; integers are machine words at the width the source gives them.

  \<^bold>\<open>The parts and how they interact.\<close> The type information of BPF programs and of the kernel comes as BTF: a header, a
  section of types, and a section of strings. \<^verbatim>\<open>btf.c\<close> parses, queries, builds and writes BTF objects; it keeps the
  strings of an object under construction in the string set of \<^verbatim>\<open>strset.c\<close>, which finds them through the hash map of
  \<^verbatim>\<open>hashmap.c\<close>; \<^verbatim>\<open>btf_iter.c\<close> visits the ids and strings that a type refers to. \<^verbatim>\<open>relo_core.c\<close> uses two BTF objects,
  that of the program and that of the kernel, to adapt instructions to the kernel at hand (CO-RE).

  \<^bold>\<open>The theories.\<close>

  \<^item> \<^verbatim>\<open>Prelude\<close>: word types, errors and results, byte buffers, C strings, and the lemmas and collections shared by all.
  \<^item> \<^verbatim>\<open>Hashmap\<close>: \<^verbatim>\<open>hashmap.c\<close> and \<^verbatim>\<open>hashmap.h\<close>. The state is the record \<open>hashmap\<close> with its buckets as lists of entries;
    \<open>hashmap_insert\<close>, \<open>hashmap_find\<close>, \<open>hashmap_delete\<close>, \<open>hashmap__clear\<close> and the iterations are the functions of these names.
    The locale \<open>hash_contract\<close> states what a client promises of its hash and equality functions. Every reachable map keeps its
    invariant and refines a finite map, or a multimap when values are appended.
  \<^item> \<^verbatim>\<open>Strset\<close>: \<^verbatim>\<open>strset.c\<close> and the growing buffers of \<^verbatim>\<open>btf.c\<close>. The set refines a list of distinct strings stored
    back to back, also when the buffer moves; the contract of the hash map is discharged for its hash functions.
  \<^item> \<^verbatim>\<open>BtfTypes\<close>: the encoding of types as 32-bit words and the accessors of \<^verbatim>\<open>btf.h\<close>.
  \<^item> \<^verbatim>\<open>Btf\<close>: \<^verbatim>\<open>btf_new\<close> with all it calls, in either byte order and on top of a base object, the sanity check, the
    lookups, and the pointers in which \<^verbatim>\<open>btf__new\<close> returns an object or an error. \<^verbatim>\<open>BtfParse\<close> and \<^verbatim>\<open>BtfSound\<close> show that an accepted blob is laid out safely and that its references are
    valid; \<^verbatim>\<open>BtfLookup\<close> shows that binary and linear search agree and that sizes of types are computed without wrap-around.
  \<^item> \<^verbatim>\<open>BtfIter\<close>: the iterator of \<^verbatim>\<open>btf_iter.c\<close>; it ends and delivers exactly the fields of a type.
  \<^item> \<^verbatim>\<open>BtfWrite\<close>: the functions that build an object, one definition for each \<^verbatim>\<open>btf__add_*\<close>, and \<^verbatim>\<open>btf_get_raw_data\<close>.
    An offset of a string that is negative as an \<open>int\<close> is an error, as it is for all callers.
    \<^verbatim>\<open>BtfBuild\<close> treats the strings and \<^verbatim>\<open>BtfAppend\<close> the types of an object under construction, \<^verbatim>\<open>BtfCalls\<close> shows the effect of
    every call and that any sequence of calls gives a well-typed object, and \<^verbatim>\<open>BtfRoundtrip\<close> that the written data
    of a built object that passes the sanity check parses back to the same types and strings.
  \<^item> \<^verbatim>\<open>Core\<close>: \<^verbatim>\<open>relo_core.c\<close> with the search for candidates and \<^verbatim>\<open>skip_mods_and_typedefs\<close> of \<^verbatim>\<open>libbpf.c\<close>. \<^verbatim>\<open>CoreSound\<close> shows
    when following references ends, by chains and cycles of the references between types, and that the four relocations of
    a member read exactly its bits, as many as the definition of sizes in \<^verbatim>\<open>BtfLookup\<close> gives its type; \<^verbatim>\<open>CoreAgree\<close>
    shows that a relocation is only applied when all matching candidates agree, when an instruction can be patched and that
    nothing but its operand and size then changes; \<^verbatim>\<open>CorePath\<close> shows that parsed and matched specifications are paths
    through existing members and elements in bounds, whose offsets they sum up, for targets whose field names are unique as in C.

  \<^bold>\<open>Conventions.\<close> A function that fails returns the error on the left of a sum. The outcomes of memory allocations
  are arguments, so the statements hold for all of them. Functions return the changed object with their result, on failure
  too. In \<^verbatim>\<open>Core\<close>, where the code follows pointers that may be NULL and loops that may not end, a run returns, crashes or
  diverges.

  \<^bold>\<open>Bounds.\<close> Loops are recursive functions with a termination proof, except for the following. The field iterator is run by
  a partial function that is shown to return. A chain of references is followed for as many steps as the object has
  types; then an id has been met twice, and the theorem on \<^verbatim>\<open>skip_mods_and_typedefs\<close> shows that the loop of the source does not end
  either. Pairs of types are compared for as many rounds as there are pairs. The search for a member goes 65 levels
  deep, since every level needs one of the 64 entries of the access path. \<^verbatim>\<open>btf__align_of\<close> takes its depth as an argument.

  \<^bold>\<open>Not modelled.\<close> Merging, deduplication and relocation of BTF (\<^verbatim>\<open>btf__add_btf\<close>, \<^verbatim>\<open>btf__dedup\<close>, \<^verbatim>\<open>btf_relocate.c\<close>) and the
  parsing of the .BTF.ext section: large algorithms on top of the modelled operations. The parts that only exchange data with the
  kernel, with files or with libelf: loading of objects and programs (\<^verbatim>\<open>libbpf.c\<close>, \<^verbatim>\<open>elf.c\<close>), system calls and probes
  (\<^verbatim>\<open>bpf.c\<close>, \<^verbatim>\<open>features.c\<close>, \<^verbatim>\<open>libbpf_probes.c\<close>), \<^verbatim>\<open>linker.c\<close>, \<^verbatim>\<open>gen_loader.c\<close>, \<^verbatim>\<open>netlink.c\<close>, \<^verbatim>\<open>ringbuf.c\<close>, \<^verbatim>\<open>usdt.c\<close>,
  \<^verbatim>\<open>zip.c\<close>. Printing (\<^verbatim>\<open>btf_dump.c\<close>, \<^verbatim>\<open>bpf_core_format_spec\<close>) and the headers for BPF programs. In \<^verbatim>\<open>Core\<close> the BTF of the kernel
  modules is an argument of the search for candidates.
\<close>

end
